(* ===== verification/Prelude.thy ===== *)
theory Prelude
  imports Main "HOL-Library.Word" "HOL-Library.Multiset"
begin

text \<open>
  What the components share: bytes, Go error values, the Go slice idioms the
  code uses (copy into a fixed array, removing the i-th element, the first index that
  satisfies a test, \<open>sort.Slice\<close>), and the generic list lemmas about them.
\<close>

named_theorems wf_rules \<open>operations keep the well-formedness invariants\<close>
named_theorems go_simps \<open>evaluation of the Go idioms\<close>

section \<open>Bytes and strings\<close>

type_synonym byte = "8 word"
type_synonym bytes = "byte list"

text \<open>The conversions \<open>[]byte(s)\<close> and \<open>string(b)\<close>: a Go string is a byte sequence.\<close>

definition bytes_of_string :: "string \<Rightarrow> bytes" where
  "bytes_of_string s = map of_char s"

definition string_of_bytes :: "bytes \<Rightarrow> string" where
  "string_of_bytes bs = map (\<lambda>b. char_of (unat b)) bs"

lemma length_string_bytes [simp]:
  "length (bytes_of_string s) = length s" "length (string_of_bytes bs) = length bs"
  by (simp_all add: bytes_of_string_def string_of_bytes_def)

lemma unat_byte_less: "unat (b :: byte) < 256"
  using unsigned_less [of b] by simp

lemma char_of_byte: "char_of (unat (of_char c :: byte)) = c"
proof -
  have "unat (of_char c :: byte) = (of_char c :: nat) mod 256"
    by (simp add: unat_of_nat flip: of_nat_of_char [of c, where 'a = byte])
  then show ?thesis by simp
qed

lemma byte_of_char: "of_char (char_of (unat b)) = (b :: byte)"
proof -
  have "(of_char (char_of (unat b)) :: byte) = of_nat (of_char (char_of (unat b)))"
    by (simp only: of_nat_of_char)
  also have "(of_char (char_of (unat b)) :: nat) = unat b"
    using unat_byte_less [of b] by (simp add: of_char_of)
  finally show ?thesis by simp
qed

lemma string_of_bytes_of_string [simp]: "string_of_bytes (bytes_of_string s) = s"
  by (induction s) (auto simp: string_of_bytes_def bytes_of_string_def char_of_byte)

lemma bytes_of_string_of_bytes [simp]: "bytes_of_string (string_of_bytes bs) = bs"
  by (induction bs) (auto simp: string_of_bytes_def bytes_of_string_def byte_of_char)

lemma length_bytes_of_string [simp]: "length (bytes_of_string s) = length s"
  by (simp add: bytes_of_string_def)

section \<open>Go errors\<close>

text \<open>
  An error value: the sentinel \<open>dht.ErrNotFound\<close>, an error made from a text
  (\<open>errors.New\<close>, or an error of the operating system or the network), and
  \<open>fmt.Errorf("p: %w", e)\<close>, which keeps the wrapped error reachable.
\<close>

datatype go_error = ErrNotFound | ErrText string | ErrWrap string go_error

primrec err_text :: "go_error \<Rightarrow> string" where
  "err_text ErrNotFound = ''not found''"
| "err_text (ErrText s) = s"
| "err_text (ErrWrap p e) = p @ '': '' @ err_text e"

text \<open>\<open>errors.Is(err, dht.ErrNotFound)\<close> follows the chain of wrapped errors.\<close>

primrec is_not_found :: "go_error \<Rightarrow> bool" where
  "is_not_found ErrNotFound = True"
| "is_not_found (ErrText s) = False"
| "is_not_found (ErrWrap p e) = is_not_found e"

section \<open>Slices\<close>

text \<open>\<open>copy(a[:], b)\<close> into a zeroed array of \<open>n\<close> bytes.\<close>

definition copy_into :: "nat \<Rightarrow> bytes \<Rightarrow> bytes" where
  "copy_into n bs = take n (bs @ replicate n 0)"

lemma length_copy_into [simp]: "length (copy_into n bs) = n"
  by (simp add: copy_into_def)

lemma copy_into_same [simp]: "length bs = n \<Longrightarrow> copy_into n bs = bs"
  by (simp add: copy_into_def)

text \<open>\<open>append(b[:i:i], b[i+1:]...)\<close>: the slice without its i-th element.\<close>

definition remove_nth :: "nat \<Rightarrow> 'a list \<Rightarrow> 'a list" where
  "remove_nth i xs = take i xs @ drop (Suc i) xs"

lemma remove_nth_simps [simp]:
  "remove_nth i [] = []"
  "remove_nth 0 (x # xs) = xs"
  "remove_nth (Suc i) (x # xs) = x # remove_nth i xs"
  by (simp_all add: remove_nth_def)

lemma remove_nth_0 [simp]: "remove_nth 0 xs = tl xs"
  by (cases xs) auto

lemma mset_remove_nth: "i < length xs \<Longrightarrow> mset xs = add_mset (xs ! i) (mset (remove_nth i xs))"
  by (induction xs arbitrary: i) (auto simp: nth_Cons split: nat.splits)

lemma length_remove_nth [simp]: "i < length xs \<Longrightarrow> length (remove_nth i xs) = length xs - 1"
  by (auto simp: remove_nth_def)

lemma set_remove_nth_subset: "set (remove_nth i xs) \<subseteq> set xs"
  by (auto simp: remove_nth_def dest: in_set_takeD in_set_dropD)

lemma set_remove_nth: "i < length xs \<Longrightarrow> insert (xs ! i) (set (remove_nth i xs)) = set xs"
  by (metis mset_remove_nth set_mset_add_mset_insert set_mset_mset)

lemma map_remove_nth: "map f (remove_nth i xs) = remove_nth i (map f xs)"
  by (simp add: remove_nth_def take_map drop_map)

lemma distinct_remove_nth: "distinct xs \<Longrightarrow> distinct (remove_nth i xs)"
  by (auto simp: remove_nth_def set_take_disj_set_drop_if_distinct)

lemma nth_notin_remove_nth:
  "distinct xs \<Longrightarrow> i < length xs \<Longrightarrow> xs ! i \<notin> set (remove_nth i xs)"
  by (induction xs arbitrary: i) (auto simp: nth_Cons split: nat.splits)

text \<open>\<open>for i, x := range xs { if p(x) { ... } }\<close>: the first index that satisfies the test.\<close>

fun find_index :: "('a \<Rightarrow> bool) \<Rightarrow> 'a list \<Rightarrow> nat option" where
  "find_index p [] = None"
| "find_index p (x # xs) = (if p x then Some 0 else map_option Suc (find_index p xs))"

lemma find_index_None: "find_index p xs = None \<longleftrightarrow> (\<forall>x \<in> set xs. \<not> p x)"
  by (induction xs) auto

lemma find_index_Some: "find_index p xs = Some i \<Longrightarrow> i < length xs \<and> p (xs ! i)"
  by (induction xs arbitrary: i) (auto split: if_splits)

lemma find_index_eq_Some_0: "find_index p xs = Some 0 \<longleftrightarrow> xs \<noteq> [] \<and> p (hd xs)"
  by (cases xs) auto

lemma remove_nth_find_index:
  "distinct (map f xs) \<Longrightarrow> find_index (\<lambda>x. f x = k) xs = Some i \<Longrightarrow>
     remove_nth i xs = filter (\<lambda>x. f x \<noteq> k) xs"
proof (induction xs arbitrary: i)
  case (Cons x xs)
  show ?case
  proof (cases "f x = k")
    case True
    with Cons.prems have "i = 0" and "\<forall>y \<in> set xs. f y \<noteq> k"
      by (simp, metis distinct.simps(2) image_eqI list.map(2) set_map)
    with True show ?thesis by simp
  next
    case False
    with Cons.prems obtain j where "find_index (\<lambda>x. f x = k) xs = Some j" "i = Suc j"
      by auto
    with False Cons show ?thesis by simp
  qed
qed simp

section \<open>sort.Slice\<close>

text \<open>
  \<open>sort.Slice(xs, less)\<close> with \<open>less\<close> comparing a key \<open>f\<close>. Go promises a permutation sorted
  by the key and nothing about the order of equal keys; the model is the stable sort.
  Where the keys are distinct every sorted permutation is the same list
  (\<open>sort_slice_unique\<close>), so there the choice is no choice.
\<close>

definition sort_slice :: "('a \<Rightarrow> nat) \<Rightarrow> 'a list \<Rightarrow> 'a list" where
  "sort_slice f xs = sort_key f xs"

lemma mset_sort_slice [simp]: "mset (sort_slice f xs) = mset xs"
  by (simp add: sort_slice_def)

lemma set_sort_slice [simp]: "set (sort_slice f xs) = set xs"
  by (simp add: sort_slice_def)

lemma length_sort_slice [simp]: "length (sort_slice f xs) = length xs"
  by (simp add: sort_slice_def)

lemma sorted_sort_slice [simp]: "sorted (map f (sort_slice f xs))"
  by (simp add: sort_slice_def)

lemma sorted_take_key: "sorted (map f xs) \<Longrightarrow> sorted (map f (take n xs))"
  by (simp flip: take_map)

lemma sorted_filter_key: "sorted (map f xs) \<Longrightarrow> sorted (map f (filter p xs))"
  by (rule sorted_filter)

lemma sort_slice_unique:
  assumes perm: "mset ys = mset xs" and srt: "sorted (map f ys)" and inj: "inj_on f (set xs)"
  shows "ys = sort_slice f xs"
proof -
  have s: "set ys = set xs" using perm by (metis set_mset_mset)
  have "mset (map f ys) = mset (map f (sort_slice f xs))"
    using perm by simp
  then have m: "map f ys = map f (sort_slice f xs)"
    using srt sorted_sort_slice by (metis properties_for_sort)
  show ?thesis
    by (rule map_inj_on [OF m]) (simp add: s inj)
qed

text \<open>A sorted list keeps its smallest elements under \<open>take\<close>.\<close>

lemma sorted_take_le_drop:
  assumes "sorted (map f xs)" and "x \<in> set (take n xs)" and "y \<in> set (drop n xs)"
  shows "f x \<le> (f y :: 'b :: linorder)"
proof -
  have "sorted (map f (take n xs) @ map f (drop n xs))"
    using assms(1) by (simp flip: map_append)
  with assms(2,3) show ?thesis by (auto simp: sorted_append)
qed

lemma sum_list_replace:
  fixes f :: "'a \<Rightarrow> nat"
  shows "j < length xs \<Longrightarrow> sum_list (map f (xs[j := x])) + f (xs ! j) = f x + sum_list (map f xs)"
  by (induction xs arbitrary: j) (auto split: nat.splits simp: nth_Cons)

section \<open>State machines\<close>

text \<open>An invariant of the reachable states: it holds at the start and every step keeps it.\<close>

locale state_machine =
  fixes start :: 's and step :: "'s \<Rightarrow> 's \<Rightarrow> bool" and ok :: "'s \<Rightarrow> bool"
  assumes ok_start: "ok start"
    and ok_step: "step s t \<Longrightarrow> ok s \<Longrightarrow> ok t"
begin

lemma steps_ok: "step\<^sup>*\<^sup>* s t \<Longrightarrow> ok s \<Longrightarrow> ok t"
  by (induction rule: rtranclp_induct) (auto intro: ok_step)

lemma reachable_ok: "step\<^sup>*\<^sup>* start s \<Longrightarrow> ok s"
  by (rule steps_ok [OF _ ok_start])

end

text \<open>A machine whose steps use up work stops, wherever it is run on.\<close>

locale stopping_machine = state_machine start step ok
  for start :: 's and step :: "'s \<Rightarrow> 's \<Rightarrow> bool" and ok :: "'s \<Rightarrow> bool" +
  fixes work :: "'s \<Rightarrow> nat"
  assumes step_works: "step s t \<Longrightarrow> ok s \<Longrightarrow> work t < work s"
begin

lemma stops: "ok s \<Longrightarrow> \<exists>t. step\<^sup>*\<^sup>* s t \<and> (\<nexists>u. step t u)"
proof (induction "work s" arbitrary: s rule: less_induct)
  case less
  show ?case
  proof (cases "\<exists>u. step s u")
    case True
    then obtain u where u: "step s u" by blast
    from less(1) [OF step_works [OF u less(2)] ok_step [OF u less(2)]] u show ?thesis
      by (blast intro: converse_rtranclp_into_rtranclp)
  qed blast
qed

lemma no_long_run: "(\<And>i. i < n \<Longrightarrow> step (run i) (run (Suc i))) \<Longrightarrow> ok (run 0) \<Longrightarrow> ok (run n) \<and> work (run n) + n \<le> work (run 0)"
proof (induction n)
  case (Suc n)
  then have "ok (run n)" "work (run n) + n \<le> work (run 0)" by simp_all
  moreover have "step (run n) (run (Suc n))" using Suc(2) by simp
  ultimately show ?case using ok_step step_works [of "run n" "run (Suc n)"] by fastforce
qed simp

end

end
