(* ===== verification/Json.thy ===== *)
theory Json
  imports Prelude
begin

text \<open>
  What the program uses of \<open>encoding/json\<close>: JSON values, the compact text
  \<open>json.Marshal\<close> writes, and a parser of JSON text with integer numbers. The structures of
  the program are translated to and from these values field by field, as their struct
  tags say. A string is a byte sequence; the encoder's repair of invalid UTF-8 and its
  escapes of U+2028 and U+2029 are left out, numbers with a fraction are rejected.
\<close>

datatype json =
    JNull
  | JBool bool
  | JInt int
  | JStr string
  | JArr "json list"
  | JObj "(string \<times> json) list"

section \<open>Numbers\<close>

fun nat_digits :: "nat \<Rightarrow> string" where
  "nat_digits n =
     (if n < 10 then [char_of (48 + n)] else nat_digits (n div 10) @ [char_of (48 + n mod 10)])"

declare nat_digits.simps [simp del]

definition int_text :: "int \<Rightarrow> string" where
  "int_text i = (if i < 0 then CHR ''-'' # nat_digits (nat (- i)) else nat_digits (nat i))"

definition digit_val :: "char \<Rightarrow> nat option" where
  "digit_val c = (let n = (of_char c :: nat) in if 48 \<le> n \<and> n \<le> 57 then Some (n - 48) else None)"

fun parse_digits :: "nat \<Rightarrow> string \<Rightarrow> nat \<times> string" where
  "parse_digits acc [] = (acc, [])"
| "parse_digits acc (c # s) =
     (case digit_val c of Some d \<Rightarrow> parse_digits (acc * 10 + d) s | None \<Rightarrow> (acc, c # s))"

definition starts_digit :: "string \<Rightarrow> bool" where
  "starts_digit s \<longleftrightarrow> s \<noteq> [] \<and> digit_val (hd s) \<noteq> None"

definition parse_int :: "string \<Rightarrow> (int \<times> string) option" where
  "parse_int s =
     (if s \<noteq> [] \<and> hd s = CHR ''-'' then
        if starts_digit (tl s) then
          (let (n, r) = parse_digits 0 (tl s) in Some (- int n, r)) else None
      else if starts_digit s then (let (n, r) = parse_digits 0 s in Some (int n, r)) else None)"

lemma digit_val_char: "n < 10 \<Longrightarrow> digit_val (char_of (48 + n)) = Some n"
  by (simp add: digit_val_def of_char_of)

lemma nat_digits_nonempty [simp]: "nat_digits n \<noteq> []"
  by (subst nat_digits.simps) simp

lemma nat_digits_hd: "\<exists>d. digit_val (hd (nat_digits n)) = Some d"
proof (induction n rule: nat_digits.induct)
  case (1 n)
  show ?case
  proof (cases "n < 10")
    case True
    then show ?thesis by (subst nat_digits.simps) (auto simp: digit_val_char)
  next
    case False
    with 1 show ?thesis by (subst nat_digits.simps) auto
  qed
qed

lemma starts_digit_nat_digits [simp]: "starts_digit (nat_digits n @ s)"
  using nat_digits_hd [of n] by (auto simp: starts_digit_def)

lemma parse_digits_stop: "\<not> starts_digit s \<Longrightarrow> parse_digits acc s = (acc, s)"
  by (cases s) (auto simp: starts_digit_def)

lemma parse_digits_nat_digits:
  "\<exists>k. \<forall>acc s. parse_digits acc (nat_digits n @ s) = parse_digits (acc * 10 ^ k + n) s"
proof (induction n rule: nat_digits.induct)
  case (1 n)
  show ?case
  proof (cases "n < 10")
    case True
    then show ?thesis
      by (subst nat_digits.simps) (auto simp: digit_val_char intro!: exI [of _ 1])
  next
    case False
    with 1 obtain k where k: "\<forall>acc s. parse_digits acc (nat_digits (n div 10) @ s)
        = parse_digits (acc * 10 ^ k + n div 10) s" by blast
    have "parse_digits acc (nat_digits n @ s) = parse_digits (acc * 10 ^ Suc k + n) s" for acc s
    proof -
      have "nat_digits n = nat_digits (n div 10) @ [char_of (48 + n mod 10)]"
        using False by (subst nat_digits.simps) simp
      then have "parse_digits acc (nat_digits n @ s)
          = parse_digits (acc * 10 ^ k + n div 10) (char_of (48 + n mod 10) # s)"
        using k by simp
      also have "\<dots> = parse_digits ((acc * 10 ^ k + n div 10) * 10 + n mod 10) s"
        by (simp only: parse_digits.simps digit_val_char [OF mod_less_divisor, OF zero_less_numeral]
            option.case)
      also have "(acc * 10 ^ k + n div 10) * 10 + n mod 10 = acc * 10 ^ Suc k + n" by simp
      finally show ?thesis .
    qed
    then show ?thesis by blast
  qed
qed

lemma parse_int_text:
  assumes "\<not> starts_digit s"
  shows "parse_int (int_text i @ s) = Some (i, s)"
proof -
  have "parse_digits 0 (nat_digits n @ s) = (n, s)" for n
    using parse_digits_nat_digits [of n] parse_digits_stop [OF assms] by auto
  moreover have "hd (nat_digits n @ s) \<noteq> CHR ''-''" for n
    using nat_digits_hd [of n] by (auto simp: digit_val_def)
  ultimately show ?thesis by (auto simp: parse_int_def int_text_def)
qed

section \<open>Strings\<close>

definition hex_digits :: string where
  "hex_digits = ''0123456789abcdef''"

definition hex_digit :: "nat \<Rightarrow> char" where
  "hex_digit n = hex_digits ! (n mod 16)"

text \<open>The value of a hexadecimal digit of either case.\<close>

definition hex_val :: "char \<Rightarrow> nat option" where
  "hex_val c =
     (let n = (of_char c :: nat) in
      if 48 \<le> n \<and> n \<le> 57 then Some (n - 48)
      else if 97 \<le> n \<and> n \<le> 102 then Some (n - 87)
      else if 65 \<le> n \<and> n \<le> 70 then Some (n - 55)
      else None)"

lemma hex_val_digit: "hex_val (hex_digit n) = Some (n mod 16)"
proof -
  have "\<forall>m \<in> set [0..<16]. hex_val (hex_digits ! m) = Some m"
    by (simp add: hex_digits_def hex_val_def upt_rec)
  moreover have "n mod 16 \<in> set [0..<16]" by simp
  ultimately show ?thesis unfolding hex_digit_def by blast
qed

text \<open>\<open>json.Marshal\<close> escapes quotes, backslashes, control characters and \<open><\<close>, \<open>>\<close>, \<open>&\<close>.\<close>

definition json_escape_char :: "char \<Rightarrow> string" where
  "json_escape_char c =
     (let n = (of_char c :: nat) in
      if n = 34 then [CHR 0x5C, CHR 0x22]
      else if n = 92 then [CHR 0x5C, CHR 0x5C]
      else if n = 8 then [CHR 0x5C, CHR ''b'']
      else if n = 12 then [CHR 0x5C, CHR ''f'']
      else if n = 10 then [CHR 0x5C, CHR ''n'']
      else if n = 13 then [CHR 0x5C, CHR ''r'']
      else if n = 9 then [CHR 0x5C, CHR ''t'']
      else if n < 32 \<or> n = 60 \<or> n = 62 \<or> n = 38
        then [CHR 0x5C, CHR ''u'', CHR ''0'', CHR ''0'', hex_digit (n div 16), hex_digit n]
      else [c])"

definition json_string :: "string \<Rightarrow> string" where
  "json_string s = CHR 0x22 # concat (map json_escape_char s) @ [CHR 0x22]"

text \<open>A code point from \<open>\u\<close> as UTF-8 (surrogate pairs are not combined).\<close>

definition utf8 :: "nat \<Rightarrow> string" where
  "utf8 n =
     (if n < 0x80 then [char_of n]
      else if n < 0x800 then [char_of (0xC0 + n div 64), char_of (0x80 + n mod 64)]
      else [char_of (0xE0 + n div 4096), char_of (0x80 + n div 64 mod 64), char_of (0x80 + n mod 64)])"

definition unescape_char :: "char \<Rightarrow> nat option" where
  "unescape_char c =
     map_of [(CHR 0x22, 34), (CHR 0x5C, 92), (CHR ''/'', 47), (CHR ''b'', 8), (CHR ''f'', 12),
             (CHR ''n'', 10), (CHR ''r'', 13), (CHR ''t'', 9)] c"

text \<open>The rest of a string after its opening quote.\<close>

fun parse_string :: "string \<Rightarrow> (string \<times> string) option" where
  "parse_string [] = None"
| "parse_string (c # s) =
     (if c = CHR 0x22 then Some ([], s)
      else if c = CHR 0x5C then
        (case s of
           e # h1 # h2 # h3 # h4 # r \<Rightarrow>
             if e = CHR ''u'' then
               (case (hex_val h1, hex_val h2, hex_val h3, hex_val h4) of
                  (Some a, Some b, Some c, Some d) \<Rightarrow>
                    map_option (\<lambda>(t, r). (utf8 (((a * 16 + b) * 16 + c) * 16 + d) @ t, r))
                      (parse_string r)
                | _ \<Rightarrow> None)
             else
               (case unescape_char e of
                  Some n \<Rightarrow> map_option (\<lambda>(t, r). (char_of n # t, r)) (parse_string (h1 # h2 # h3 # h4 # r))
                | None \<Rightarrow> None)
         | e # r \<Rightarrow>
             (case unescape_char e of
                Some n \<Rightarrow> map_option (\<lambda>(t, r). (char_of n # t, r)) (parse_string r)
              | None \<Rightarrow> None)
         | [] \<Rightarrow> None)
      else if (of_char c :: nat) < 32 then None
      else map_option (\<lambda>(t, r). (c # t, r)) (parse_string s))"

lemma parse_string_escaped:
  assumes "unescape_char e = Some n" and "e \<noteq> CHR ''u''"
  shows "parse_string (CHR 0x5C # e # s) = map_option (\<lambda>(t, r). (char_of n # t, r)) (parse_string s)"
  using assms by (simp split: list.splits)

lemma parse_string_plain:
  "c \<noteq> CHR 0x22 \<Longrightarrow> c \<noteq> CHR 0x5C \<Longrightarrow> \<not> (of_char c :: nat) < 32 \<Longrightarrow>
     parse_string (c # s) = map_option (\<lambda>(t, r). (c # t, r)) (parse_string s)"
  by simp

lemma parse_string_hex:
  assumes "m < 256"
  shows "parse_string (CHR 0x5C # CHR ''u'' # CHR ''0'' # CHR ''0'' # hex_digit (m div 16) # hex_digit m # s)
    = map_option (\<lambda>(t, r). (utf8 m @ t, r)) (parse_string s)"
proof -
  have "hex_val (CHR ''0'') = Some 0" by (simp add: hex_val_def)
  moreover have "m div 16 mod 16 * 16 + m mod 16 = m" using assms by simp
  ultimately show ?thesis by (simp add: hex_val_digit)
qed

lemma char_eq_iff_code: "c = d \<longleftrightarrow> (of_char c :: nat) = of_char d"
  by (metis char_of_char)

lemma parse_string_escape_char:
  "parse_string (json_escape_char c @ s) = map_option (\<lambda>(t, r). (c # t, r)) (parse_string s)"
proof -
  let ?n = "of_char c :: nat"
  have c: "char_of ?n = c" by simp
  let ?short = "?n = 34 \<or> ?n = 92 \<or> ?n = 8 \<or> ?n = 12 \<or> ?n = 10 \<or> ?n = 13 \<or> ?n = 9"
  let ?hex = "?n < 32 \<or> ?n = 60 \<or> ?n = 62 \<or> ?n = 38"
  show ?thesis
  proof (cases ?short)
    case True
    then have "\<exists>e. json_escape_char c = [CHR 0x5C, e] \<and> unescape_char e = Some ?n \<and> e \<noteq> CHR ''u''"
      by (elim disjE) (simp_all add: json_escape_char_def unescape_char_def)
    then show ?thesis by (auto simp: parse_string_escaped c simp del: parse_string.simps)
  next
    case short: False
    show ?thesis
    proof (cases ?hex)
      case True
      with short have "json_escape_char c = [CHR 0x5C, CHR ''u'', CHR ''0'', CHR ''0'', hex_digit (?n div 16), hex_digit ?n]"
        by (simp only: json_escape_char_def Let_def de_Morgan_disj if_False if_True)
      moreover have "?n < 0x80" using True by auto
      ultimately show ?thesis
        using c by (simp add: parse_string_hex utf8_def del: parse_string.simps)
    next
      case False
      with short have "json_escape_char c = [c]" by (simp add: json_escape_char_def)
      moreover from short have "c \<noteq> CHR 0x22" "c \<noteq> CHR 0x5C" by (auto simp: char_eq_iff_code)
      ultimately show ?thesis
        using False by (simp add: parse_string_plain del: parse_string.simps)
    qed
  qed
qed

lemma parse_json_string: "parse_string (concat (map json_escape_char s) @ CHR 0x22 # r) = Some (s, r)"
proof (induction s)
  case Nil
  show ?case by simp
next
  case (Cons c s)
  then show ?case by (simp add: parse_string_escape_char del: parse_string.simps)
qed


section \<open>Values\<close>

fun separated_by :: "string \<Rightarrow> string list \<Rightarrow> string" where
  "separated_by sep [] = []"
| "separated_by sep [x] = x"
| "separated_by sep (x # y # xs) = x @ sep @ separated_by sep (y # xs)"

fun print_json :: "json \<Rightarrow> string" where
  "print_json JNull = ''null''"
| "print_json (JBool b) = (if b then ''true'' else ''false'')"
| "print_json (JInt i) = int_text i"
| "print_json (JStr s) = json_string s"
| "print_json (JArr js) = ''['' @ separated_by '','' (map print_json js) @ '']''"
| "print_json (JObj kvs) =
     ''{'' @ separated_by '','' (map (\<lambda>kv. json_string (fst kv) @ '':'' @ print_json (snd kv)) kvs) @ ''}''"

fun skip_ws :: "string \<Rightarrow> string" where
  "skip_ws [] = []"
| "skip_ws (c # s) = (if c = CHR '' '' \<or> c = CHR 0x0A \<or> c = CHR 0x0D \<or> c = CHR 0x09 then skip_ws s else c # s)"

text \<open>\<open>expect c s\<close>: the text after the character \<open>c\<close> and white space before it.\<close>

definition expect :: "char \<Rightarrow> string \<Rightarrow> string option" where
  "expect c s = (case skip_ws s of [] \<Rightarrow> None | x # r \<Rightarrow> if x = c then Some r else None)"

definition strip_word :: "string \<Rightarrow> string \<Rightarrow> string option" where
  "strip_word w s = (if take (length w) s = w then Some (drop (length w) s) else None)"

text \<open>Literals, numbers and strings.\<close>

definition parse_atom :: "string \<Rightarrow> (json \<times> string) option" where
  "parse_atom s =
     (case strip_word ''null'' s of Some r \<Rightarrow> Some (JNull, r) | None \<Rightarrow>
      case strip_word ''true'' s of Some r \<Rightarrow> Some (JBool True, r) | None \<Rightarrow>
      case strip_word ''false'' s of Some r \<Rightarrow> Some (JBool False, r) | None \<Rightarrow>
      case expect (CHR 0x22) s of Some r \<Rightarrow> map_option (\<lambda>(t, r). (JStr t, r)) (parse_string r) | None \<Rightarrow>
      map_option (\<lambda>(i, r). (JInt i, r)) (parse_int s))"

text \<open>
  A bracket pays for the two calls of a level, an element or member for its own call, so
  the length of the text is fuel enough (\<open>parse_print_json\<close>).
\<close>

fun parse_value :: "nat \<Rightarrow> string \<Rightarrow> (json \<times> string) option"
  and parse_elements :: "nat \<Rightarrow> string \<Rightarrow> (json list \<times> string) option"
  and parse_members :: "nat \<Rightarrow> string \<Rightarrow> ((string \<times> json) list \<times> string) option" where
  "parse_value 0 s = None"
| "parse_value (Suc n) s =
     (case expect (CHR ''['') s of
        Some r \<Rightarrow>
          (case expect (CHR '']'') r of
             Some r' \<Rightarrow> Some (JArr [], r')
           | None \<Rightarrow> map_option (\<lambda>(js, r). (JArr js, r)) (parse_elements n r))
      | None \<Rightarrow>
     (case expect (CHR ''{'') s of
        Some r \<Rightarrow>
          (case expect (CHR ''}'') r of
             Some r' \<Rightarrow> Some (JObj [], r')
           | None \<Rightarrow> map_option (\<lambda>(kvs, r). (JObj kvs, r)) (parse_members n r))
      | None \<Rightarrow> parse_atom (skip_ws s)))"
| "parse_elements 0 s = None"
| "parse_elements (Suc n) s =
     (case parse_value n s of
        None \<Rightarrow> None
      | Some (j, r) \<Rightarrow>
          (case expect (CHR '','') r of
             Some r' \<Rightarrow> map_option (\<lambda>(js, r). (j # js, r)) (parse_elements n r')
           | None \<Rightarrow> map_option (\<lambda>r. ([j], r)) (expect (CHR '']'') r)))"
| "parse_members 0 s = None"
| "parse_members (Suc n) s =
     (case Option.bind (expect (CHR 0x22) s) parse_string of
        None \<Rightarrow> None
      | Some (k, r) \<Rightarrow>
          (case Option.bind (expect (CHR '':'') r) (parse_value n) of
             None \<Rightarrow> None
           | Some (j, r') \<Rightarrow>
               (case expect (CHR '','') r' of
                  Some r'' \<Rightarrow> map_option (\<lambda>(kvs, r). ((k, j) # kvs, r)) (parse_members n r'')
                | None \<Rightarrow> map_option (\<lambda>r. ([(k, j)], r)) (expect (CHR ''}'') r'))))"

text \<open>\<open>json.Unmarshal\<close> of the whole text: nothing but white space may follow the value.\<close>

definition parse_json :: "string \<Rightarrow> json option" where
  "parse_json s =
     (case parse_value (Suc (length s)) s of
        Some (j, r) \<Rightarrow> if skip_ws r = [] then Some j else None
      | None \<Rightarrow> None)"


subsection \<open>Parsing what was printed\<close>

text \<open>The first character of a printed value says which kind of value it is.\<close>

definition value_start :: "char \<Rightarrow> bool" where
  "value_start c \<longleftrightarrow> c \<notin> {CHR '' '', CHR 0x0A, CHR 0x0D, CHR 0x09, CHR '']'', CHR ''}'', CHR '','', CHR '':''}"

lemma digit_value_start: "digit_val c = Some d \<Longrightarrow> value_start c \<and> c \<notin> {CHR ''['', CHR ''{'', CHR 0x22, CHR ''n'', CHR ''t'', CHR ''f''}"
  by (auto simp: value_start_def digit_val_def)

lemma int_text_hd:
  "\<exists>c r. int_text i = c # r \<and> value_start c \<and> c \<notin> {CHR ''['', CHR ''{'', CHR 0x22, CHR ''n'', CHR ''t'', CHR ''f''}"
proof (cases "i < 0")
  case True
  then show ?thesis by (simp add: int_text_def value_start_def)
next
  case False
  obtain d where "digit_val (hd (nat_digits (nat i))) = Some d" using nat_digits_hd by blast
  from digit_value_start [OF this] False show ?thesis
    by (cases "nat_digits (nat i)") (auto simp: int_text_def)
qed

lemma print_json_hd: "\<exists>c r. print_json j = c # r \<and> value_start c"
proof (cases j)
  case (JInt i)
  then show ?thesis using int_text_hd [of i] by (metis print_json.simps(3))
qed (simp_all add: value_start_def json_string_def)

lemma skip_ws_start: "value_start c \<Longrightarrow> skip_ws (c # s) = c # s"
  by (auto simp: value_start_def)

lemma expect_start: "value_start x \<Longrightarrow> expect c (x # s) = (if x = c then Some s else None)"
  by (simp add: expect_def skip_ws_start del: skip_ws.simps)

lemma expect_simps [simp]:
  "expect (CHR '','') (CHR '','' # s) = Some s" "expect (CHR '']'') (CHR '']'' # s) = Some s"
  "expect (CHR ''}'') (CHR ''}'' # s) = Some s" "expect (CHR '':'') (CHR '':'' # s) = Some s"
  "expect (CHR ''['') (CHR ''['' # s) = Some s" "expect (CHR ''{'') (CHR ''{'' # s) = Some s"
  "expect (CHR 0x22) (CHR 0x22 # s) = Some s"
  "expect (CHR '','') (CHR '']'' # s) = None" "expect (CHR '','') (CHR ''}'' # s) = None"
  "expect (CHR ''['') (CHR ''{'' # s) = None"
  by (simp_all add: expect_def)

lemma not_digit_simps [simp]:
  "\<not> starts_digit (CHR '','' # s)" "\<not> starts_digit (CHR '']'' # s)" "\<not> starts_digit (CHR ''}'' # s)"
  "\<not> starts_digit []"
  by (simp_all add: starts_digit_def digit_val_def)

lemma strip_word_other: "c \<noteq> d \<Longrightarrow> strip_word (d # w) (c # s) = None"
  by (simp add: strip_word_def)

lemma parse_atom_int: "\<not> starts_digit s \<Longrightarrow> parse_atom (int_text i @ s) = Some (JInt i, s)"
proof -
  assume s: "\<not> starts_digit s"
  from int_text_hd [of i] obtain c r where c: "int_text i = c # r" "value_start c"
    "c \<notin> {CHR ''['', CHR ''{'', CHR 0x22, CHR ''n'', CHR ''t'', CHR ''f''}"
    by (elim exE conjE)
  have "parse_int (c # r @ s) = Some (i, s)" using parse_int_text [OF s, of i] c(1) by simp
  moreover have "expect (CHR 0x22) (c # r @ s) = None" using c by (simp add: expect_start)
  moreover have "strip_word ''null'' (c # r @ s) = None" "strip_word ''true'' (c # r @ s) = None"
    "strip_word ''false'' (c # r @ s) = None"
    using c(3) by (simp_all only: strip_word_other insert_iff de_Morgan_disj not_False_eq_True)
  ultimately show ?thesis
    by (simp only: parse_atom_def c(1) append_Cons option.case map_option_case prod.case)
qed

lemma parse_value_atom:
  assumes "value_start c" and "c \<noteq> CHR ''[''" and "c \<noteq> CHR ''{''"
  shows "parse_value (Suc n) (c # s) = parse_atom (c # s)"
  using assms by (simp add: expect_start skip_ws_start del: skip_ws.simps)

lemma parse_string_printed:
  "Option.bind (expect (CHR 0x22) (json_string k @ s)) parse_string = Some (k, s)"
  by (simp add: json_string_def parse_json_string)

lemma length_separated_by: "x \<in> set xs \<Longrightarrow> length x \<le> length (separated_by sep xs)"
  by (induction sep xs rule: separated_by.induct) auto

declare parse_value.simps(2) [simp del] parse_elements.simps(2) [simp del]
  parse_members.simps(2) [simp del]

lemma parse_elements_printed:
  assumes "\<And>j n s. j \<in> set js \<Longrightarrow> length (print_json j) < n \<Longrightarrow> \<not> starts_digit s \<Longrightarrow>
      parse_value n (print_json j @ s) = Some (j, s)"
    and "js \<noteq> []" and "Suc (length (separated_by '','' (map print_json js))) < n"
  shows "parse_elements n (separated_by '','' (map print_json js) @ CHR '']'' # s) = Some (js, s)"
  using assms
proof (induction js arbitrary: n rule: induct_list012)
  case (2 j)
  then obtain m where "n = Suc m" by (cases n) auto
  with 2 show ?case by (simp add: parse_elements.simps(2))
next
  case (3 j j' js)
  then obtain m where n: "n = Suc m" by (cases n) auto
  have "parse_elements m (separated_by '','' (map print_json (j' # js)) @ CHR '']'' # s) = Some (j' # js, s)"
    by (rule "3.IH"(2)) (use "3.prems" n in auto)
  moreover have "parse_value m (print_json j @ CHR '','' # t) = Some (j, CHR '','' # t)" for t
    using "3.prems" n by simp
  ultimately show ?case by (simp add: n parse_elements.simps(2))
qed simp

lemma parse_members_printed:
  assumes "\<And>kv n s. kv \<in> set kvs \<Longrightarrow> length (print_json (snd kv)) < n \<Longrightarrow> \<not> starts_digit s \<Longrightarrow>
      parse_value n (print_json (snd kv) @ s) = Some (snd kv, s)"
    and "kvs \<noteq> []"
    and "Suc (length (separated_by '','' (map (\<lambda>kv. json_string (fst kv) @ '':'' @ print_json (snd kv)) kvs))) < n"
  shows "parse_members n (separated_by '','' (map (\<lambda>kv. json_string (fst kv) @ '':'' @ print_json (snd kv)) kvs)
      @ CHR ''}'' # s) = Some (kvs, s)"
  using assms
proof (induction kvs arbitrary: n rule: induct_list012)
  case (2 kv)
  then obtain m where "n = Suc m" by (cases n) auto
  with 2 show ?case by (simp add: parse_members.simps(2) parse_string_printed)
next
  case (3 kv kv' kvs)
  then obtain m where n: "n = Suc m" by (cases n) auto
  let ?m = "\<lambda>kv. json_string (fst kv) @ '':'' @ print_json (snd kv)"
  have "parse_members m (separated_by '','' (map ?m (kv' # kvs)) @ CHR ''}'' # s) = Some (kv' # kvs, s)"
    by (rule "3.IH"(2)) (use "3.prems" n in auto)
  moreover have "parse_value m (print_json (snd kv) @ CHR '','' # t) = Some (snd kv, CHR '','' # t)" for t
    using "3.prems" n by simp
  ultimately show ?case by (simp add: n parse_members.simps(2) parse_string_printed)
qed simp

lemma parse_value_printed:
  "length (print_json j) < n \<Longrightarrow> \<not> starts_digit s \<Longrightarrow> parse_value n (print_json j @ s) = Some (j, s)"
proof (induction j arbitrary: n s)
  case JNull
  then obtain m where "n = Suc m" by (cases n) auto
  then show ?case by (simp add: parse_value_atom value_start_def parse_atom_def strip_word_def)
next
  case (JBool b)
  then obtain m where "n = Suc m" by (cases n) auto
  then show ?case by (simp add: parse_value_atom value_start_def parse_atom_def strip_word_def)
next
  case (JInt i)
  then obtain m where m: "n = Suc m" by (cases n) auto
  from int_text_hd [of i] obtain c r where "int_text i = c # r" "value_start c"
    "c \<notin> {CHR ''['', CHR ''{'', CHR 0x22, CHR ''n'', CHR ''t'', CHR ''f''}"
    by (elim exE conjE)
  with JInt m parse_atom_int [of s i] show ?case by (simp add: parse_value_atom)
next
  case (JStr t)
  then obtain m where "n = Suc m" by (cases n) auto
  then show ?case
    by (simp add: json_string_def parse_value_atom value_start_def parse_atom_def strip_word_def
        parse_json_string)
next
  case (JArr js)
  then obtain m where m: "n = Suc m" by (cases n) auto
  show ?case
  proof (cases js)
    case Nil
    then show ?thesis by (simp add: m parse_value.simps(2))
  next
    case (Cons j js')
    then have "parse_elements m (separated_by '','' (map print_json js) @ CHR '']'' # s) = Some (js, s)"
      using JArr m by (intro parse_elements_printed) auto
    moreover obtain c r where "separated_by '','' (map print_json js) = c # r" "value_start c"
      using print_json_hd [of j] Cons by (cases js') auto
    ultimately show ?thesis
      by (simp add: m parse_value.simps(2) expect_start, simp add: value_start_def)
  qed
next
  case (JObj kvs)
  then obtain m where m: "n = Suc m" by (cases n) auto
  let ?m = "\<lambda>kv. json_string (fst kv) @ '':'' @ print_json (snd kv)"
  show ?case
  proof (cases kvs)
    case Nil
    then show ?thesis by (simp add: m parse_value.simps(2))
  next
    case (Cons kv kvs')
    then have "parse_members m (separated_by '','' (map ?m kvs) @ CHR ''}'' # s) = Some (kvs, s)"
      using JObj m by (intro parse_members_printed) (auto simp: snds.simps)
    moreover obtain r where "separated_by '','' (map ?m kvs) = CHR 0x22 # r"
      using Cons by (cases kvs') (auto simp: json_string_def)
    ultimately show ?thesis
      by (simp add: m parse_value.simps(2) expect_start value_start_def)
  qed
qed

theorem parse_print_json [simp]: "parse_json (print_json j) = Some j"
  using parse_value_printed [of j "Suc (length (print_json j))" "[]"] by (simp add: parse_json_def)

end
