(* ===== verification/Key.thy ===== *)
theory Key
  imports Json
begin

text \<open>
  \<open>dht/key.go\<close>: the 160-bit keys (also the node ids), their hexadecimal JSON form and the
  XOR distance.
\<close>

unbundle bit_operations_syntax

section \<open>The array type [20]byte\<close>

typedef dht_key = "{bs :: bytes. length bs = 20}"
  morphisms key_bytes Abs_key
  by (rule exI [of _ "replicate 20 0"]) simp

setup_lifting type_definition_dht_key

text \<open>\<open>var k DHTKey; copy(k[:], bs)\<close>.\<close>

lift_definition key_of_slice :: "bytes \<Rightarrow> dht_key" is "copy_into 20"
  by simp

lemma length_key_bytes [simp]: "length (key_bytes k) = 20"
  using key_bytes [of k] by simp

lemma key_bytes_of_slice [simp]: "key_bytes (key_of_slice bs) = copy_into 20 bs"
  by (rule key_of_slice.rep_eq)

lemma key_of_slice_key_bytes [simp]: "key_of_slice (key_bytes k) = k"
  by (metis copy_into_same key_bytes_inject key_bytes_of_slice length_key_bytes)

lemma key_of_slice_eq_iff: "key_of_slice a = key_of_slice b \<longleftrightarrow> copy_into 20 a = copy_into 20 b"
  by (metis key_bytes_inject key_bytes_of_slice)

lemma key_eq_iff: "a = b \<longleftrightarrow> key_bytes a = key_bytes b"
  by (simp add: key_bytes_inject)

text \<open>There are finitely many keys: what bounds the lookup loop.\<close>

instantiation dht_key :: finite
begin

instance
proof
  have "range key_bytes \<subseteq> {bs. set bs \<subseteq> UNIV \<and> length bs = 20}" by auto
  then have "finite (range key_bytes)"
    by (rule finite_subset) (rule finite_lists_length_eq, simp)
  then show "finite (UNIV :: dht_key set)"
    by (rule finite_imageD) (simp add: inj_on_def key_bytes_inject)
qed

end

instantiation dht_key :: equal
begin

definition equal_dht_key :: "dht_key \<Rightarrow> dht_key \<Rightarrow> bool" where
  "equal_dht_key a b \<longleftrightarrow> key_bytes a = key_bytes b"

instance
  by standard (simp add: equal_dht_key_def key_bytes_inject)

end

section \<open>math/big: SetBytes, Xor, BitLen\<close>

text \<open>\<open>SetBytes\<close> reads the slice as a big-endian number.\<close>

definition set_bytes :: "bytes \<Rightarrow> nat" where
  "set_bytes bs = foldl (\<lambda>acc b. acc * 256 + unat b) 0 bs"

fun bit_len :: "nat \<Rightarrow> nat" where
  "bit_len n = (if n = 0 then 0 else Suc (bit_len (n div 2)))"

declare bit_len.simps [simp del]

definition GetKeyDistance :: "dht_key \<Rightarrow> dht_key \<Rightarrow> nat" where
  "GetKeyDistance a b = set_bytes (key_bytes a) XOR set_bytes (key_bytes b)"

text \<open>Keys are ordered as the numbers \<open>SetBytes\<close> makes of them.\<close>

lemma set_bytes_snoc: "set_bytes (bs @ [b]) = set_bytes bs * 256 + unat b"
  by (simp add: set_bytes_def)

lemma set_bytes_Nil [simp]: "set_bytes [] = 0"
  by (simp add: set_bytes_def)

lemma set_bytes_less: "set_bytes bs < 256 ^ length bs"
proof (induction bs rule: rev_induct)
  case Nil
  then show ?case by simp
next
  case (snoc b bs)
  have "set_bytes bs * 256 + unat b < (set_bytes bs + 1) * 256"
    using unat_byte_less [of b] by simp
  also have "\<dots> \<le> 256 ^ length bs * 256"
    using snoc by (intro mult_le_mono1) simp
  finally show ?case by (simp add: set_bytes_snoc mult.commute)
qed

lemma set_bytes_Cons: "set_bytes (b # bs) = unat b * 256 ^ length bs + set_bytes bs"
  by (induction bs rule: rev_induct)
    (simp_all add: set_bytes_def algebra_simps)

lemma base_256_inject:
  "x * 256 + unat (a :: byte) = y * 256 + unat b \<longleftrightarrow> x = y \<and> a = b"
proof
  assume eq: "x * 256 + unat a = y * 256 + unat b"
  have "unat a = (x * 256 + unat a) mod 256" "unat b = (y * 256 + unat b) mod 256"
    by (simp_all add: unat_byte_less)
  with eq have "unat a = unat b" by simp
  with eq show "x = y \<and> a = b" by (simp add: word_unat_eq_iff)
qed simp

lemma set_bytes_inject: "length as = length bs \<Longrightarrow> set_bytes as = set_bytes bs \<longleftrightarrow> as = bs"
proof (induction as bs rule: rev_induct2)
  case (4 a as b bs)
  then show ?case by (simp add: set_bytes_snoc base_256_inject)
qed auto

lemma set_bytes_key_less: "set_bytes (key_bytes k) < 2 ^ 160"
  using set_bytes_less [of "key_bytes k"] by (simp add: power_mult [of 2 8 20, simplified])


lemma bit_len_0 [simp]: "bit_len 0 = 0"
  by (simp add: bit_len.simps)

lemma bit_len_le_iff: "bit_len n \<le> k \<longleftrightarrow> n < 2 ^ k"
proof (induction n arbitrary: k rule: bit_len.induct)
  case (1 n)
  show ?case
  proof (cases "n = 0")
    case True
    then show ?thesis by simp
  next
    case False
    show ?thesis
    proof (cases k)
      case 0
      with False show ?thesis by (subst bit_len.simps) simp
    next
      case (Suc j)
      have "bit_len n \<le> k \<longleftrightarrow> bit_len (n div 2) \<le> j"
        using False Suc by (subst bit_len.simps) simp
      also have "\<dots> \<longleftrightarrow> n div 2 < 2 ^ j" using "1" False by simp
      also have "\<dots> \<longleftrightarrow> n < 2 ^ k" using Suc by auto
      finally show ?thesis .
    qed
  qed
qed

lemma bit_len_eq_0_iff [simp]: "bit_len n = 0 \<longleftrightarrow> n = 0"
  using bit_len_le_iff [of n 0] by simp

lemma bit_len_bounds: "n \<noteq> 0 \<Longrightarrow> 2 ^ (bit_len n - 1) \<le> n \<and> n < 2 ^ bit_len n"
  using bit_len_le_iff [of n "bit_len n - 1"] bit_len_le_iff [of n "bit_len n"]
  by (cases "bit_len n") auto

section \<open>The XOR metric\<close>

lemma xor_cancel_nat [simp]: "(m XOR n) XOR n = (m :: nat)" "n XOR (n XOR m) = (m :: nat)"
  by (simp_all add: xor.assoc) (simp add: xor.assoc [symmetric])

lemma xor_nat_le_add: "(m XOR n :: nat) \<le> m + n"
proof (induction m arbitrary: n rule: less_induct)
  case (less m)
  show ?case
  proof (cases "m = 0 \<or> n = 0")
    case True
    then show ?thesis by auto
  next
    case False
    then have IH: "m div 2 XOR n div 2 \<le> m div 2 + n div 2"
      by (intro less) simp
    have "m XOR n = (m mod 2 + n mod 2) mod 2 + 2 * (m div 2 XOR n div 2)"
      using False by (subst xor_nat_unfold) simp
    also have "\<dots> \<le> (m mod 2 + n mod 2) + 2 * (m div 2 + n div 2)"
      using IH by (intro add_mono mult_le_mono2) simp_all
    also have "\<dots> = m + n" by (simp add: algebra_simps)
    finally show ?thesis .
  qed
qed

lemma GetKeyDistance_less: "GetKeyDistance a b < 2 ^ 160"
  unfolding GetKeyDistance_def
  using set_bytes_key_less [of a] set_bytes_key_less [of b]
  by (metis (no_types) take_bit_nat_eq_self take_bit_nat_less_exp take_bit_xor)

lemma GetKeyDistance_sym: "GetKeyDistance a b = GetKeyDistance b a"
  by (simp add: GetKeyDistance_def xor.commute)

lemma GetKeyDistance_eq_0_iff [simp]: "GetKeyDistance a b = 0 \<longleftrightarrow> a = b"
proof
  assume "GetKeyDistance a b = 0"
  then have "set_bytes (key_bytes a) = set_bytes (key_bytes b)"
    unfolding GetKeyDistance_def by (metis xor_cancel_nat(1) xor.left_neutral)
  then show "a = b" by (simp add: set_bytes_inject key_eq_iff)
qed (simp add: GetKeyDistance_def)

lemma GetKeyDistance_self [simp]: "GetKeyDistance a a = 0"
  by simp

lemma GetKeyDistance_triangle:
  "GetKeyDistance a c \<le> GetKeyDistance a b + GetKeyDistance b c"
proof -
  let ?a = "set_bytes (key_bytes a)" and ?b = "set_bytes (key_bytes b)"
    and ?c = "set_bytes (key_bytes c)"
  have "?a XOR ?c = (?a XOR ?b) XOR (?b XOR ?c)"
    by (simp add: xor.assoc)
  then show ?thesis unfolding GetKeyDistance_def by (metis xor_nat_le_add)
qed

text \<open>For each distance there is one key at that distance: no two keys tie.\<close>

lemma GetKeyDistance_inject [simp]: "GetKeyDistance a t = GetKeyDistance b t \<longleftrightarrow> a = b"
proof
  assume "GetKeyDistance a t = GetKeyDistance b t"
  then have "(set_bytes (key_bytes a) XOR set_bytes (key_bytes t)) XOR set_bytes (key_bytes t)
      = (set_bytes (key_bytes b) XOR set_bytes (key_bytes t)) XOR set_bytes (key_bytes t)"
    by (simp add: GetKeyDistance_def)
  then have "set_bytes (key_bytes a) = set_bytes (key_bytes b)"
    by simp
  then show "a = b" by (simp add: set_bytes_inject key_eq_iff)
qed simp

section \<open>encoding/hex\<close>

text \<open>\<open>hex_digit\<close> and \<open>hex_val\<close> (which takes both cases, as \<open>reverseHexTable\<close>) are those of \<open>Json\<close>.\<close>

definition hex_byte :: "byte \<Rightarrow> string" where
  "hex_byte b = [hex_digit (unat b div 16), hex_digit (unat b mod 16)]"

text \<open>\<open>hex.EncodeToString(b)\<close>, also what \<open>fmt.Sprintf("%x", b)\<close> prints.\<close>

definition hex_encode :: "bytes \<Rightarrow> string" where
  "hex_encode bs = concat (map hex_byte bs)"

definition hex_invalid :: go_error where
  "hex_invalid = ErrText ''encoding/hex: invalid byte''"

definition hex_odd :: go_error where
  "hex_odd = ErrText ''encoding/hex: odd length hex string''"

text \<open>\<open>hex.DecodeString(s)\<close>: the bytes decoded so far come back with the error.\<close>

fun hex_decode :: "string \<Rightarrow> bytes \<times> go_error option" where
  "hex_decode [] = ([], None)"
| "hex_decode [p] = ([], Some (if hex_val p = None then hex_invalid else hex_odd))"
| "hex_decode (p # q # rest) =
     (case (hex_val p, hex_val q) of
        (Some a, Some b) \<Rightarrow>
          (let (bs, err) = hex_decode rest in (of_nat (a * 16 + b) # bs, err))
      | _ \<Rightarrow> ([], Some hex_invalid))"

lemma hex_encode_simps [simp]:
  "hex_encode [] = []"
  "hex_encode (b # bs) =
     hex_digit (unat b div 16) # hex_digit (unat b mod 16) # hex_encode bs"
  by (simp_all add: hex_encode_def hex_byte_def)

lemma length_hex_encode [simp]: "length (hex_encode bs) = 2 * length bs"
  by (induction bs) auto

lemma hex_decode_encode [simp]: "hex_decode (hex_encode bs) = (bs, None)"
proof (induction bs)
  case Nil
  show ?case by simp
next
  case (Cons b bs)
  have "unat b div 16 < 16" using unat_byte_less [of b] by simp
  then show ?case
    using Cons by (simp add: hex_val_digit mult.commute)
qed

lemma hex_encode_inject [simp]: "hex_encode as = hex_encode bs \<longleftrightarrow> as = bs"
  by (metis hex_decode_encode prod.inject)

lemma hex_decode_length:
  "hex_decode s = (bs, err) \<Longrightarrow> (err = None \<longrightarrow> length s = 2 * length bs)"
proof (induction s arbitrary: bs err rule: hex_decode.induct)
  case (3 p q rest)
  then show ?case by (auto split: option.splits prod.splits)
qed auto

text \<open>A lower-case digit: the characters \<open>hex_encode\<close> writes.\<close>

definition is_hex_char :: "char \<Rightarrow> bool" where
  "is_hex_char c \<longleftrightarrow> c \<in> set hex_digits"

lemma set_hex_encode: "c \<in> set (hex_encode bs) \<Longrightarrow> is_hex_char c"
proof (induction bs)
  case (Cons b bs)
  have "hex_digit n \<in> set hex_digits" for n
    unfolding hex_digit_def by (rule nth_mem) (simp add: hex_digits_def)
  with Cons show ?case by (auto simp: is_hex_char_def)
qed simp

section \<open>The JSON form of a key\<close>

text \<open>\<open>DHTKey.MarshalJSON\<close>: a JSON string of 40 hexadecimal digits.\<close>

definition MarshalJSON :: "dht_key \<Rightarrow> json" where
  "MarshalJSON k = JStr (hex_encode (key_bytes k))"

text \<open>
  \<open>DHTKey.UnmarshalJSON\<close>: \<open>json.Unmarshal\<close> into a Go string leaves it empty for
  \<open>null\<close> and fails on any other value that is not a string.
\<close>

definition unmarshal_string :: "json \<Rightarrow> go_error + string" where
  "unmarshal_string j =
     (case j of JStr s \<Rightarrow> Inr s
      | JNull \<Rightarrow> Inr []
      | _ \<Rightarrow> Inl (ErrText ''json: cannot unmarshal into Go value of type string''))"

definition UnmarshalJSON :: "json \<Rightarrow> go_error + dht_key" where
  "UnmarshalJSON j =
     (case unmarshal_string j of
        Inl e \<Rightarrow> Inl e
      | Inr s \<Rightarrow>
          (case hex_decode s of
             (b, Some e) \<Rightarrow> Inl e
           | (b, None) \<Rightarrow>
               if length b \<noteq> 20 then Inl (ErrText ''dhtkey: invalid length'')
               else Inr (key_of_slice b)))"

end
