(* ===== verification/Network_Node.thy ===== *)
theory Network_Node
  imports Key
begin

text \<open>
  \<open>NetworkNode\<close> of \<open>dht/node.go\<close>, the contact a routing table holds, and the key
  constructors of \<open>dht/key.go\<close>. Random bytes, the IP parser and SHA-1 belong to the Go
  library and are arguments.
\<close>

text \<open>
  \<open>net.IP\<close> is a byte slice that may be nil, \<open>Meta\<close> a map that may be nil. A node is held by
  pointer in the code; it is a value here, as no operation of the routing table or of a
  lookup writes through the pointer.
\<close>

record network_node =
  nn_id :: dht_key
  nn_address :: "bytes option"
  nn_port :: int
  nn_meta :: "(string \<rightharpoonup> string) option"

definition GenerateKey :: "bytes \<Rightarrow> dht_key" where
  "GenerateKey rnd = key_of_slice rnd"

definition KeyFromBytes :: "(bytes \<Rightarrow> bytes) \<Rightarrow> bytes \<Rightarrow> dht_key" where
  "KeyFromBytes sha1 b = key_of_slice (sha1 b)"

definition KeyFromString :: "(bytes \<Rightarrow> bytes) \<Rightarrow> string \<Rightarrow> dht_key" where
  "KeyFromString sha1 s = key_of_slice (sha1 (bytes_of_string s))"

definition NewNetworkNode ::
  "bytes \<Rightarrow> (string \<Rightarrow> bytes option) \<Rightarrow> string \<Rightarrow> int \<Rightarrow> network_node" where
  "NewNetworkNode rnd parseIP address port =
     \<lparr>nn_id = GenerateKey rnd, nn_address = parseIP address, nn_port = port, nn_meta = None\<rparr>"

text \<open>Reading a map that may be nil: a missing key gives the empty string.\<close>

definition meta_get :: "network_node \<Rightarrow> string \<Rightarrow> string" where
  "meta_get n k =
     (case nn_meta n of None \<Rightarrow> [] | Some m \<Rightarrow> (case m k of None \<Rightarrow> [] | Some v \<Rightarrow> v))"

abbreviation ids :: "network_node list \<Rightarrow> dht_key list" where
  "ids ns \<equiv> map nn_id ns"

end
