(* ===== verification/Routing_Table.thy ===== *)
theory Routing_Table
  imports Network_Node
begin

text \<open>
  \<open>dht/routing_table.go\<close>: 160 buckets of at most \<open>K\<close> contacts, least recently seen first.
  \<open>Add\<close> is two critical sections with a network ping between them: \<open>add_begin\<close> and
  \<open>add_finish\<close> are the two sections, \<open>Add\<close> their sequential composition, and \<open>radd_step\<close>
  the interleaving of any number of concurrent calls.
\<close>

definition K :: nat where
  "K = 20"

text \<open>
  The ping callback acts on the state \<open>'w\<close> of the rest of the world, which it may change;
  it is nil until \<open>SetPing\<close>. The mutex is the atomicity of the two sections.
\<close>

record 'w routing_table =
  nodeId :: dht_key
  buckets :: "network_node list list"
  ping :: "(network_node \<Rightarrow> 'w \<Rightarrow> bool \<times> 'w) option"

definition NewRoutingTable :: "dht_key \<Rightarrow> 'w routing_table" where
  "NewRoutingTable nid = \<lparr>nodeId = nid, buckets = replicate 160 [], ping = None\<rparr>"

definition SetPing ::
  "'w routing_table \<Rightarrow> (network_node \<Rightarrow> 'w \<Rightarrow> bool \<times> 'w) \<Rightarrow> 'w routing_table" where
  "SetPing rt fn = rt\<lparr>ping := Some fn\<rparr>"

definition bucketIndex :: "'w routing_table \<Rightarrow> dht_key \<Rightarrow> nat" where
  "bucketIndex rt target =
     (let dist = GetKeyDistance (nodeId rt) target in
      if bit_len dist = 0 then 0 else bit_len dist - 1)"

section \<open>Add\<close>

text \<open>
  The first critical section: it returns with the table updated, or releases the lock
  with the bucket full and its least recently seen contact to be pinged.
\<close>

datatype 'w add_outcome = AddDone "'w routing_table" | AddPing nat network_node

definition set_bucket :: "'w routing_table \<Rightarrow> nat \<Rightarrow> network_node list \<Rightarrow> 'w routing_table" where
  "set_bucket rt idx b = rt\<lparr>buckets := (buckets rt)[idx := b]\<rparr>"

definition add_begin :: "'w routing_table \<Rightarrow> network_node \<Rightarrow> 'w add_outcome" where
  "add_begin rt node =
     (if nodeId rt = nn_id node then AddDone rt
      else
        let idx = bucketIndex rt (nn_id node); bucket = buckets rt ! idx in
        case find_index (\<lambda>n. nn_id n = nn_id node) bucket of
          Some i \<Rightarrow> AddDone (set_bucket rt idx (remove_nth i bucket @ [node]))
        | None \<Rightarrow>
            if length bucket < K then AddDone (set_bucket rt idx (bucket @ [node]))
            else AddPing idx (bucket ! 0))"

text \<open>
  The second critical section, the same loop in both branches of the code: \<open>repl\<close> is
  \<open>lrs\<close> itself when the ping was answered and the new contact when it was not.
\<close>

definition add_finish ::
  "'w routing_table \<Rightarrow> nat \<Rightarrow> network_node \<Rightarrow> network_node \<Rightarrow> 'w routing_table" where
  "add_finish rt idx lrs repl =
     (let b = buckets rt ! idx in
      case find_index (\<lambda>n. nn_id n = nn_id lrs) b of
        Some i \<Rightarrow> set_bucket rt idx (remove_nth i b @ [repl])
      | None \<Rightarrow> rt)"

definition Add :: "'w routing_table \<Rightarrow> network_node \<Rightarrow> 'w \<Rightarrow> 'w routing_table \<times> 'w" where
  "Add rt node w =
     (case add_begin rt node of
        AddDone rt' \<Rightarrow> (rt', w)
      | AddPing idx lrs \<Rightarrow>
          (case ping rt of
             None \<Rightarrow> (add_finish rt idx lrs node, w)
           | Some fn \<Rightarrow>
               let (alive, w') = fn lrs w in
               (add_finish rt idx lrs (if alive then lrs else node), w')))"

section \<open>FindClosest\<close>

definition contacts :: "'w routing_table \<Rightarrow> network_node list" where
  "contacts rt = concat (buckets rt)"

definition FindClosest :: "'w routing_table \<Rightarrow> dht_key \<Rightarrow> nat \<Rightarrow> network_node list" where
  "FindClosest rt target cnt =
     take cnt (sort_slice (\<lambda>n. GetKeyDistance (nn_id n) target) (contacts rt))"

section \<open>The invariant\<close>

text \<open>
  Bucket \<open>i\<close> of the table of \<open>self\<close> holds at most \<open>K\<close> contacts, none of them \<open>self\<close>, each at
  a distance with its highest bit at position \<open>i\<close> (\<open>bucket_placed\<close>), and no two with one id.
\<close>

definition dist_index :: "dht_key \<Rightarrow> dht_key \<Rightarrow> nat" where
  "dist_index self k = bit_len (GetKeyDistance self k) - 1"

definition bucket_placed :: "dht_key \<Rightarrow> nat \<Rightarrow> network_node list \<Rightarrow> bool" where
  "bucket_placed self i b \<longleftrightarrow>
     length b \<le> K \<and> (\<forall>n \<in> set b. nn_id n \<noteq> self \<and> dist_index self (nn_id n) = i)"

definition placed_rt :: "'w routing_table \<Rightarrow> bool" where
  "placed_rt rt \<longleftrightarrow>
     length (buckets rt) = 160 \<and> (\<forall>i < 160. bucket_placed (nodeId rt) i (buckets rt ! i))"

definition wf_rt :: "'w routing_table \<Rightarrow> bool" where
  "wf_rt rt \<longleftrightarrow> placed_rt rt \<and> (\<forall>b \<in> set (buckets rt). distinct (ids b))"

lemma bucketIndex_eq: "bucketIndex rt k = dist_index (nodeId rt) k"
  by (simp add: bucketIndex_def dist_index_def Let_def)

lemma dist_index_less: "dist_index self k < 160"
  using bit_len_le_iff [of "GetKeyDistance self k" 160] GetKeyDistance_less [of self k]
  by (simp add: dist_index_def)

lemma dist_index_bounds:
  "k \<noteq> self \<Longrightarrow> 2 ^ dist_index self k \<le> GetKeyDistance self k
     \<and> GetKeyDistance self k < 2 ^ Suc (dist_index self k)"
  using bit_len_bounds [of "GetKeyDistance self k"]
  by (cases "bit_len (GetKeyDistance self k)") (auto simp: dist_index_def)

lemma set_bucket_simps [simp]:
  "nodeId (set_bucket rt i b) = nodeId rt"
  "ping (set_bucket rt i b) = ping rt"
  "buckets (set_bucket rt i b) = (buckets rt)[i := b]"
  by (simp_all add: set_bucket_def)

lemma NewRoutingTable_wf [wf_rules]: "wf_rt (NewRoutingTable nid)"
  by (auto simp: wf_rt_def placed_rt_def bucket_placed_def NewRoutingTable_def)

lemma SetPing_wf [wf_rules]: "wf_rt rt \<Longrightarrow> wf_rt (SetPing rt fn)"
  by (auto simp: wf_rt_def placed_rt_def SetPing_def)

lemma placed_rt_bucket:
  "placed_rt rt \<Longrightarrow> i < 160 \<Longrightarrow> bucket_placed (nodeId rt) i (buckets rt ! i)"
  by (simp add: placed_rt_def)

lemma wf_rt_bucket:
  "wf_rt rt \<Longrightarrow> i < 160 \<Longrightarrow> bucket_placed (nodeId rt) i (buckets rt ! i) \<and> distinct (ids (buckets rt ! i))"
  by (auto simp: wf_rt_def placed_rt_def)

lemma set_bucket_placed:
  "placed_rt rt \<Longrightarrow> bucket_placed (nodeId rt) i b \<Longrightarrow> placed_rt (set_bucket rt i b)"
  by (cases "i < 160") (auto simp: placed_rt_def nth_list_update list_update_beyond)

lemma set_bucket_wf:
  "wf_rt rt \<Longrightarrow> bucket_placed (nodeId rt) i b \<Longrightarrow> distinct (ids b) \<Longrightarrow> wf_rt (set_bucket rt i b)"
  using set_update_subset_insert [of "buckets rt" i b]
  by (auto simp: wf_rt_def intro: set_bucket_placed)

text \<open>Replacing the i-th element by one at the end, the only rearrangement \<open>Add\<close> makes.\<close>

lemma bucket_placed_requeue:
  assumes "bucket_placed self i b" and "j < length b"
    and "nn_id n \<noteq> self" and "dist_index self (nn_id n) = i"
  shows "bucket_placed self i (remove_nth j b @ [n])"
  using assms set_remove_nth_subset [of j b] by (auto simp: bucket_placed_def)

lemma distinct_requeue:
  assumes d: "distinct (ids b)" and j: "j < length b"
    and n: "nn_id n = nn_id (b ! j) \<or> nn_id n \<notin> set (ids b)"
  shows "distinct (ids (remove_nth j b @ [n]))"
proof -
  have "nn_id (b ! j) \<notin> set (remove_nth j (ids b))"
    using nth_notin_remove_nth [OF d, of j] j by simp
  moreover have "set (remove_nth j (ids b)) \<subseteq> set (ids b)" by (rule set_remove_nth_subset)
  ultimately show ?thesis
    using d n distinct_remove_nth [OF d, of j] by (auto simp: map_remove_nth)
qed


section \<open>What Add does\<close>

text \<open>
  The contract of a Kademlia bucket as a least-recently-seen queue: a known contact moves
  to the tail with its new data, a new contact joins a bucket that has room, and of a full
  bucket the head is either kept (it answered, and moves to the tail) or replaced.
\<close>

definition lru_add :: "bool \<Rightarrow> network_node list \<Rightarrow> network_node \<Rightarrow> network_node list" where
  "lru_add alive b n =
     (if nn_id n \<in> set (ids b) then filter (\<lambda>m. nn_id m \<noteq> nn_id n) b @ [n]
      else if length b < K then b @ [n]
      else tl b @ [if alive then hd b else n])"

text \<open>Whether the head has to be pinged, and the answer (no callback means no answer).\<close>

definition must_ping :: "network_node list \<Rightarrow> network_node \<Rightarrow> bool" where
  "must_ping b n \<longleftrightarrow> nn_id n \<notin> set (ids b) \<and> K \<le> length b"

definition ping_result :: "'w routing_table \<Rightarrow> network_node \<Rightarrow> 'w \<Rightarrow> bool \<times> 'w" where
  "ping_result rt lrs w = (case ping rt of None \<Rightarrow> (False, w) | Some fn \<Rightarrow> fn lrs w)"

lemma find_index_id:
  "find_index (\<lambda>m. nn_id m = k) b = None \<longleftrightarrow> k \<notin> set (ids b)"
  by (auto simp: find_index_None)

lemma K_pos [simp]: "0 < K"
  by (simp add: K_def)

lemma lru_add_known:
  "distinct (ids b) \<Longrightarrow> find_index (\<lambda>m. nn_id m = nn_id n) b = Some i \<Longrightarrow>
     remove_nth i b @ [n] = lru_add alive b n"
  using find_index_id [of "nn_id n" b]
  by (auto simp: lru_add_def remove_nth_find_index)

lemma add_begin_lru:
  assumes "wf_rt rt" and self: "nn_id n \<noteq> nodeId rt"
  defines "i \<equiv> dist_index (nodeId rt) (nn_id n)"
  shows "add_begin rt n =
     (if must_ping (buckets rt ! i) n then AddPing i (hd (buckets rt ! i))
      else AddDone (set_bucket rt i (lru_add alive (buckets rt ! i) n)))"
proof -
  let ?b = "buckets rt ! i"
  have d: "distinct (ids ?b)"
    using wf_rt_bucket [OF assms(1) dist_index_less] by (simp add: i_def)
  have idx: "bucketIndex rt (nn_id n) = i" by (simp add: bucketIndex_eq i_def)
  show ?thesis
  proof (cases "find_index (\<lambda>m. nn_id m = nn_id n) ?b")
    case None
    then have "nn_id n \<notin> set (ids ?b)" by (simp add: find_index_id)
    with None self show ?thesis
      by (cases ?b) (auto simp: add_begin_def idx must_ping_def lru_add_def Let_def)
  next
    case (Some j)
    then have "nn_id n \<in> set (ids ?b)" using find_index_id [of "nn_id n" ?b] by auto
    with Some self lru_add_known [OF d Some] show ?thesis
      by (auto simp: add_begin_def idx must_ping_def Let_def)
  qed
qed

lemma add_finish_head:
  assumes "b = buckets rt ! i" and "b \<noteq> []"
  shows "add_finish rt i (hd b) repl = set_bucket rt i (tl b @ [repl])"
proof -
  have "find_index (\<lambda>m. nn_id m = nn_id (hd b)) b = Some 0"
    using assms(2) by (simp add: find_index_eq_Some_0)
  then show ?thesis unfolding assms(1) by (simp add: add_finish_def)
qed

lemma Add_self [simp]: "nn_id n = nodeId rt \<Longrightarrow> Add rt n w = (rt, w)"
  by (simp add: Add_def add_begin_def)

lemma Add_eq_lru:
  assumes "wf_rt rt" and "nn_id n \<noteq> nodeId rt"
  defines "i \<equiv> dist_index (nodeId rt) (nn_id n)"
  shows "Add rt n w =
     (let b = buckets rt ! i;
          (alive, w') = (if must_ping b n then ping_result rt (hd b) w else (False, w))
      in (set_bucket rt i (lru_add alive b n), w'))"
proof (cases "must_ping (buckets rt ! i) n")
  case False
  with add_begin_lru [OF assms(1,2), of False] show ?thesis
    by (simp add: Add_def i_def)
next
  case True
  then have ne: "buckets rt ! i \<noteq> []" by (auto simp: must_ping_def K_def)
  have "lru_add alive (buckets rt ! i) n
      = tl (buckets rt ! i) @ [if alive then hd (buckets rt ! i) else n]" for alive
    using True by (auto simp: lru_add_def must_ping_def)
  with True add_begin_lru [OF assms(1,2)] add_finish_head [OF refl ne] show ?thesis
    by (auto simp: Add_def i_def ping_result_def Let_def split: option.splits prod.splits)
qed

lemma set_lru_add: "set (lru_add alive b n) \<subseteq> insert n (set b)"
  by (cases b) (auto simp: lru_add_def K_def)

lemma length_lru_add: "length b \<le> K \<Longrightarrow> length (lru_add alive b n) \<le> K"
proof (cases "nn_id n \<in> set (ids b)")
  case True
  assume "length b \<le> K"
  moreover from True obtain m where "m \<in> set b" "nn_id m = nn_id n" by auto
  then have "length (filter (\<lambda>m. nn_id m \<noteq> nn_id n) b) < length b"
    by (intro length_filter_less [of m]) auto
  ultimately show ?thesis using True by (simp add: lru_add_def)
qed (auto simp: lru_add_def)

lemma lru_add_placed:
  "bucket_placed self i b \<Longrightarrow> nn_id n \<noteq> self \<Longrightarrow> dist_index self (nn_id n) = i \<Longrightarrow>
     bucket_placed self i (lru_add alive b n)"
  using set_lru_add [of alive b n] length_lru_add [of b alive n]
  by (auto simp: bucket_placed_def)

lemma lru_add_distinct: "distinct (ids b) \<Longrightarrow> distinct (ids (lru_add alive b n))"
  by (cases b) (auto simp: lru_add_def K_def distinct_map_filter)

lemma Add_frame [simp]: "nodeId (fst (Add rt n w)) = nodeId rt" "ping (fst (Add rt n w)) = ping rt"
  by (auto simp: Add_def add_begin_def add_finish_def Let_def
      split: option.splits prod.splits if_splits)

lemma Add_wf [wf_rules]: "wf_rt rt \<Longrightarrow> wf_rt (fst (Add rt n w))"
proof (cases "nn_id n = nodeId rt")
  case False
  assume wf: "wf_rt rt"
  let ?i = "dist_index (nodeId rt) (nn_id n)"
  have "wf_rt (set_bucket rt ?i (lru_add alive (buckets rt ! ?i) n))" for alive
    using wf_rt_bucket [OF wf dist_index_less [of "nodeId rt" "nn_id n"]] False
    by (intro set_bucket_wf wf lru_add_placed lru_add_distinct) auto
  then show ?thesis
    by (simp add: Add_eq_lru [OF wf False] Let_def split: prod.splits)
qed simp


section \<open>What FindClosest returns\<close>

lemma contacts_iff: "n \<in> set (contacts rt) \<longleftrightarrow> (\<exists>i < length (buckets rt). n \<in> set (buckets rt ! i))"
proof -
  have "n \<in> set (contacts rt) \<longleftrightarrow> (\<exists>b \<in> set (buckets rt). n \<in> set b)"
    by (auto simp: contacts_def)
  then show ?thesis by (simp only: set_conv_nth) blast
qed

lemma placed_contacts:
  assumes "placed_rt rt" and "n \<in> set (contacts rt)"
  shows "nn_id n \<noteq> nodeId rt" and "n \<in> set (buckets rt ! dist_index (nodeId rt) (nn_id n))"
  using assms by (auto simp: contacts_iff placed_rt_def bucket_placed_def)

lemma distinct_ids_concat:
  "(\<And>i. i < length bs \<Longrightarrow> distinct (ids (bs ! i)) \<and> (\<forall>n \<in> set (bs ! i). f (nn_id n) = i + off)) \<Longrightarrow>
     distinct (ids (concat bs))"
proof (induction bs arbitrary: off)
  case Nil
  show ?case by simp
next
  case (Cons b bs)
  have tl: "distinct (ids (bs ! i)) \<and> (\<forall>n \<in> set (bs ! i). f (nn_id n) = i + Suc off)"
    if "i < length bs" for i
    using Cons.prems [of "Suc i", simplified length_Cons Suc_less_eq nth_Cons_Suc] that
    by auto
  have later: "f (nn_id n) \<noteq> off" if n: "n \<in> set (concat bs)" for n
  proof -
    from n obtain b' where "b' \<in> set bs" "n \<in> set b'" by auto
    then obtain i where "i < length bs" "n \<in> set (bs ! i)"
      by (metis in_set_conv_nth)
    with tl [of i] show ?thesis by auto
  qed
  have "distinct (ids b)" and here: "\<And>n. n \<in> set b \<Longrightarrow> f (nn_id n) = off"
    using Cons.prems [of 0, simplified length_Cons nth_Cons_0] by auto
  moreover have "set (ids b) \<inter> set (ids (concat bs)) = {}"
  proof (rule ccontr)
    assume "set (ids b) \<inter> set (ids (concat bs)) \<noteq> {}"
    then obtain k where "k \<in> nn_id ` set b" and "k \<in> nn_id ` set (concat bs)"
      unfolding set_map by blast
    then obtain m n where "m \<in> set b" "n \<in> set (concat bs)" "nn_id m = nn_id n"
      by (elim imageE) simp
    with here [of m] later [of n] show False by simp
  qed
  moreover have "distinct (ids (concat bs))" using tl by (rule Cons.IH)
  ultimately show ?case by (simp only: concat.simps map_append distinct_append)
qed

lemma wf_rt_distinct_contacts: "wf_rt rt \<Longrightarrow> distinct (ids (contacts rt))"
  unfolding contacts_def
  by (rule distinct_ids_concat [of _ "dist_index (nodeId rt)" 0])
    (auto simp: wf_rt_def placed_rt_def bucket_placed_def)

lemma set_FindClosest: "set (FindClosest rt t cnt) \<subseteq> set (contacts rt)"
  using set_take_subset by (fastforce simp: FindClosest_def)

lemma length_FindClosest: "length (FindClosest rt t cnt) = min cnt (length (contacts rt))"
  by (simp add: FindClosest_def)

lemma sorted_FindClosest: "sorted (map (\<lambda>n. GetKeyDistance (nn_id n) t) (FindClosest rt t cnt))"
  by (simp add: FindClosest_def sorted_take_key)

lemma distinct_FindClosest: "wf_rt rt \<Longrightarrow> distinct (ids (FindClosest rt t cnt))"
proof -
  assume "wf_rt rt"
  then have "distinct (ids (sort_slice (\<lambda>n. GetKeyDistance (nn_id n) t) (contacts rt)))"
    using wf_rt_distinct_contacts by (metis mset_eq_imp_distinct_iff mset_map mset_sort_slice)
  then show ?thesis by (simp add: FindClosest_def flip: take_map)
qed

lemma FindClosest_best:
  assumes "n \<in> set (contacts rt)" and "n \<notin> set (FindClosest rt t cnt)"
    and "m \<in> set (FindClosest rt t cnt)"
  shows "GetKeyDistance (nn_id m) t \<le> GetKeyDistance (nn_id n) t"
proof -
  let ?f = "\<lambda>n. GetKeyDistance (nn_id n) t"
  let ?s = "sort_slice ?f (contacts rt)"
  have "n \<in> set (take cnt ?s) \<union> set (drop cnt ?s)"
    using assms(1) by (metis append_take_drop_id set_append set_sort_slice)
  with assms(2) have "n \<in> set (drop cnt ?s)" by (auto simp: FindClosest_def)
  with assms(3) show ?thesis
    using sorted_take_le_drop [OF sorted_sort_slice] by (auto simp: FindClosest_def)
qed

lemma FindClosest_any_sort:
  assumes "wf_rt rt" and "mset ys = mset (contacts rt)"
    and "sorted (map (\<lambda>n. GetKeyDistance (nn_id n) t) ys)"
  shows "FindClosest rt t cnt = take cnt ys"
proof -
  have "inj_on (\<lambda>n. GetKeyDistance (nn_id n) t) (set (contacts rt))"
    using wf_rt_distinct_contacts [OF assms(1)] by (simp add: distinct_map inj_on_def)
  from sort_slice_unique [OF assms(2,3) this] show ?thesis by (simp add: FindClosest_def)
qed

lemma FindClosest_one:
  assumes "wf_rt rt" and n: "n \<in> set (contacts rt)"
  shows "FindClosest rt (nn_id n) 1 = [n]"
proof -
  have "length (FindClosest rt (nn_id n) 1) = 1"
    using n length_FindClosest [of rt "nn_id n" 1] by (cases "contacts rt") auto
  then obtain m where m: "FindClosest rt (nn_id n) 1 = [m]"
    by (auto simp: length_Suc_conv)
  then have "m \<in> set (contacts rt)" using set_FindClosest [of rt "nn_id n" 1] by simp
  moreover have "nn_id m = nn_id n"
    using FindClosest_best [OF n, of "nn_id n" 1 m] m by (cases "m = n") auto
  ultimately show ?thesis
    using m n wf_rt_distinct_contacts [OF assms(1)] by (auto simp: distinct_map inj_on_def)
qed

section \<open>The table as its clients see it\<close>

text \<open>
  What the node and the lookup rely on: \<open>Add\<close> keeps the invariant and the owner and brings in
  at most the contact it is given, the owner is never listed, and \<open>FindClosest\<close> answers
  with listed contacts in order of distance.
\<close>

locale peer_table =
  fixes inv :: "'t \<Rightarrow> bool"
    and owner :: "'t \<Rightarrow> dht_key"
    and members :: "'t \<Rightarrow> network_node set"
    and add :: "'t \<Rightarrow> network_node \<Rightarrow> 'w \<Rightarrow> 't \<times> 'w"
    and closest :: "'t \<Rightarrow> dht_key \<Rightarrow> nat \<Rightarrow> network_node list"
  assumes add_inv: "inv t \<Longrightarrow> inv (fst (add t n w))"
    and add_owner: "owner (fst (add t n w)) = owner t"
    and add_members: "inv t \<Longrightarrow> members (fst (add t n w)) \<subseteq> insert n (members t)"
    and owner_not_member: "inv t \<Longrightarrow> n \<in> members t \<Longrightarrow> nn_id n \<noteq> owner t"
    and closest_members: "set (closest t k c) \<subseteq> members t"
    and closest_length: "length (closest t k c) \<le> c"
    and closest_sorted: "sorted (map (\<lambda>n. GetKeyDistance (nn_id n) k) (closest t k c))"
begin

text \<open>One step of a client is an \<open>add\<close>; a client's whole effect is a sequence of them.\<close>

definition add_step :: "'t \<Rightarrow> 't \<Rightarrow> bool" where
  "add_step t t' \<longleftrightarrow> (\<exists>n w. t' = fst (add t n w))"

lemma add_steps_keep: "add_step\<^sup>*\<^sup>* t t' \<Longrightarrow> inv t \<Longrightarrow> inv t' \<and> owner t' = owner t"
  by (induction rule: rtranclp_induct) (auto simp: add_step_def add_inv add_owner)

lemma add_steps_one: "add_step\<^sup>*\<^sup>* t (fst (add t n w))"
  unfolding add_step_def by (intro r_into_rtranclp) blast

lemma closest_not_owner: "inv t \<Longrightarrow> n \<in> set (closest t k c) \<Longrightarrow> nn_id n \<noteq> owner t"
  using closest_members owner_not_member by blast

lemma fold_add_steps:
  "add_step\<^sup>*\<^sup>* t (fst (fold (\<lambda>n (t, w). add t n w) ns (t, w)))"
proof (induction ns arbitrary: t w)
  case (Cons n ns)
  obtain t' w' where a: "add t n w = (t', w')" by fastforce
  then have "add_step t t'" unfolding add_step_def by (metis fst_conv)
  with Cons [of t' w'] a show ?case by (simp add: converse_rtranclp_into_rtranclp)
qed simp

end

lemma set_contacts_bucket:
  "set (contacts (set_bucket rt i b)) \<subseteq> set b \<union> set (contacts rt)"
  using set_update_subset_insert [of "buckets rt" i b] by (auto simp: contacts_def)

lemma contacts_Add:
  assumes wf: "wf_rt rt"
  shows "set (contacts (fst (Add rt n w))) \<subseteq> insert n (set (contacts rt))"
proof (cases "nn_id n = nodeId rt")
  case False
  let ?i = "dist_index (nodeId rt) (nn_id n)"
  have "?i < length (buckets rt)"
    using wf dist_index_less by (simp add: wf_rt_def placed_rt_def)
  then have b: "set (buckets rt ! ?i) \<subseteq> set (contacts rt)" by (auto simp: contacts_iff)
  have "set (contacts (set_bucket rt ?i (lru_add alive (buckets rt ! ?i) n)))
      \<subseteq> insert n (set (contacts rt))" for alive
    using set_contacts_bucket set_lru_add b by fastforce
  then show ?thesis by (simp add: Add_eq_lru [OF wf False] Let_def split: prod.splits)
qed auto

lemma wf_rt_contacts: "wf_rt rt \<Longrightarrow> n \<in> set (contacts rt) \<Longrightarrow> nn_id n \<noteq> nodeId rt"
  by (rule placed_contacts(1)) (simp_all add: wf_rt_def)

interpretation rt: peer_table wf_rt nodeId "\<lambda>rt. set (contacts rt)" Add FindClosest
proof
  show "wf_rt t \<Longrightarrow> n \<in> set (contacts t) \<Longrightarrow> nn_id n \<noteq> nodeId t" for t :: "'w routing_table" and n
    by (rule wf_rt_contacts)
qed (simp_all add: Add_wf contacts_Add set_FindClosest length_FindClosest sorted_FindClosest)

end
