(* ===== verification/Storage.thy ===== *)
theory Storage
  imports Key
begin

text \<open>
  \<open>dht/storage.go\<close>: the value a key maps to, and the contract of the \<open>Storage\<close>
  interface as a locale that every implementation interprets.
\<close>

text \<open>
  \<open>'d\<close> is the type of the \<open>Data\<close> slice: its bytes, or the address of its array where
  aliasing matters. A nil slice is \<open>None\<close>. \<open>Size\<close> is an int64.
\<close>

record 'd value_meta_of =
  Inline :: bool
  Data :: "'d option"
  BlobRef :: string
  BlobNode :: dht_key
  Size :: "64 word"
  MimeType :: string

type_synonym value_meta = "bytes value_meta_of"

text \<open>The bytes of a slice that may be nil, as \<open>len\<close>, \<open>copy\<close> and \<open>range\<close> see it.\<close>

definition slice_bytes :: "bytes option \<Rightarrow> bytes" where
  "slice_bytes d = (case d of None \<Rightarrow> [] | Some bs \<Rightarrow> bs)"

lemma slice_bytes_simps [simp]: "slice_bytes None = []" "slice_bytes (Some bs) = bs"
  by (simp_all add: slice_bytes_def)

section \<open>The Storage interface\<close>

text \<open>
  \<open>view s\<close> is the finite map a storage stands for; \<open>norm v\<close> what a store makes of a value
  it is given (an encoding may lose a distinction, such as nil against empty data).
\<close>

locale kv_store =
  fixes inv :: "'s \<Rightarrow> bool"
    and view :: "'s \<Rightarrow> dht_key \<rightharpoonup> value_meta"
    and norm :: "value_meta \<Rightarrow> value_meta"
    and get :: "'s \<Rightarrow> dht_key \<Rightarrow> value_meta option \<times> 's"
    and put :: "'s \<Rightarrow> dht_key \<Rightarrow> value_meta \<Rightarrow> 's"
    and del :: "'s \<Rightarrow> dht_key \<Rightarrow> 's"
  assumes get_value: "inv s \<Longrightarrow> fst (get s k) = view s k"
    and get_view: "inv s \<Longrightarrow> view (snd (get s k)) = view s"
    and get_inv: "inv s \<Longrightarrow> inv (snd (get s k))"
    and put_view: "inv s \<Longrightarrow> view (put s k v) = (view s)(k \<mapsto> norm v)"
    and put_inv: "inv s \<Longrightarrow> inv (put s k v)"
    and del_view: "inv s \<Longrightarrow> view (del s k) = (view s)(k := None)"
    and del_inv: "inv s \<Longrightarrow> inv (del s k)"
begin

lemma get_put_same: "inv s \<Longrightarrow> fst (get (put s k v) k) = Some (norm v)"
  by (simp add: get_value put_inv put_view)

lemma get_put_other: "inv s \<Longrightarrow> k' \<noteq> k \<Longrightarrow> fst (get (put s k v) k') = fst (get s k')"
  by (simp add: get_value put_inv put_view)

lemma get_del_same: "inv s \<Longrightarrow> fst (get (del s k) k) = None"
  by (simp add: get_value del_inv del_view)

lemma get_del_other: "inv s \<Longrightarrow> k' \<noteq> k \<Longrightarrow> fst (get (del s k) k') = fst (get s k')"
  by (simp add: get_value del_inv del_view)

lemma puts_view:
  "inv s \<Longrightarrow> inv (fold (\<lambda>(k, v) s. put s k v) kvs s)
     \<and> view (fold (\<lambda>(k, v) s. put s k v) kvs s)
         = fold (\<lambda>(k, v) m. m(k \<mapsto> norm v)) kvs (view s)"
  by (induction kvs arbitrary: s) (auto simp: put_view put_inv)

end


section \<open>The BlobStore interface\<close>

text \<open>
  A storage that also keeps blobs under references made from their contents. What comes
  back under a reference is a blob with that reference; that it is the one that was put is
  the collision freedom of \<open>ref_of\<close>.
\<close>

locale blob_store = kv_store inv view norm get put del
  for inv :: "'s \<Rightarrow> bool" and view and norm and get and put and del +
  fixes ref_of :: "bytes \<Rightarrow> string"
    and put_blob :: "'s \<Rightarrow> bytes \<Rightarrow> (go_error + string) \<times> 's"
    and get_blob :: "'s \<Rightarrow> string \<Rightarrow> go_error + bytes"
  assumes put_blob_ref: "inv s \<Longrightarrow> fst (put_blob s d) = Inr (ref_of d)"
    and put_blob_inv: "inv s \<Longrightarrow> inv (snd (put_blob s d))"
    and put_blob_view: "inv s \<Longrightarrow> view (snd (put_blob s d)) = view s"
    and put_blob_stored: "inv s \<Longrightarrow> \<exists>d'. get_blob (snd (put_blob s d)) (ref_of d) = Inr d'"
    and put_blob_keeps: "inv s \<Longrightarrow> get_blob s (ref_of e) = Inr e' \<Longrightarrow>
      get_blob (snd (put_blob s d)) (ref_of e) = Inr e'"
    and get_blob_ref: "inv s \<Longrightarrow> get_blob s (ref_of d) = Inr d' \<Longrightarrow> ref_of d' = ref_of d"
    and put_get_blob: "inv s \<Longrightarrow> get_blob (put s k v) (ref_of d) = get_blob s (ref_of d)"
    and del_get_blob: "inv s \<Longrightarrow> get_blob (del s k) (ref_of d) = get_blob s (ref_of d)"
begin

lemma get_blob_put_blob:
  assumes "inv s" and "\<And>d'. ref_of d' = ref_of d \<Longrightarrow> d' = d"
  shows "get_blob (snd (put_blob s d)) (ref_of d) = Inr d"
proof -
  obtain d' where d': "get_blob (snd (put_blob s d)) (ref_of d) = Inr d'"
    using put_blob_stored [OF assms(1)] by blast
  with get_blob_ref [OF put_blob_inv [OF assms(1)]] assms(2) show ?thesis by metis
qed

lemma put_blob_again:
  assumes "inv s" and "\<And>d'. ref_of d' = ref_of d \<Longrightarrow> d' = d"
  shows "get_blob (snd (put_blob (snd (put_blob s d)) e)) (ref_of d) = Inr d"
  using put_blob_keeps [OF put_blob_inv [OF assms(1)]] get_blob_put_blob [OF assms] by simp

end

end
