(* ===== verification/Transport.thy ===== *)
theory Transport
  imports Routing_Table Storage
begin

text \<open>
  \<open>dht/transport.go\<close>: the names of the remote procedures, the \<open>Transport\<close> interface a node
  calls, and the \<open>RPCHandler\<close> interface a transport calls back.
\<close>

definition RPCPing :: string where "RPCPing = ''PING''"
definition RPCStore :: string where "RPCStore = ''STORE''"
definition RPCFindNode :: string where "RPCFindNode = ''FIND_NODE''"
definition RPCFindValue :: string where "RPCFindValue = ''FIND_VALUE''"
definition RPCFetchBlob :: string where "RPCFetchBlob = ''FETCH_BLOB''"

lemmas rpc_names = RPCPing_def RPCStore_def RPCFindNode_def RPCFindValue_def RPCFetchBlob_def

text \<open>
  A call acts on the state \<open>'w\<close> of everything outside the node: the network, the peers and
  the clock. A list of nodes that came over the network may hold nil pointers (\<open>None\<close>).
\<close>

type_synonym found = "value_meta option \<times> network_node option list"

record 'w transport =
  tr_ping :: "network_node \<Rightarrow> 'w \<Rightarrow> go_error option \<times> 'w"
  tr_store :: "network_node \<Rightarrow> dht_key \<Rightarrow> value_meta \<Rightarrow> 'w \<Rightarrow> go_error option \<times> 'w"
  tr_find_node :: "network_node \<Rightarrow> dht_key \<Rightarrow> 'w \<Rightarrow> (go_error + network_node option list) \<times> 'w"
  tr_find_value :: "network_node \<Rightarrow> dht_key \<Rightarrow> 'w \<Rightarrow> (go_error + found) \<times> 'w"
  tr_fetch_blob :: "network_node \<Rightarrow> string \<Rightarrow> 'w \<Rightarrow> (go_error + bytes) \<times> 'w"
  tr_listen :: "'w \<Rightarrow> go_error option \<times> 'w"
  tr_close :: "'w \<Rightarrow> go_error option \<times> 'w"

section \<open>The RPCHandler interface\<close>

text \<open>
  What a transport may rely on when it dispatches a request to a handler with state \<open>'s\<close>: the
  handlers keep the invariant, \<open>OnStore\<close> writes the value map and the others leave it alone,
  and \<open>OnFindValue\<close> reports the map. A sender is a pointer that may be nil.
\<close>

locale rpc_handler =
  fixes inv :: "'s \<Rightarrow> bool"
    and view :: "'s \<Rightarrow> dht_key \<rightharpoonup> value_meta"
    and norm :: "'s \<Rightarrow> value_meta \<Rightarrow> value_meta"
    and on_ping :: "network_node option \<Rightarrow> 's \<Rightarrow> go_error option \<times> 's"
    and on_store :: "network_node option \<Rightarrow> dht_key \<Rightarrow> value_meta \<Rightarrow> 's \<Rightarrow> go_error option \<times> 's"
    and on_find_node :: "network_node option \<Rightarrow> dht_key \<Rightarrow> 's \<Rightarrow> (go_error + network_node list) \<times> 's"
    and on_find_value :: "network_node option \<Rightarrow> dht_key \<Rightarrow> 's \<Rightarrow>
      (go_error + value_meta option \<times> network_node list) \<times> 's"
  assumes ping_ok: "inv s \<Longrightarrow> fst (on_ping p s) = None \<and> inv (snd (on_ping p s))
      \<and> view (snd (on_ping p s)) = view s \<and> norm (snd (on_ping p s)) = norm s"
    and store_ok: "inv s \<Longrightarrow> fst (on_store p k v s) = None \<and> inv (snd (on_store p k v s))
      \<and> view (snd (on_store p k v s)) = (view s)(k \<mapsto> norm s v)
      \<and> norm (snd (on_store p k v s)) = norm s"
    and find_node_ok: "inv s \<Longrightarrow> inv (snd (on_find_node p k s))
      \<and> view (snd (on_find_node p k s)) = view s \<and> norm (snd (on_find_node p k s)) = norm s"
    and find_node_length: "inv s \<Longrightarrow> fst (on_find_node p k s) = Inr ns \<Longrightarrow> length ns \<le> K"
    and find_value_ok: "inv s \<Longrightarrow> inv (snd (on_find_value p k s))
      \<and> view (snd (on_find_value p k s)) = view s \<and> norm (snd (on_find_value p k s)) = norm s"
    and find_value_hit: "inv s \<Longrightarrow> view s k = Some v \<Longrightarrow> fst (on_find_value p k s) = Inr (Some v, [])"
    and find_value_miss: "inv s \<Longrightarrow> view s k = None \<Longrightarrow>
      fst (on_find_value p k s) = Inl ErrNotFound
      \<or> (\<exists>ns. ns \<noteq> [] \<and> length ns \<le> K \<and> fst (on_find_value p k s) = Inr (None, ns))"
begin

lemma find_stored:
  "inv s \<Longrightarrow> fst (on_find_value q k (snd (on_store p k v s))) = Inr (Some (norm s v), [])"
  using store_ok [of s p k v] find_value_hit [of "snd (on_store p k v s)" k "norm s v"] by simp

lemma find_unstored:
  "inv s \<Longrightarrow> k' \<noteq> k \<Longrightarrow> view s k' = Some v' \<Longrightarrow>
     fst (on_find_value q k' (snd (on_store p k v s))) = Inr (Some v', [])"
  using store_ok [of s p k v] find_value_hit [of "snd (on_store p k v s)" k' v'] by simp

text \<open>The four requests a transport dispatches, and what a sequence of them leaves.\<close>

lemma stores_view:
  "inv s \<Longrightarrow>
     inv (fold (\<lambda>(p, k, v) s. snd (on_store p k v s)) rs s)
     \<and> norm (fold (\<lambda>(p, k, v) s. snd (on_store p k v s)) rs s) = norm s
     \<and> view (fold (\<lambda>(p, k, v) s. snd (on_store p k v s)) rs s)
         = fold (\<lambda>(p, k, v) m. m(k \<mapsto> norm s v)) rs (view s)"
proof (induction rs arbitrary: s)
  case (Cons r rs)
  obtain p k v where r: "r = (p, k, v)" by (cases r) auto
  from Cons.IH [of "snd (on_store p k v s)"] store_ok [OF Cons.prems, of p k v]
  show ?case by (simp add: r)
qed simp

end

end
