(* ===== verification/Memory_Storage.thy ===== *)
theory Memory_Storage
  imports Storage
begin

text \<open>
  \<open>dht/memory_storage.go\<close>. \<open>Put\<close> and \<open>Get\<close> copy the data slice, so that neither the
  caller's later writes nor writes to a result reach the store. The model has a heap of
  byte arrays to say so; \<open>mem_view\<close> is the map the storage stands for.
\<close>

section \<open>The heap of byte arrays\<close>

record heap =
  cells :: "nat \<Rightarrow> bytes"
  fresh :: nat

text \<open>\<open>make([]byte, len(v)); copy(...)\<close>: a new array with the given contents.\<close>

definition alloc :: "heap \<Rightarrow> bytes \<Rightarrow> nat \<times> heap" where
  "alloc h bs = (fresh h, h\<lparr>cells := (cells h)(fresh h := bs), fresh := Suc (fresh h)\<rparr>)"

text \<open>Some code writes the array at an address (\<open>d[i] = b\<close>, \<open>copy(d, ...)\<close>).\<close>

definition poke :: "heap \<Rightarrow> nat \<Rightarrow> bytes \<Rightarrow> heap" where
  "poke h a bs = h\<lparr>cells := (cells h)(a := bs)\<rparr>"

definition deref :: "heap \<Rightarrow> nat value_meta_of \<Rightarrow> value_meta" where
  "deref h v = \<lparr>Inline = Inline v, Data = map_option (cells h) (Data v), BlobRef = BlobRef v,
     BlobNode = BlobNode v, Size = Size v, MimeType = MimeType v\<rparr>"

section \<open>The operations\<close>

type_synonym memory_storage = "dht_key \<rightharpoonup> nat value_meta_of"

definition NewMemoryStorage :: memory_storage where
  "NewMemoryStorage = Map.empty"

text \<open>The copy both operations make: the struct, with a fresh data array unless it is nil.\<close>

definition copy_meta :: "heap \<Rightarrow> nat value_meta_of \<Rightarrow> nat value_meta_of \<times> heap" where
  "copy_meta h v =
     (case Data v of
        None \<Rightarrow> (v, h)
      | Some a \<Rightarrow> let (a', h') = alloc h (cells h a) in (v\<lparr>Data := Some a'\<rparr>, h'))"

definition MemGet ::
  "memory_storage \<Rightarrow> heap \<Rightarrow> dht_key \<Rightarrow> nat value_meta_of option \<times> heap" where
  "MemGet s h key =
     (case s key of
        None \<Rightarrow> (None, h)
      | Some v \<Rightarrow> let (cp, h') = copy_meta h v in (Some cp, h'))"

definition MemPut ::
  "memory_storage \<Rightarrow> heap \<Rightarrow> dht_key \<Rightarrow> nat value_meta_of \<Rightarrow> memory_storage \<times> heap" where
  "MemPut s h key value = (let (cp, h') = copy_meta h value in (s(key \<mapsto> cp), h'))"

definition MemDelete :: "memory_storage \<Rightarrow> dht_key \<Rightarrow> memory_storage" where
  "MemDelete s key = s(key := None)"

section \<open>Ownership\<close>

definition mem_view :: "memory_storage \<Rightarrow> heap \<Rightarrow> dht_key \<rightharpoonup> value_meta" where
  "mem_view s h = (\<lambda>k. map_option (deref h) (s k))"

text \<open>The addresses the storage owns.\<close>

definition owned :: "memory_storage \<Rightarrow> nat set" where
  "owned s = {a. \<exists>k v. s k = Some v \<and> Data v = Some a}"

definition mem_ok :: "memory_storage \<Rightarrow> heap \<Rightarrow> bool" where
  "mem_ok s h \<longleftrightarrow> (\<forall>a \<in> owned s. a < fresh h)"

lemma alloc_simps [simp]:
  "fst (alloc h bs) = fresh h"
  "fresh (snd (alloc h bs)) = Suc (fresh h)"
  "cells (snd (alloc h bs)) (fresh h) = bs"
  "a \<noteq> fresh h \<Longrightarrow> cells (snd (alloc h bs)) a = cells h a"
  by (simp_all add: alloc_def)

lemma deref_cong:
  "(\<And>a. Data v = Some a \<Longrightarrow> cells h' a = cells h a) \<Longrightarrow> deref h' v = deref h v"
  by (cases "Data v") (auto simp: deref_def)

lemma mem_view_cong:
  assumes "\<And>a. a \<in> owned s \<Longrightarrow> cells h' a = cells h a"
  shows "mem_view s h' = mem_view s h"
proof
  fix k
  show "mem_view s h' k = mem_view s h k"
    using assms
    by (cases "s k") (auto simp: mem_view_def owned_def intro!: deref_cong)
qed

text \<open>A copy reads the same, and its array is new.\<close>

lemma copy_meta_deref:
  assumes "copy_meta h v = (cp, h')"
  shows "deref h' cp = deref h v"
  using assms by (auto simp: copy_meta_def deref_def alloc_def split: option.splits)

lemma copy_meta_fresh:
  assumes "copy_meta h v = (cp, h')"
  shows "Data cp = Some a \<Longrightarrow> a = fresh h" and "fresh h \<le> fresh h'"
    and "Data cp = Some a \<Longrightarrow> a < fresh h'"
    and "b < fresh h \<Longrightarrow> cells h' b = cells h b"
  using assms by (auto simp: copy_meta_def alloc_def split: option.splits)

lemma copy_meta_view:
  assumes "copy_meta h v = (cp, h')" and "mem_ok s h"
  shows "mem_view s h' = mem_view s h"
  using copy_meta_fresh(4) [OF assms(1)] assms(2)
  by (intro mem_view_cong) (auto simp: mem_ok_def)

lemma owned_upd: "owned (s(k \<mapsto> v)) \<subseteq> owned s \<union> {a. Data v = Some a}"
  by (auto simp: owned_def split: if_splits)

lemma owned_del: "owned (s(k := None)) \<subseteq> owned s"
  by (auto simp: owned_def split: if_splits)

lemma MemPut_view:
  assumes "mem_ok s h" and "MemPut s h k v = (s', h')"
  shows "mem_view s' h' = (mem_view s h)(k \<mapsto> deref h v)" and "mem_ok s' h'"
    and "owned s' \<subseteq> insert (fresh h) (owned s)"
proof -
  obtain cp where c: "copy_meta h v = (cp, h')" and s': "s' = s(k \<mapsto> cp)"
    using assms(2) by (auto simp: MemPut_def split: prod.splits)
  show "mem_view s' h' = (mem_view s h)(k \<mapsto> deref h v)"
    using copy_meta_view [OF c assms(1)] copy_meta_deref [OF c] s'
    by (auto simp: mem_view_def fun_eq_iff)
  show "owned s' \<subseteq> insert (fresh h) (owned s)"
    using owned_upd [of s k cp] copy_meta_fresh(1) [OF c] s' by blast
  show "mem_ok s' h'"
    using owned_upd [of s k cp] copy_meta_fresh(2,3) [OF c] assms(1) s'
    by (fastforce simp: mem_ok_def)
qed

lemma MemGet_view:
  assumes "mem_ok s h" and "MemGet s h k = (r, h')"
  shows "map_option (deref h') r = mem_view s h k" and "mem_view s h' = mem_view s h"
    and "mem_ok s h'" and "r = Some v \<Longrightarrow> Data v = Some a \<Longrightarrow> a \<notin> owned s"
proof -
  have "map_option (deref h') r = mem_view s h k \<and> mem_view s h' = mem_view s h \<and> mem_ok s h'
      \<and> (\<forall>v a. r = Some v \<longrightarrow> Data v = Some a \<longrightarrow> a \<notin> owned s)"
  proof (cases "s k")
    case None
    with assms show ?thesis by (auto simp: MemGet_def mem_view_def)
  next
    case (Some v)
    with assms(2) obtain cp where c: "copy_meta h v = (cp, h')" and r: "r = Some cp"
      by (auto simp: MemGet_def split: prod.splits)
    show ?thesis
      using Some r copy_meta_deref [OF c] copy_meta_view [OF c assms(1)]
        copy_meta_fresh(1,2) [OF c] assms(1)
      by (fastforce simp: mem_view_def mem_ok_def)
  qed
  then show "map_option (deref h') r = mem_view s h k" "mem_view s h' = mem_view s h"
    "mem_ok s h'" "r = Some v \<Longrightarrow> Data v = Some a \<Longrightarrow> a \<notin> owned s"
    by auto
qed


section \<open>Clients that keep writing to their slices\<close>

text \<open>
  A client knows the addresses it allocated and those \<open>Get\<close> returned to it, and may write
  any of them at any time, before or after handing them to \<open>Put\<close>. \<open>mc_got\<close> are the results of its
  calls of \<open>Get\<close>, as it reads them when the call returns.
\<close>

record mem_client =
  mc_store :: memory_storage
  mc_heap :: heap
  mc_known :: "nat set"
  mc_got :: "value_meta option list"

datatype mem_op =
    OpAlloc bytes
  | OpWrite nat bytes
  | OpPut dht_key "nat value_meta_of"
  | OpGet dht_key
  | OpDelete dht_key

inductive mem_step :: "mem_client \<Rightarrow> mem_op \<Rightarrow> mem_client \<Rightarrow> bool" where
  client_alloc: "alloc (mc_heap c) bs = (a, h') \<Longrightarrow>
     mem_step c (OpAlloc bs) (c\<lparr>mc_heap := h', mc_known := insert a (mc_known c)\<rparr>)"
| client_write: "a \<in> mc_known c \<Longrightarrow>
     mem_step c (OpWrite a bs) (c\<lparr>mc_heap := poke (mc_heap c) a bs\<rparr>)"
| storage_put: "set_option (Data v) \<subseteq> mc_known c \<Longrightarrow>
     MemPut (mc_store c) (mc_heap c) k v = (s', h') \<Longrightarrow>
     mem_step c (OpPut k v) (c\<lparr>mc_store := s', mc_heap := h'\<rparr>)"
| storage_get: "MemGet (mc_store c) (mc_heap c) k = (r, h') \<Longrightarrow>
     mem_step c (OpGet k) (c\<lparr>mc_heap := h',
       mc_known := mc_known c \<union> (case r of None \<Rightarrow> {} | Some v \<Rightarrow> set_option (Data v)),
       mc_got := mc_got c @ [map_option (deref h') r]\<rparr>)"
| storage_delete:
    "mem_step c (OpDelete k) (c\<lparr>mc_store := MemDelete (mc_store c) k\<rparr>)"

inductive_cases mem_step_elims:
  "mem_step c (OpAlloc bs) c'" "mem_step c (OpWrite a bs) c'" "mem_step c (OpPut k v) c'"
  "mem_step c (OpGet k) c'" "mem_step c (OpDelete k) c'"

text \<open>
  What the operation does to the map, and what it returns: only \<open>Put\<close> and \<open>Delete\<close> change the map,
  and \<open>Get\<close> is a look at it.
\<close>

fun kv_spec :: "heap \<Rightarrow> mem_op \<Rightarrow> (dht_key \<rightharpoonup> value_meta) \<Rightarrow> (dht_key \<rightharpoonup> value_meta)" where
  "kv_spec h (OpPut k v) m = m(k \<mapsto> deref h v)"
| "kv_spec h (OpDelete k) m = m(k := None)"
| "kv_spec h op m = m"

fun kv_got :: "mem_op \<Rightarrow> (dht_key \<rightharpoonup> value_meta) \<Rightarrow> value_meta option list" where
  "kv_got (OpGet k) m = [m k]"
| "kv_got op m = []"

definition kv_step ::
  "(dht_key \<rightharpoonup> value_meta) \<times> value_meta option list \<Rightarrow> mem_op \<times> heap \<Rightarrow>
     (dht_key \<rightharpoonup> value_meta) \<times> value_meta option list" where
  "kv_step a x = (kv_spec (snd x) (fst x) (fst a), snd a @ kv_got (fst x) (fst a))"

abbreviation mc_view :: "mem_client \<Rightarrow> dht_key \<rightharpoonup> value_meta" where
  "mc_view c \<equiv> mem_view (mc_store c) (mc_heap c)"

definition separated :: "mem_client \<Rightarrow> bool" where
  "separated c \<longleftrightarrow> mem_ok (mc_store c) (mc_heap c)
     \<and> (\<forall>a \<in> mc_known c. a < fresh (mc_heap c) \<and> a \<notin> owned (mc_store c))"

lemma MemGet_fresh:
  "MemGet s h k = (r, h') \<Longrightarrow> fresh h \<le> fresh h'
     \<and> (\<forall>v a. r = Some v \<longrightarrow> Data v = Some a \<longrightarrow> a < fresh h')"
  using copy_meta_fresh(2,3)
  by (auto simp: MemGet_def split: option.splits prod.splits)

lemma mem_step_separated:
  assumes "mem_step c op c'" and "separated c"
  shows "separated c' \<and> mc_view c' = kv_spec (mc_heap c) op (mc_view c)
     \<and> mc_got c' = mc_got c @ kv_got op (mc_view c)"
  using assms
proof (induction rule: mem_step.induct)
  case (client_alloc c bs a h')
  then have "mem_view (mc_store c) h' = mc_view c"
    by (intro mem_view_cong) (auto simp: separated_def mem_ok_def alloc_def)
  with client_alloc show ?case
    by (auto simp: separated_def mem_ok_def alloc_def less_Suc_eq)
next
  case (client_write a c bs)
  then have "mem_view (mc_store c) (poke (mc_heap c) a bs) = mc_view c"
    by (intro mem_view_cong) (auto simp: separated_def poke_def)
  with client_write show ?case by (auto simp: separated_def mem_ok_def poke_def)
next
  case (storage_put v c k s' h')
  then have "fresh (mc_heap c) \<le> fresh h'"
    using copy_meta_fresh(2) by (auto simp: MemPut_def split: prod.splits)
  with storage_put MemPut_view [of "mc_store c" "mc_heap c" k v s' h'] show ?case
    by (fastforce simp: separated_def)
next
  case (storage_get c k r h')
  with MemGet_view [of "mc_store c" "mc_heap c" k r h'] MemGet_fresh [of "mc_store c" "mc_heap c" k r h']
  show ?case by (fastforce simp: separated_def split: option.splits)
next
  case (storage_delete c k)
  then show ?case
    using owned_del [of "mc_store c" k]
    by (auto simp: separated_def mem_ok_def MemDelete_def mem_view_def fun_eq_iff)
qed

text \<open>A run of operations, and the run of the abstract map beside it.\<close>

inductive mem_run :: "mem_client \<Rightarrow> (mem_op \<times> heap) list \<Rightarrow> mem_client \<Rightarrow> bool" where
  run_nil: "mem_run c [] c"
| run_snoc: "mem_run c ops c' \<Longrightarrow> mem_step c' op c'' \<Longrightarrow>
     mem_run c (ops @ [(op, mc_heap c')]) c''"

lemma mem_run_view:
  "mem_run c ops c' \<Longrightarrow> separated c \<Longrightarrow>
     separated c' \<and> (mc_view c', mc_got c') = foldl kv_step (mc_view c, mc_got c) ops"
proof (induction rule: mem_run.induct)
  case (run_snoc c ops c' op c'')
  then have "separated c'" and run: "foldl kv_step (mc_view c, mc_got c) ops = (mc_view c', mc_got c')" by simp_all
  have "(mc_view c'', mc_got c'') = kv_step (foldl kv_step (mc_view c, mc_got c) ops) (op, mc_heap c')"
    unfolding run using mem_step_separated [OF run_snoc(2) \<open>separated c'\<close>] by (simp add: kv_step_def)
  then show ?case using mem_step_separated [OF run_snoc(2) \<open>separated c'\<close>] by simp
qed simp

definition new_client :: mem_client where
  "new_client = \<lparr>mc_store = NewMemoryStorage, mc_heap = \<lparr>cells = \<lambda>_. [], fresh = 0\<rparr>, mc_known = {}, mc_got = []\<rparr>"

lemma separated_new_client: "separated new_client"
  and mc_view_new_client: "mc_view new_client = Map.empty" "mc_got new_client = []"
  by (auto simp: separated_def mem_ok_def owned_def new_client_def NewMemoryStorage_def mem_view_def)

section \<open>The storage at the level of values\<close>

text \<open>
  What a caller with a value in hand sees: it allocates the data array and calls \<open>Put\<close>,
  or calls \<open>Get\<close> and reads the array it gets.
\<close>

type_synonym mem_state = "memory_storage \<times> heap"

definition mem_put :: "mem_state \<Rightarrow> dht_key \<Rightarrow> value_meta \<Rightarrow> mem_state" where
  "mem_put sh k v =
     (case sh of (s, h) \<Rightarrow>
        let (d, h1) = (case Data v of None \<Rightarrow> (None, h)
                       | Some bs \<Rightarrow> let (a, h1) = alloc h bs in (Some a, h1))
        in MemPut s h1 k \<lparr>Inline = Inline v, Data = d, BlobRef = BlobRef v,
             BlobNode = BlobNode v, Size = Size v, MimeType = MimeType v\<rparr>)"

definition mem_get :: "mem_state \<Rightarrow> dht_key \<Rightarrow> value_meta option \<times> mem_state" where
  "mem_get sh k =
     (case sh of (s, h) \<Rightarrow> let (r, h') = MemGet s h k in (map_option (deref h') r, (s, h')))"

definition mem_delete :: "mem_state \<Rightarrow> dht_key \<Rightarrow> mem_state" where
  "mem_delete sh k = (MemDelete (fst sh) k, snd sh)"

definition mem_inv :: "mem_state \<Rightarrow> bool" where
  "mem_inv sh \<longleftrightarrow> mem_ok (fst sh) (snd sh)"

lemma mem_ok_alloc: "mem_ok s h \<Longrightarrow> mem_ok s (snd (alloc h bs))"
  by (auto simp: mem_ok_def less_Suc_eq)

lemma mem_view_alloc: "mem_ok s h \<Longrightarrow> mem_view s (snd (alloc h bs)) = mem_view s h"
  by (rule mem_view_cong) (auto simp: mem_ok_def)

lemma mem_put_view:
  assumes "mem_inv sh"
  shows "mem_view (fst (mem_put sh k v)) (snd (mem_put sh k v)) = (mem_view (fst sh) (snd sh))(k \<mapsto> v)"
    and "mem_inv (mem_put sh k v)"
proof -
  obtain s h where sh: "sh = (s, h)" by fastforce
  obtain d h1 where d: "(case Data v of None \<Rightarrow> (None, h)
      | Some bs \<Rightarrow> let (a, h1) = alloc h bs in (Some a, h1)) = (d, h1)"
    by fastforce
  let ?v = "\<lparr>Inline = Inline v, Data = d, BlobRef = BlobRef v,
             BlobNode = BlobNode v, Size = Size v, MimeType = MimeType v\<rparr>"
  have h1: "mem_ok s h1" "mem_view s h1 = mem_view s h" "deref h1 ?v = v"
    using d assms mem_ok_alloc [of s h] mem_view_alloc [of s h]
    by (auto simp: mem_inv_def sh deref_def alloc_def split: option.splits)
  obtain s' h' where p: "MemPut s h1 k ?v = (s', h')" by fastforce
  then have "mem_put sh k v = (s', h')" by (simp add: mem_put_def sh d)
  with MemPut_view [OF h1(1) p] h1 show
    "mem_view (fst (mem_put sh k v)) (snd (mem_put sh k v)) = (mem_view (fst sh) (snd sh))(k \<mapsto> v)"
    "mem_inv (mem_put sh k v)"
    by (auto simp: mem_inv_def sh)
qed

interpretation mem: kv_store mem_inv "\<lambda>sh. mem_view (fst sh) (snd sh)" "\<lambda>v. v"
  mem_get mem_put mem_delete
proof
  fix sh :: mem_state and k
  assume inv: "mem_inv sh"
  obtain s h where sh: "sh = (s, h)" by fastforce
  obtain r h' where g: "MemGet s h k = (r, h')" by fastforce
  have ok: "mem_ok s h" using inv by (simp add: mem_inv_def sh)
  show "fst (mem_get sh k) = mem_view (fst sh) (snd sh) k"
    "mem_view (fst (snd (mem_get sh k))) (snd (snd (mem_get sh k))) = mem_view (fst sh) (snd sh)"
    "mem_inv (snd (mem_get sh k))"
    using MemGet_view(1-3) [OF ok g] by (simp_all add: mem_get_def sh g mem_inv_def)
  show "mem_view (fst (mem_delete sh k)) (snd (mem_delete sh k)) = (mem_view (fst sh) (snd sh))(k := None)"
    by (auto simp: mem_delete_def MemDelete_def mem_view_def fun_eq_iff)
  show "mem_inv (mem_delete sh k)"
    using inv owned_del [of s k]
    by (auto simp: mem_inv_def mem_ok_def mem_delete_def MemDelete_def sh)
qed (simp_all add: mem_put_view)

end
