(* ===== verification/Codec.thy ===== *)
theory Codec
  imports Storage
begin

text \<open>
  The JSON form of the values the node stores: \<open>ValueMeta\<close> with its struct tags
  (\<open>dht/storage.go\<close>), where a byte slice is a base64 string.
\<close>

section \<open>base64.StdEncoding\<close>

definition b64_alphabet :: string where
  "b64_alphabet = ''ABCDEFGHIJKLMNOPQRSTUVWXYZabcdefghijklmnopqrstuvwxyz0123456789+/''"

definition b64_digit :: "nat \<Rightarrow> char" where
  "b64_digit n = b64_alphabet ! (n mod 64)"

definition b64_val :: "char \<Rightarrow> nat option" where
  "b64_val c =
     (let n = (of_char c :: nat) in
      if 65 \<le> n \<and> n \<le> 90 then Some (n - 65)
      else if 97 \<le> n \<and> n \<le> 122 then Some (n - 71)
      else if 48 \<le> n \<and> n \<le> 57 then Some (n + 4)
      else if n = 43 then Some 62
      else if n = 47 then Some 63
      else None)"

fun b64_encode :: "bytes \<Rightarrow> string" where
  "b64_encode [] = []"
| "b64_encode [a] =
     [b64_digit (unat a div 4), b64_digit (unat a mod 4 * 16), CHR ''='', CHR ''='']"
| "b64_encode [a, b] =
     [b64_digit (unat a div 4), b64_digit (unat a mod 4 * 16 + unat b div 16),
      b64_digit (unat b mod 16 * 4), CHR ''='']"
| "b64_encode (a # b # c # r) =
     b64_digit (unat a div 4) # b64_digit (unat a mod 4 * 16 + unat b div 16)
     # b64_digit (unat b mod 16 * 4 + unat c div 64) # b64_digit (unat c mod 64)
     # b64_encode r"

text \<open>Groups of four digits; the last may be padded. Line breaks are skipped.\<close>

fun b64_groups :: "string \<Rightarrow> bytes option" where
  "b64_groups [] = Some []"
| "b64_groups (p # q # r # s # rest) =
     (case (b64_val p, b64_val q) of
        (Some x, Some y) \<Rightarrow>
          (if r = CHR ''='' then
             (if s = CHR ''='' \<and> rest = [] then Some [of_nat (x * 4 + y div 16)] else None)
           else
             (case b64_val r of
                None \<Rightarrow> None
              | Some z \<Rightarrow>
                  (if s = CHR ''='' then
                     (if rest = [] then Some [of_nat (x * 4 + y div 16), of_nat (y mod 16 * 16 + z div 4)]
                      else None)
                   else
                     (case b64_val s of
                        None \<Rightarrow> None
                      | Some w \<Rightarrow>
                          map_option (\<lambda>bs. of_nat (x * 4 + y div 16) # of_nat (y mod 16 * 16 + z div 4)
                              # of_nat (z mod 4 * 64 + w) # bs) (b64_groups rest)))))
      | _ \<Rightarrow> None)"
| "b64_groups s = None"

definition b64_decode :: "string \<Rightarrow> bytes option" where
  "b64_decode s = b64_groups (filter (\<lambda>c. c \<noteq> CHR 0x0A \<and> c \<noteq> CHR 0x0D) s)"

lemma b64_val_digit: "b64_val (b64_digit n) = Some (n mod 64)"
proof -
  have "\<forall>m \<in> set [0..<64]. b64_val (b64_alphabet ! m) = Some m"
    by (simp add: b64_alphabet_def b64_val_def upt_rec)
  moreover have "n mod 64 \<in> set [0..<64]" by simp
  ultimately show ?thesis unfolding b64_digit_def by blast
qed

lemma b64_digit_plain [simp]:
  "b64_digit n \<noteq> CHR ''=''" "b64_digit n \<noteq> CHR 0x0A" "b64_digit n \<noteq> CHR 0x0D"
proof -
  have "b64_val (CHR ''='') = None" "b64_val (CHR 0x0A) = None" "b64_val (CHR 0x0D) = None"
    by (simp_all add: b64_val_def)
  then show "b64_digit n \<noteq> CHR ''=''" "b64_digit n \<noteq> CHR 0x0A" "b64_digit n \<noteq> CHR 0x0D"
    using b64_val_digit [of n] by auto
qed

lemma split_16: "(n :: nat) < 16 \<Longrightarrow> (m * 16 + n) div 16 = m \<and> (m * 16 + n) mod 16 = n"
  by simp

lemma split_4: "(n :: nat) < 4 \<Longrightarrow> (m * 4 + n) div 4 = m \<and> (m * 4 + n) mod 4 = n"
  by simp

lemma b64_arith:
  fixes a b c :: nat
  assumes "a < 256" "b < 256" "c < 256"
  shows "(a div 4) mod 64 * 4 + (a mod 4 * 16 + b div 16) mod 64 div 16 = a"
    and "(a mod 4 * 16 + b div 16) mod 64 mod 16 * 16 + (b mod 16 * 4 + c div 64) mod 64 div 4 = b"
    and "(b mod 16 * 4 + c div 64) mod 64 mod 4 * 64 + (c mod 64) mod 64 = c"
proof -
  have 1: "b div 16 < 16" "c div 64 < 4" "a div 4 < 64" using assms by auto
  moreover have "a mod 4 < 4" "b mod 16 < 16" by simp_all
  ultimately have "a mod 4 * 16 + b div 16 < 64" "b mod 16 * 4 + c div 64 < 64"
    by linarith+
  then have 2: "(a mod 4 * 16 + b div 16) mod 64 = a mod 4 * 16 + b div 16"
    "(b mod 16 * 4 + c div 64) mod 64 = b mod 16 * 4 + c div 64"
    by simp_all
  show "(a div 4) mod 64 * 4 + (a mod 4 * 16 + b div 16) mod 64 div 16 = a"
    unfolding 2 split_16 [OF 1(1), THEN conjunct1] using 1(3) by simp
  show "(a mod 4 * 16 + b div 16) mod 64 mod 16 * 16 + (b mod 16 * 4 + c div 64) mod 64 div 4 = b"
    unfolding 2 split_16 [OF 1(1), THEN conjunct2] split_4 [OF 1(2), THEN conjunct1] by simp
  show "(b mod 16 * 4 + c div 64) mod 64 mod 4 * 64 + (c mod 64) mod 64 = c"
    unfolding 2 split_4 [OF 1(2), THEN conjunct2] by simp
qed

text \<open>The three bytes of a group, from the values of its four digits.\<close>

lemma b64_bytes:
  fixes a b c :: byte
  shows "of_nat ((unat a div 4) mod 64 * 4 + (unat a mod 4 * 16 + unat b div 16) mod 64 div 16) = a"
    and "of_nat ((unat a mod 4 * 16 + unat b div 16) mod 64 mod 16 * 16
      + (unat b mod 16 * 4 + unat c div 64) mod 64 div 4) = b"
    and "of_nat ((unat b mod 16 * 4 + unat c div 64) mod 64 mod 4 * 64 + (unat c mod 64) mod 64) = c"
  unfolding b64_arith [OF unat_byte_less unat_byte_less unat_byte_less] by simp_all

lemma b64_groups_encode: "b64_groups (b64_encode bs) = Some bs"
proof (induction bs rule: b64_encode.induct)
  case (2 a)
  then show ?case using b64_bytes(1) [of a 0]
    by (simp only: b64_encode.simps b64_groups.simps b64_val_digit option.case prod.case b64_digit_plain
        if_True if_False unat_0 div_0 add_0_right simp_thms)
next
  case (3 a b)
  then show ?case using b64_bytes(1) [of a b] b64_bytes(2) [of a b 0]
    by (simp only: b64_encode.simps b64_groups.simps b64_val_digit option.case prod.case b64_digit_plain
        if_True if_False unat_0 div_0 add_0_right simp_thms)
next
  case (4 a b c r)
  then show ?case
    by (simp only: b64_encode.simps b64_groups.simps b64_val_digit option.case prod.case b64_digit_plain
        if_False b64_bytes option.map)
qed simp

lemma b64_encode_no_newline:
  "filter (\<lambda>c. c \<noteq> CHR 0x0A \<and> c \<noteq> CHR 0x0D) (b64_encode bs) = b64_encode bs"
  by (induction bs rule: b64_encode.induct) simp_all

lemma b64_decode_encode [simp]: "b64_decode (b64_encode bs) = Some bs"
  by (simp add: b64_decode_def b64_encode_no_newline b64_groups_encode)

section \<open>Fields of an object\<close>

text \<open>
  The value of a field: the last one of that name (the decoder's fold of upper and lower
  case in field names is left out). A field that is absent or null keeps the zero value.
\<close>

definition field :: "(string \<times> json) list \<Rightarrow> string \<Rightarrow> json" where
  "field kvs name = (case map_of (rev kvs) name of Some j \<Rightarrow> j | None \<Rightarrow> JNull)"

definition type_error :: go_error where
  "type_error = ErrText ''json: cannot unmarshal value into Go struct field''"

definition get_bool :: "json \<Rightarrow> go_error + bool" where
  "get_bool j = (case j of JNull \<Rightarrow> Inr False | JBool b \<Rightarrow> Inr b | _ \<Rightarrow> Inl type_error)"

definition get_string :: "json \<Rightarrow> go_error + string" where
  "get_string j = (case j of JNull \<Rightarrow> Inr [] | JStr s \<Rightarrow> Inr s | _ \<Rightarrow> Inl type_error)"

definition get_int64 :: "json \<Rightarrow> go_error + 64 word" where
  "get_int64 j =
     (case j of JNull \<Rightarrow> Inr 0
      | JInt i \<Rightarrow> if - (2 ^ 63) \<le> i \<and> i < 2 ^ 63 then Inr (word_of_int i) else Inl type_error
      | _ \<Rightarrow> Inl type_error)"

text \<open>A key is decoded by its \<open>UnmarshalJSON\<close>, which an absent field does not call.\<close>

definition get_key :: "(string \<times> json) list \<Rightarrow> string \<Rightarrow> go_error + dht_key" where
  "get_key kvs name =
     (case map_of (rev kvs) name of
        None \<Rightarrow> Inr (key_of_slice [])
      | Some j \<Rightarrow> UnmarshalJSON j)"

fun get_byte_array :: "json list \<Rightarrow> bytes option" where
  "get_byte_array [] = Some []"
| "get_byte_array (JInt i # js) =
     (if 0 \<le> i \<and> i < 256 then map_option ((#) (of_int i)) (get_byte_array js) else None)"
| "get_byte_array (JNull # js) = map_option ((#) 0) (get_byte_array js)"
| "get_byte_array _ = None"

text \<open>A byte slice: null gives nil, a string is base64, an array is read byte by byte.\<close>

definition get_bytes :: "json \<Rightarrow> go_error + bytes option" where
  "get_bytes j =
     (case j of JNull \<Rightarrow> Inr None
      | JStr s \<Rightarrow> (case b64_decode s of Some bs \<Rightarrow> Inr (Some bs) | None \<Rightarrow> Inl (ErrText ''illegal base64 data''))
      | JArr js \<Rightarrow> (case get_byte_array js of Some bs \<Rightarrow> Inr (Some bs) | None \<Rightarrow> Inl type_error)
      | _ \<Rightarrow> Inl type_error)"

text \<open>Sequencing of decoders: the first error wins.\<close>

definition or_else :: "go_error + 'a \<Rightarrow> ('a \<Rightarrow> go_error + 'b) \<Rightarrow> go_error + 'b" where
  "or_else r f = (case r of Inl e \<Rightarrow> Inl e | Inr x \<Rightarrow> f x)"

lemma or_else_simps [simp]: "or_else (Inl e) f = Inl e" "or_else (Inr x) f = f x"
  by (simp_all add: or_else_def)

section \<open>ValueMeta\<close>

text \<open>
  \<open>json.Marshal(value)\<close>: \<open>omitempty\<close> drops empty data, empty strings and a zero size; it
  has no effect on the array \<open>BlobNode\<close>.
\<close>

definition omit :: "bool \<Rightarrow> string \<Rightarrow> json \<Rightarrow> (string \<times> json) list" where
  "omit is_empty name j = (if is_empty then [] else [(name, j)])"

definition meta_to_json :: "value_meta \<Rightarrow> json" where
  "meta_to_json v = JObj
     ([(''inline'', JBool (Inline v))]
      @ omit (slice_bytes (Data v) = []) ''data'' (JStr (b64_encode (slice_bytes (Data v))))
      @ omit (BlobRef v = []) ''blob_ref'' (JStr (BlobRef v))
      @ [(''blob_node'', MarshalJSON (BlobNode v))]
      @ omit (Size v = 0) ''size'' (JInt (sint (Size v)))
      @ omit (MimeType v = []) ''mime_type'' (JStr (MimeType v)))"

definition meta_of_fields :: "(string \<times> json) list \<Rightarrow> go_error + value_meta" where
  "meta_of_fields kvs =
     or_else (get_bool (field kvs ''inline'')) (\<lambda>inl.
     or_else (get_bytes (field kvs ''data'')) (\<lambda>d.
     or_else (get_string (field kvs ''blob_ref'')) (\<lambda>ref.
     or_else (get_key kvs ''blob_node'') (\<lambda>bn.
     or_else (get_int64 (field kvs ''size'')) (\<lambda>sz.
     or_else (get_string (field kvs ''mime_type'')) (\<lambda>mt.
       Inr \<lparr>Inline = inl, Data = d, BlobRef = ref, BlobNode = bn, Size = sz, MimeType = mt\<rparr>))))))"

definition zero_meta :: value_meta where
  "zero_meta = \<lparr>Inline = False, Data = None, BlobRef = [], BlobNode = key_of_slice [],
     Size = 0, MimeType = []\<rparr>"

text \<open>\<open>var meta ValueMeta; json.Unmarshal(data, &meta)\<close>.\<close>

definition meta_of_json :: "json \<Rightarrow> go_error + value_meta" where
  "meta_of_json j =
     (case j of JNull \<Rightarrow> Inr zero_meta | JObj kvs \<Rightarrow> meta_of_fields kvs | _ \<Rightarrow> Inl type_error)"

text \<open>What survives: empty data that is not nil comes back nil.\<close>

definition norm_meta :: "value_meta \<Rightarrow> value_meta" where
  "norm_meta v = v\<lparr>Data := (if slice_bytes (Data v) = [] then None else Data v)\<rparr>"

lemma get_int64_sint [simp]: "get_int64 (JInt (sint (w :: 64 word))) = Inr w"
  using sint_greater_eq [of w] sint_less [of w] by (simp add: get_int64_def)

lemma UnmarshalJSON_MarshalJSON [simp]: "UnmarshalJSON (MarshalJSON k) = Inr k"
  by (simp add: UnmarshalJSON_def MarshalJSON_def unmarshal_string_def)

lemmas meta_json_defs = meta_of_json_def meta_to_json_def meta_of_fields_def field_def get_key_def
  omit_def get_bool_def get_string_def get_bytes_def norm_meta_def

lemma get_int64_null [simp]: "get_int64 JNull = Inr 0"
  by (simp add: get_int64_def)

lemma meta_of_to_json: "meta_of_json (meta_to_json v) = Inr (norm_meta v)"
proof (cases v)
  case (fields inl d ref bn sz mt)
  have "d = None \<or> d = Some [] \<or> (\<exists>b bs. d = Some (b # bs))" by (metis list.exhaust option.exhaust)
  then show ?thesis
    by (elim disjE exE; cases "ref = []"; cases "sz = 0"; cases "mt = []")
      (simp_all add: fields meta_json_defs)
qed

lemma norm_meta_idem [simp]: "norm_meta (norm_meta v) = norm_meta v"
  by (simp add: norm_meta_def)

end
