(* ===== verification/File_Path.thy ===== *)
theory File_Path
  imports Prelude
begin

text \<open>
  \<open>path/filepath\<close> on Unix as \<open>dht/disk_storage.go\<close> uses it: \<open>Clean\<close> and \<open>Join\<close>. A path is
  read as a root flag and a stack of components, last component first; \<open>Clean\<close> is
  reading and rendering.
\<close>

fun split_path :: "string \<Rightarrow> string list" where
  "split_path [] = [[]]"
| "split_path (c # s) =
     (if c = CHR ''/'' then [] # split_path s
      else (case split_path s of x # xs \<Rightarrow> (c # x) # xs | [] \<Rightarrow> [[c]]))"

text \<open>One component: empty and \<open>.\<close> are dropped, \<open>..\<close> takes back the component before it.\<close>

definition clean_step :: "bool \<Rightarrow> string list \<Rightarrow> string \<Rightarrow> string list" where
  "clean_step rooted st c =
     (if c = [] \<or> c = ''.'' then st
      else if c = ''..'' then
        (case st of
           [] \<Rightarrow> if rooted then [] else [''..'']
         | t # st' \<Rightarrow> if t = ''..'' then ''..'' # st else st')
      else c # st)"

definition is_rooted :: "string \<Rightarrow> bool" where
  "is_rooted p \<longleftrightarrow> p \<noteq> [] \<and> hd p = CHR ''/''"

definition path_stack :: "string \<Rightarrow> string list" where
  "path_stack p = foldl (clean_step (is_rooted p)) [] (split_path p)"

fun join_slash :: "string list \<Rightarrow> string" where
  "join_slash [] = []"
| "join_slash [x] = x"
| "join_slash (x # y # xs) = x @ CHR ''/'' # join_slash (y # xs)"

definition render_path :: "bool \<Rightarrow> string list \<Rightarrow> string" where
  "render_path rooted st =
     (if rooted then CHR ''/'' # join_slash (rev st)
      else if st = [] then ''.'' else join_slash (rev st))"

definition Clean :: "string \<Rightarrow> string" where
  "Clean p = render_path (is_rooted p) (path_stack p)"

text \<open>\<open>filepath.Join(d, e)\<close>: leading empty elements are skipped.\<close>

definition Join :: "string \<Rightarrow> string \<Rightarrow> string" where
  "Join d e =
     (if d = [] then (if e = [] then [] else Clean e)
      else Clean (d @ CHR ''/'' # e))"

section \<open>Simple names\<close>

text \<open>A name that is one component and stays one.\<close>

definition simple_name :: "string \<Rightarrow> bool" where
  "simple_name s \<longleftrightarrow> s \<noteq> [] \<and> s \<noteq> ''.'' \<and> s \<noteq> ''..'' \<and> CHR ''/'' \<notin> set s"

text \<open>The stacks \<open>clean_step\<close> builds: \<open>..\<close> stands only below, and never under a root.\<close>

fun clean_stack :: "bool \<Rightarrow> string list \<Rightarrow> bool" where
  "clean_stack r [] = True"
| "clean_stack r (c # st) =
     (c \<noteq> [] \<and> c \<noteq> ''.'' \<and> CHR ''/'' \<notin> set c \<and> (c = ''..'' \<longrightarrow> \<not> r \<and> set st \<subseteq> {''..''})
      \<and> clean_stack r st)"

lemma split_path_nonempty [simp]: "split_path p \<noteq> []"
  by (cases p) (auto split: list.splits)

lemma split_path_no_slash: "c \<in> set (split_path p) \<Longrightarrow> CHR ''/'' \<notin> set c"
proof (induction p arbitrary: c)
  case (Cons x p)
  then show ?case by (cases "split_path p") (auto split: if_splits)
qed simp

lemma split_path_single: "CHR ''/'' \<notin> set s \<Longrightarrow> split_path s = [s]"
  by (induction s) auto

lemma split_path_append: "split_path (p @ CHR ''/'' # q) = split_path p @ split_path q"
proof (induction p)
  case (Cons x p)
  then show ?case by (cases "split_path p") auto
qed simp

lemma split_join_slash:
  "xs \<noteq> [] \<Longrightarrow> (\<And>x. x \<in> set xs \<Longrightarrow> CHR ''/'' \<notin> set x) \<Longrightarrow> split_path (join_slash xs) = xs"
  by (induction xs rule: join_slash.induct)
    (auto simp: split_path_single split_path_append)

lemma clean_stack_step: "clean_stack r st \<Longrightarrow> CHR ''/'' \<notin> set c \<Longrightarrow> clean_stack r (clean_step r st c)"
  by (cases st) (auto simp: clean_step_def)

lemma clean_stack_foldl:
  "clean_stack r st \<Longrightarrow> (\<And>c. c \<in> set cs \<Longrightarrow> CHR ''/'' \<notin> set c) \<Longrightarrow>
     clean_stack r (foldl (clean_step r) st cs)"
  by (induction cs arbitrary: st) (auto intro: clean_stack_step)

lemma clean_stack_path [simp]: "clean_stack (is_rooted p) (path_stack p)"
  unfolding path_stack_def
  by (rule clean_stack_foldl) (auto dest: split_path_no_slash)

lemma foldl_clean_stack: "clean_stack r st \<Longrightarrow> foldl (clean_step r) [] (rev st) = st"
proof (induction st)
  case (Cons c st)
  then have "clean_step r st c = c # st"
    by (cases st) (auto simp: clean_step_def)
  with Cons show ?case by simp
qed simp

lemma clean_stack_no_slash: "clean_stack r st \<Longrightarrow> c \<in> set st \<Longrightarrow> CHR ''/'' \<notin> set c \<and> c \<noteq> []"
  by (induction st) auto

lemma join_slash_hd: "xs \<noteq> [] \<Longrightarrow> hd xs \<noteq> [] \<Longrightarrow> join_slash xs \<noteq> [] \<and> hd (join_slash xs) = hd (hd xs)"
  by (cases xs rule: join_slash.cases) auto

text \<open>Reading a rendered path gives back what was rendered.\<close>

lemma is_rooted_render: "clean_stack r st \<Longrightarrow> is_rooted (render_path r st) = r"
proof (cases "r \<or> st = []")
  case False
  assume st: "clean_stack r st"
  with False have "hd (rev st) \<in> set st" by (metis hd_in_set rev_is_Nil_conv set_rev)
  then have "hd (rev st) \<noteq> []" "CHR ''/'' \<notin> set (hd (rev st))"
    using clean_stack_no_slash [OF st] by auto
  then show ?thesis
    using False join_slash_hd [of "rev st"]
    by (auto simp: render_path_def is_rooted_def dest: list.set_sel(1))
qed (auto simp: render_path_def is_rooted_def)

lemma path_stack_render: "clean_stack r st \<Longrightarrow> path_stack (render_path r st) = st"
proof -
  assume st: "clean_stack r st"
  have split: "split_path (join_slash (rev st)) = rev st" if "st \<noteq> []"
    using that clean_stack_no_slash [OF st] by (intro split_join_slash) auto
  have rooted: "is_rooted (render_path r st) = r" by (rule is_rooted_render [OF st])
  show ?thesis
  proof (cases "st = []")
    case True
    then show ?thesis
      by (cases r) (simp_all add: path_stack_def render_path_def clean_step_def)
  next
    case False
    then have "foldl (clean_step r) [] (split_path (render_path r st)) = foldl (clean_step r) [] (rev st)"
      using split by (auto simp: render_path_def clean_step_def)
    with rooted foldl_clean_stack [OF st] show ?thesis by (simp add: path_stack_def)
  qed
qed

lemma render_path_inject:
  "clean_stack r st \<Longrightarrow> clean_stack r' st' \<Longrightarrow> render_path r st = render_path r' st' \<longleftrightarrow> r = r' \<and> st = st'"
proof
  assume st: "clean_stack r st" "clean_stack r' st'" and "render_path r st = render_path r' st'"
  then show "r = r' \<and> st = st'"
    using is_rooted_render [OF st(1)] is_rooted_render [OF st(2)]
      path_stack_render [OF st(1)] path_stack_render [OF st(2)] by simp
qed simp

text \<open>Joining: the stack of the directory, and the components of the name on top of it.\<close>

lemma Join_render:
  assumes "clean_stack r st"
  shows "Join (render_path r st) e = render_path r (foldl (clean_step r) st (split_path e))"
proof -
  let ?d = "render_path r st"
  have d: "?d \<noteq> []"
  proof (cases "r \<or> st = []")
    case False
    then have "hd (rev st) \<in> set st" by (metis hd_in_set rev_is_Nil_conv set_rev)
    with False join_slash_hd [of "rev st"] clean_stack_no_slash [OF assms] show ?thesis
      by (auto simp: render_path_def)
  qed (auto simp: render_path_def)
  then have rooted: "is_rooted (?d @ CHR ''/'' # e) = r"
    using is_rooted_render [OF assms] by (auto simp: is_rooted_def)
  have "path_stack (?d @ CHR ''/'' # e) = foldl (clean_step r) st (split_path e)"
    using path_stack_render [OF assms] is_rooted_render [OF assms]
    by (simp add: path_stack_def rooted split_path_append)
  then show ?thesis using d by (simp add: Join_def Clean_def rooted)
qed

lemma clean_step_simple: "simple_name c \<Longrightarrow> clean_step r st c = c # st"
  by (simp add: clean_step_def simple_name_def)

lemma Join_simple:
  "clean_stack r st \<Longrightarrow> simple_name e \<Longrightarrow> Join (render_path r st) e = render_path r (e # st)"
  by (simp add: Join_render split_path_single simple_name_def clean_step_simple [unfolded simple_name_def])

lemma clean_stack_simple: "clean_stack r st \<Longrightarrow> simple_name e \<Longrightarrow> clean_stack r (e # st)"
  by (auto simp: simple_name_def)

lemma Join_Clean: "simple_name e \<Longrightarrow> Join d e = render_path (is_rooted d) (e # path_stack d)"
proof (cases "d = []")
  case True
  assume e: "simple_name e"
  then have "\<not> is_rooted e" by (cases e) (auto simp: is_rooted_def simple_name_def)
  with True e show ?thesis
    by (simp add: Join_def Clean_def path_stack_def split_path_single clean_step_simple
        is_rooted_def [of "[]"] clean_step_def simple_name_def)
next
  case False
  assume e: "simple_name e"
  from False have "is_rooted (d @ CHR ''/'' # e) = is_rooted d" by (auto simp: is_rooted_def)
  with False e show ?thesis
    by (simp add: Join_def Clean_def path_stack_def split_path_append split_path_single
        clean_step_simple simple_name_def [of e])
qed

end
