(* ===== verification/Disk_Storage.thy ===== *)
theory Disk_Storage
  imports Codec File_Path
begin

text \<open>
  \<open>dht/disk_storage.go\<close> over a file system: metadata as JSON files named by the key, blobs
  as files named by the hexadecimal SHA-256 of their contents. SHA-256 is an argument.
\<close>

section \<open>The file system\<close>

text \<open>
  Paths are the strings \<open>Join\<close> produces. Each \<open>os.WriteFile\<close> takes its outcome from a tape
  the environment fixes: it works, the file cannot be opened, or the write stops after some
  bytes of the truncated file. An empty tape means no more failures.
\<close>

datatype write_outcome = WriteOk | OpenFails | WritesOnly nat

record file_system =
  files :: "string \<rightharpoonup> bytes"
  faults :: "write_outcome list"

definition io_error :: go_error where
  "io_error = ErrText ''input/output error''"

definition no_such_file :: go_error where
  "no_such_file = ErrText ''no such file or directory''"

definition WriteFile :: "file_system \<Rightarrow> string \<Rightarrow> bytes \<Rightarrow> go_error option \<times> file_system" where
  "WriteFile fs path data =
     (case faults fs of
        [] \<Rightarrow> (None, fs\<lparr>files := (files fs)(path \<mapsto> data)\<rparr>)
      | WriteOk # r \<Rightarrow> (None, fs\<lparr>files := (files fs)(path \<mapsto> data), faults := r\<rparr>)
      | OpenFails # r \<Rightarrow> (Some io_error, fs\<lparr>faults := r\<rparr>)
      | WritesOnly n # r \<Rightarrow>
          (Some io_error, fs\<lparr>files := (files fs)(path \<mapsto> take n data), faults := r\<rparr>))"

definition ReadFile :: "file_system \<Rightarrow> string \<Rightarrow> go_error + bytes" where
  "ReadFile fs path = (case files fs path of None \<Rightarrow> Inl no_such_file | Some d \<Rightarrow> Inr d)"

definition Stat :: "file_system \<Rightarrow> string \<Rightarrow> go_error option" where
  "Stat fs path = (if files fs path = None then Some no_such_file else None)"

definition Remove :: "file_system \<Rightarrow> string \<Rightarrow> file_system" where
  "Remove fs path = fs\<lparr>files := (files fs)(path := None)\<rparr>"

section \<open>The storage\<close>

record disk_storage =
  metaDir :: string
  blobDir :: string
  fs :: file_system

text \<open>The results of the two \<open>MkdirAll\<close> calls are dropped: without the directories the writes fail.\<close>

definition NewDiskStorage :: "string \<Rightarrow> file_system \<Rightarrow> disk_storage" where
  "NewDiskStorage baseDir fsys =
     \<lparr>metaDir = Join baseDir ''meta'', blobDir = Join baseDir ''blobs'', fs = fsys\<rparr>"

definition metaPath :: "disk_storage \<Rightarrow> dht_key \<Rightarrow> string" where
  "metaPath s key = Join (metaDir s) (hex_encode (key_bytes key))"

definition blobPath :: "disk_storage \<Rightarrow> string \<Rightarrow> string" where
  "blobPath s ref = Join (blobDir s) ref"

definition DiskGet :: "disk_storage \<Rightarrow> dht_key \<Rightarrow> value_meta option" where
  "DiskGet s key =
     (case ReadFile (fs s) (metaPath s key) of
        Inl e \<Rightarrow> None
      | Inr data \<Rightarrow>
          (case parse_json (string_of_bytes data) of
             None \<Rightarrow> None
           | Some j \<Rightarrow> (case meta_of_json j of Inl e \<Rightarrow> None | Inr meta \<Rightarrow> Some meta)))"

text \<open>Marshalling a \<open>ValueMeta\<close> cannot fail; the result of the write is dropped.\<close>

definition DiskPut :: "disk_storage \<Rightarrow> dht_key \<Rightarrow> value_meta \<Rightarrow> disk_storage" where
  "DiskPut s key value =
     s\<lparr>fs := snd (WriteFile (fs s) (metaPath s key)
                   (bytes_of_string (print_json (meta_to_json value))))\<rparr>"

definition DiskDelete :: "disk_storage \<Rightarrow> dht_key \<Rightarrow> disk_storage" where
  "DiskDelete s key = s\<lparr>fs := Remove (fs s) (metaPath s key)\<rparr>"

definition blob_ref :: "(bytes \<Rightarrow> bytes) \<Rightarrow> bytes \<Rightarrow> string" where
  "blob_ref sha256 data = hex_encode (copy_into 32 (sha256 data))"

definition PutBlob ::
  "(bytes \<Rightarrow> bytes) \<Rightarrow> disk_storage \<Rightarrow> bytes \<Rightarrow> (go_error + string) \<times> disk_storage" where
  "PutBlob sha256 s data =
     (let ref = blob_ref sha256 data; path = blobPath s ref in
      if Stat (fs s) path = None then (Inr ref, s)
      else
        (case WriteFile (fs s) path data of
           (Some e, fs') \<Rightarrow> (Inl (ErrWrap ''putblob'' e), s\<lparr>fs := fs'\<rparr>)
         | (None, fs') \<Rightarrow> (Inr ref, s\<lparr>fs := fs'\<rparr>)))"

definition GetBlob :: "disk_storage \<Rightarrow> string \<Rightarrow> go_error + bytes" where
  "GetBlob s ref =
     (case ReadFile (fs s) (blobPath s ref) of Inl e \<Rightarrow> Inl ErrNotFound | Inr data \<Rightarrow> Inr data)"

section \<open>Where the files are\<close>

text \<open>\<open>based b s\<close>: the two directories are those \<open>NewDiskStorage b\<close> chose.\<close>

definition based :: "string \<Rightarrow> disk_storage \<Rightarrow> bool" where
  "based b s \<longleftrightarrow> metaDir s = Join b ''meta'' \<and> blobDir s = Join b ''blobs''"

lemma simple_meta_blobs: "simple_name ''meta''" "simple_name ''blobs''"
  by (simp_all add: simple_name_def)

lemma simple_hex_encode: "bs \<noteq> [] \<Longrightarrow> simple_name (hex_encode bs)"
proof -
  assume "bs \<noteq> []"
  then have "hex_encode bs \<noteq> []" by (cases bs) auto
  moreover have "CHR ''.'' \<notin> set (hex_encode bs)" "CHR ''/'' \<notin> set (hex_encode bs)"
    using set_hex_encode [of _ bs] by (auto simp: is_hex_char_def hex_digits_def dest!: set_hex_encode)
  ultimately show ?thesis unfolding simple_name_def by auto
qed

lemma simple_key_name: "simple_name (hex_encode (key_bytes k))"
  by (rule simple_hex_encode) (metis length_key_bytes list.size(3) zero_neq_numeral)

lemma simple_blob_ref: "simple_name (blob_ref sha d)"
  unfolding blob_ref_def
  by (rule simple_hex_encode) (metis length_copy_into list.size(3) zero_neq_numeral)

lemma metaPath_render:
  "based b s \<Longrightarrow> metaPath s k
     = render_path (is_rooted b) (hex_encode (key_bytes k) # ''meta'' # path_stack b)"
proof -
  assume "based b s"
  then have "metaDir s = render_path (is_rooted b) (''meta'' # path_stack b)"
    by (simp add: based_def Join_Clean simple_meta_blobs)
  then show ?thesis
    by (simp add: metaPath_def Join_simple clean_stack_simple simple_meta_blobs simple_key_name
        del: clean_stack.simps)
qed

lemma blobPath_render:
  "based b s \<Longrightarrow> blobPath s ref
     = render_path (is_rooted b)
         (foldl (clean_step (is_rooted b)) (''blobs'' # path_stack b) (split_path ref))"
proof -
  assume "based b s"
  then have "blobDir s = render_path (is_rooted b) (''blobs'' # path_stack b)"
    by (simp add: based_def Join_Clean simple_meta_blobs)
  then show ?thesis
    by (simp add: blobPath_def Join_render clean_stack_simple simple_meta_blobs
        del: clean_stack.simps)
qed

lemma blobPath_simple:
  "based b s \<Longrightarrow> simple_name ref \<Longrightarrow> blobPath s ref
     = render_path (is_rooted b) (ref # ''blobs'' # path_stack b)"
  by (simp add: blobPath_render split_path_single clean_step_simple simple_name_def)

lemma clean_under:
  "simple_name x \<Longrightarrow> simple_name d \<Longrightarrow> clean_stack (is_rooted b) (x # d # path_stack b)"
  by (simp add: clean_stack_simple del: clean_stack.simps)

lemma metaPath_inject: "based b s \<Longrightarrow> metaPath s k = metaPath s k' \<longleftrightarrow> k = k'"
  by (simp add: metaPath_render render_path_inject clean_under simple_key_name simple_meta_blobs
      key_eq_iff del: clean_stack.simps)

lemma blobPath_inject:
  "based b s \<Longrightarrow> simple_name r \<Longrightarrow> simple_name r' \<Longrightarrow> blobPath s r = blobPath s r' \<longleftrightarrow> r = r'"
  by (simp add: blobPath_simple render_path_inject clean_under simple_meta_blobs
      del: clean_stack.simps)

lemma metaPath_not_blobPath: "based b s \<Longrightarrow> simple_name r \<Longrightarrow> metaPath s k \<noteq> blobPath s r"
  by (simp add: metaPath_render blobPath_simple render_path_inject clean_under simple_key_name
      simple_meta_blobs del: clean_stack.simps)


section \<open>The contract of the storage\<close>

text \<open>
  Without write failures the storage is a map and a blob store. \<open>blobs_ok\<close>: a file whose
  name is a reference holds contents with that reference.
\<close>

definition blobs_ok :: "(bytes \<Rightarrow> bytes) \<Rightarrow> disk_storage \<Rightarrow> bool" where
  "blobs_ok sha s \<longleftrightarrow>
     (\<forall>d d'. files (fs s) (blobPath s (blob_ref sha d)) = Some d' \<longrightarrow> blob_ref sha d' = blob_ref sha d)"

definition disk_inv :: "(bytes \<Rightarrow> bytes) \<Rightarrow> disk_storage \<Rightarrow> bool" where
  "disk_inv sha s \<longleftrightarrow> (\<exists>b. based b s) \<and> faults (fs s) = [] \<and> blobs_ok sha s"

text \<open>Operations change files only; the directories and so the paths stay.\<close>

lemma based_fs [simp]: "based b (s\<lparr>fs := f\<rparr>) = based b s"
  "metaPath (s\<lparr>fs := f\<rparr>) k = metaPath s k" "blobPath (s\<lparr>fs := f\<rparr>) r = blobPath s r"
  by (simp_all add: based_def metaPath_def blobPath_def)

lemma based_ops [simp]:
  "based b (DiskPut s k v) = based b s" "based b (DiskDelete s k) = based b s"
  "based b (snd (PutBlob sha s d)) = based b s"
  by (auto simp: DiskPut_def DiskDelete_def PutBlob_def Let_def split: prod.splits option.splits)

lemma WriteFile_ok: "faults f = [] \<Longrightarrow> WriteFile f p d = (None, f\<lparr>files := (files f)(p \<mapsto> d)\<rparr>)"
  by (simp add: WriteFile_def)

text \<open>The value a key has is a function of its file.\<close>

definition decode_meta :: "bytes option \<Rightarrow> value_meta option" where
  "decode_meta d =
     (case Option.bind d (\<lambda>data. parse_json (string_of_bytes data)) of
        None \<Rightarrow> None
      | Some j \<Rightarrow> (case meta_of_json j of Inl e \<Rightarrow> None | Inr meta \<Rightarrow> Some meta))"

lemma DiskGet_decode: "DiskGet s k = decode_meta (files (fs s) (metaPath s k))"
  by (cases "files (fs s) (metaPath s k)") (simp_all add: DiskGet_def decode_meta_def ReadFile_def)

lemma decode_meta_encoded [simp]:
  "decode_meta (Some (bytes_of_string (print_json (meta_to_json v)))) = Some (norm_meta v)"
  by (simp add: decode_meta_def meta_of_to_json)

lemma decode_meta_None [simp]: "decode_meta None = None"
  by (simp add: decode_meta_def)

lemma DiskPut_view:
  assumes "based b s" and "faults (fs s) = []"
  shows "DiskGet (DiskPut s k v) = (DiskGet s)(k \<mapsto> norm_meta v)"
  using metaPath_inject [OF assms(1)] assms(2)
  by (auto simp: fun_eq_iff DiskGet_decode DiskPut_def WriteFile_ok)

lemma DiskDelete_view:
  assumes "based b s"
  shows "DiskGet (DiskDelete s k) = (DiskGet s)(k := None)"
  using metaPath_inject [OF assms]
  by (auto simp: fun_eq_iff DiskGet_decode DiskDelete_def Remove_def)

lemma blobs_ok_meta:
  assumes "based b s" and "blobs_ok sha s"
  shows "blobs_ok sha (s\<lparr>fs := f\<lparr>files := (files (fs s))(metaPath s k := x)\<rparr>\<rparr>)"
  using assms(2) metaPath_not_blobPath [OF assms(1) simple_blob_ref, THEN not_sym]
  by (simp add: blobs_ok_def)

lemma DiskPut_inv: "disk_inv sha s \<Longrightarrow> disk_inv sha (DiskPut s k v)"
  unfolding disk_inv_def DiskPut_def
  by (auto simp: WriteFile_ok intro: blobs_ok_meta)

lemma DiskDelete_inv: "disk_inv sha s \<Longrightarrow> disk_inv sha (DiskDelete s k)"
  unfolding disk_inv_def DiskDelete_def Remove_def
  by (auto intro: blobs_ok_meta)

lemma PutBlob_cases:
  assumes "faults (fs s) = []"
  shows "PutBlob sha s d =
    (Inr (blob_ref sha d),
     if files (fs s) (blobPath s (blob_ref sha d)) = None
     then s\<lparr>fs := (fs s)\<lparr>files := (files (fs s))(blobPath s (blob_ref sha d) \<mapsto> d)\<rparr>\<rparr> else s)"
  using assms by (simp add: PutBlob_def Stat_def WriteFile_ok Let_def)

lemma PutBlob_inv: "disk_inv sha s \<Longrightarrow> disk_inv sha (snd (PutBlob sha s d))"
  using blobPath_inject [OF _ simple_blob_ref simple_blob_ref]
  by (auto simp: disk_inv_def PutBlob_cases blobs_ok_def)

lemma PutBlob_view: "disk_inv sha s \<Longrightarrow> DiskGet (snd (PutBlob sha s d)) = DiskGet s"
  using metaPath_not_blobPath [OF _ simple_blob_ref]
  by (auto simp: disk_inv_def PutBlob_cases fun_eq_iff DiskGet_decode)

lemma GetBlob_Inr: "GetBlob s r = Inr d \<longleftrightarrow> files (fs s) (blobPath s r) = Some d"
  by (auto simp: GetBlob_def ReadFile_def split: option.splits)

lemma GetBlob_meta:
  assumes "disk_inv sha s"
  shows "GetBlob (DiskPut s k v) (blob_ref sha d) = GetBlob s (blob_ref sha d)"
    and "GetBlob (DiskDelete s k) (blob_ref sha d) = GetBlob s (blob_ref sha d)"
proof -
  obtain b where "based b s" "faults (fs s) = []" using assms by (auto simp: disk_inv_def)
  with metaPath_not_blobPath [OF _ simple_blob_ref, of b s k sha d]
  show "GetBlob (DiskPut s k v) (blob_ref sha d) = GetBlob s (blob_ref sha d)"
    "GetBlob (DiskDelete s k) (blob_ref sha d) = GetBlob s (blob_ref sha d)"
    by (auto simp: GetBlob_def ReadFile_def DiskPut_def DiskDelete_def Remove_def WriteFile_ok)
qed

interpretation disk: blob_store "disk_inv sha" DiskGet norm_meta "\<lambda>s k. (DiskGet s k, s)"
  DiskPut DiskDelete "blob_ref sha" "PutBlob sha" GetBlob
  for sha :: "bytes \<Rightarrow> bytes"
proof
  fix s :: disk_storage and k v d d' e e'
  assume inv: "disk_inv sha s"
  then obtain b where b: "based b s" and ok: "faults (fs s) = []" and blobs: "blobs_ok sha s"
    by (auto simp: disk_inv_def)
  show "DiskGet (DiskPut s k v) = (DiskGet s)(k \<mapsto> norm_meta v)" by (rule DiskPut_view [OF b ok])
  show "DiskGet (DiskDelete s k) = (DiskGet s)(k := None)" by (rule DiskDelete_view [OF b])
  show "fst (PutBlob sha s d) = Inr (blob_ref sha d)" using ok by (simp add: PutBlob_cases)
  show "\<exists>d'. GetBlob (snd (PutBlob sha s d)) (blob_ref sha d) = Inr d'"
    using ok by (auto simp: PutBlob_cases GetBlob_Inr)
  show "GetBlob s (blob_ref sha e) = Inr e' \<Longrightarrow>
      GetBlob (snd (PutBlob sha s d)) (blob_ref sha e) = Inr e'"
    using ok by (auto simp: PutBlob_cases GetBlob_Inr)
  show "GetBlob s (blob_ref sha d) = Inr d' \<Longrightarrow> blob_ref sha d' = blob_ref sha d"
    using blobs by (auto simp: GetBlob_Inr blobs_ok_def)
qed (simp_all add: DiskPut_inv DiskDelete_inv PutBlob_inv PutBlob_view GetBlob_meta)

lemma NewDiskStorage_inv:
  "faults fsys = [] \<Longrightarrow> files fsys = Map.empty \<Longrightarrow> disk_inv sha (NewDiskStorage b fsys)"
  by (auto simp: disk_inv_def NewDiskStorage_def based_def blobs_ok_def)

end
