(* ===== verification/Node.thy ===== *)
theory Node
  imports Transport Memory_Storage Disk_Storage
begin

text \<open>
  \<open>dht/node.go\<close>: a node is its own contact, a storage, a transport and a routing table. Its
  request handlers are the server side of the protocol.
\<close>

section \<open>The storage a node holds\<close>

text \<open>The dynamic type of the \<open>Storage\<close> interface value; only \<open>DiskStorage\<close> is a \<open>BlobStore\<close>.\<close>

datatype storage = Memory mem_state | Disk disk_storage

definition new_memory :: storage where
  "new_memory = Memory (NewMemoryStorage, \<lparr>cells = \<lambda>_. [], fresh = 0\<rparr>)"

fun storage_get :: "storage \<Rightarrow> dht_key \<Rightarrow> value_meta option \<times> storage" where
  "storage_get (Memory m) k = (fst (mem_get m k), Memory (snd (mem_get m k)))"
| "storage_get (Disk d) k = (DiskGet d k, Disk d)"

fun storage_put :: "storage \<Rightarrow> dht_key \<Rightarrow> value_meta \<Rightarrow> storage" where
  "storage_put (Memory m) k v = Memory (mem_put m k v)"
| "storage_put (Disk d) k v = Disk (DiskPut d k v)"

fun storage_delete :: "storage \<Rightarrow> dht_key \<Rightarrow> storage" where
  "storage_delete (Memory m) k = Memory (mem_delete m k)"
| "storage_delete (Disk d) k = Disk (DiskDelete d k)"

fun storage_inv :: "(bytes \<Rightarrow> bytes) \<Rightarrow> storage \<Rightarrow> bool" where
  "storage_inv sha (Memory m) = mem_inv m"
| "storage_inv sha (Disk d) = disk_inv sha d"

fun storage_view :: "storage \<Rightarrow> dht_key \<rightharpoonup> value_meta" where
  "storage_view (Memory m) = mem_view (fst m) (snd m)"
| "storage_view (Disk d) = DiskGet d"

fun storage_norm :: "storage \<Rightarrow> value_meta \<Rightarrow> value_meta" where
  "storage_norm (Memory m) v = v"
| "storage_norm (Disk d) v = norm_meta v"

lemma storage_get_spec [simp]:
  assumes "storage_inv sha st"
  shows "fst (storage_get st k) = storage_view st k"
    and "storage_view (snd (storage_get st k)) = storage_view st"
    and "storage_inv sha (snd (storage_get st k))"
    and "storage_norm (snd (storage_get st k)) = storage_norm st"
  using assms by (cases st; simp add: mem.get_value mem.get_view mem.get_inv fun_eq_iff)+

lemma storage_put_spec [simp]:
  assumes "storage_inv sha st"
  shows "storage_view (storage_put st k v) = (storage_view st)(k \<mapsto> storage_norm st v)"
    and "storage_inv sha (storage_put st k v)"
    and "storage_norm (storage_put st k v) = storage_norm st"
  using assms by (cases st; simp add: mem.put_view mem.put_inv disk.put_view disk.put_inv fun_eq_iff)+

lemma storage_delete_spec [simp]:
  assumes "storage_inv sha st"
  shows "storage_view (storage_delete st k) = (storage_view st)(k := None)"
    and "storage_inv sha (storage_delete st k)"
    and "storage_norm (storage_delete st k) = storage_norm st"
  using assms by (cases st; simp add: mem.del_view mem.del_inv disk.del_view disk.del_inv fun_eq_iff)+

lemma new_memory_simps [simp]:
  "storage_inv sha new_memory" "storage_view new_memory = Map.empty"
  "storage_norm new_memory = (\<lambda>v. v)"
  by (auto simp: new_memory_def mem_inv_def mem_ok_def owned_def NewMemoryStorage_def
      mem_view_def fun_eq_iff)


section \<open>The node\<close>

text \<open>
  The record of the code; \<open>'w\<close> is the state of the rest of the world, on which the transport
  acts. \<open>the\<close> is the dereference of an interface value, which panics when it is nil.
\<close>

record 'w node =
  node_self :: network_node
  node_storage :: storage
  node_transport :: "'w transport option"
  node_rt :: "'w routing_table"

definition ping_peer :: "'w transport option \<Rightarrow> network_node \<Rightarrow> 'w \<Rightarrow> bool \<times> 'w" where
  "ping_peer tr peer w = (let (e, w') = tr_ping (the tr) peer w in (e = None, w'))"

definition NewNodeWithStorage ::
  "network_node \<Rightarrow> 'w transport option \<Rightarrow> storage option \<Rightarrow> 'w node" where
  "NewNodeWithStorage netNode tr st =
     \<lparr>node_self = netNode,
      node_storage = (case st of None \<Rightarrow> new_memory | Some s \<Rightarrow> s),
      node_transport = tr,
      node_rt = SetPing (NewRoutingTable (nn_id netNode)) (ping_peer tr)\<rparr>"

definition NewNode :: "network_node \<Rightarrow> 'w transport option \<Rightarrow> 'w node" where
  "NewNode netNode tr = NewNodeWithStorage netNode tr (Some new_memory)"

text \<open>The state the handlers share: the node and the world around it.\<close>

definition add_contact :: "network_node \<Rightarrow> 'w node \<times> 'w \<Rightarrow> 'w node \<times> 'w" where
  "add_contact peer s =
     (let (rt', w') = Add (node_rt (fst s)) peer (snd s) in ((fst s)\<lparr>node_rt := rt'\<rparr>, w'))"

definition observePeer :: "network_node option \<Rightarrow> 'w node \<times> 'w \<Rightarrow> 'w node \<times> 'w" where
  "observePeer peer s = (case peer of None \<Rightarrow> s | Some p \<Rightarrow> add_contact p s)"

definition OnPing :: "network_node option \<Rightarrow> 'w node \<times> 'w \<Rightarrow> go_error option \<times> 'w node \<times> 'w" where
  "OnPing sender s = (None, observePeer sender s)"

definition OnStore ::
  "network_node option \<Rightarrow> dht_key \<Rightarrow> value_meta \<Rightarrow> 'w node \<times> 'w \<Rightarrow> go_error option \<times> 'w node \<times> 'w"
where
  "OnStore sender key data s =
     (let (node, w) = observePeer sender s in
      (None, node\<lparr>node_storage := storage_put (node_storage node) key data\<rparr>, w))"

definition OnFindNode ::
  "network_node option \<Rightarrow> dht_key \<Rightarrow> 'w node \<times> 'w \<Rightarrow>
     (go_error + network_node list) \<times> 'w node \<times> 'w"
where
  "OnFindNode sender targetID s =
     (let (node, w) = observePeer sender s in
      (Inr (FindClosest (node_rt node) targetID K), node, w))"

definition OnFindValue ::
  "network_node option \<Rightarrow> dht_key \<Rightarrow> 'w node \<times> 'w \<Rightarrow>
     (go_error + value_meta option \<times> network_node list) \<times> 'w node \<times> 'w"
where
  "OnFindValue sender key s =
     (let (node, w) = observePeer sender s;
          (value, st) = storage_get (node_storage node) key;
          node = node\<lparr>node_storage := st\<rparr>
      in case value of
           Some v \<Rightarrow> (Inr (Some v, []), node, w)
         | None \<Rightarrow>
             let nodes = FindClosest (node_rt node) key K in
             if nodes = [] then (Inl ErrNotFound, node, w)
             else (Inr (None, nodes), node, w))"

text \<open>The sender of a blob request is not looked at.\<close>

definition OnFetchBlob :: "network_node option \<Rightarrow> string \<Rightarrow> 'w node \<Rightarrow> go_error + bytes" where
  "OnFetchBlob sender ref node =
     (case node_storage node of
        Memory m \<Rightarrow> Inl (ErrText ''node does not support blob storage'')
      | Disk d \<Rightarrow> GetBlob d ref)"

definition Start :: "'w node \<times> 'w \<Rightarrow> go_error option \<times> 'w node \<times> 'w" where
  "Start s =
     (case node_transport (fst s) of
        None \<Rightarrow> (Some (ErrText ''transport is not configured''), s)
      | Some tr \<Rightarrow> let (e, w') = tr_listen tr (snd s) in (e, fst s, w'))"

definition Close :: "'w node \<times> 'w \<Rightarrow> go_error option \<times> 'w node \<times> 'w" where
  "Close s =
     (case node_transport (fst s) of
        None \<Rightarrow> (None, s)
      | Some tr \<Rightarrow> let (e, w') = tr_close tr (snd s) in (e, fst s, w'))"

definition blobStore :: "'w node \<Rightarrow> disk_storage option" where
  "blobStore node = (case node_storage node of Memory m \<Rightarrow> None | Disk d \<Rightarrow> Some d)"

definition DeleteLocal :: "dht_key \<Rightarrow> 'w node \<Rightarrow> 'w node" where
  "DeleteLocal key node = node\<lparr>node_storage := storage_delete (node_storage node) key\<rparr>"

section \<open>The invariant of a node\<close>

text \<open>
  The routing table is well formed and belongs to the node's own id, and the storage keeps
  its own invariant. Every operation of the node keeps it.
\<close>

definition node_inv :: "(bytes \<Rightarrow> bytes) \<Rightarrow> 'w node \<Rightarrow> bool" where
  "node_inv sha node \<longleftrightarrow>
     wf_rt (node_rt node) \<and> nodeId (node_rt node) = nn_id (node_self node)
     \<and> storage_inv sha (node_storage node)"

lemma NewNodeWithStorage_inv [wf_rules]:
  "(\<And>s. st = Some s \<Longrightarrow> storage_inv sha s) \<Longrightarrow> node_inv sha (NewNodeWithStorage n tr st)"
  by (cases st) (auto simp: node_inv_def NewNodeWithStorage_def SetPing_def NewRoutingTable_wf
      wf_rt_def placed_rt_def bucket_placed_def NewRoutingTable_def)

lemma NewNode_inv [wf_rules]: "node_inv sha (NewNode n tr)"
  unfolding NewNode_def by (rule NewNodeWithStorage_inv) auto

lemma add_contact_simps [simp]:
  "node_self (fst (add_contact p s)) = node_self (fst s)"
  "node_storage (fst (add_contact p s)) = node_storage (fst s)"
  "node_transport (fst (add_contact p s)) = node_transport (fst s)"
  "node_rt (fst (add_contact p s)) = fst (Add (node_rt (fst s)) p (snd s))"
  by (simp_all add: add_contact_def split: prod.splits)

lemma observePeer_simps [simp]:
  "node_self (fst (observePeer p s)) = node_self (fst s)"
  "node_storage (fst (observePeer p s)) = node_storage (fst s)"
  "node_transport (fst (observePeer p s)) = node_transport (fst s)"
  by (simp_all add: observePeer_def split: option.splits)

lemma add_contact_inv [wf_rules]: "node_inv sha (fst s) \<Longrightarrow> node_inv sha (fst (add_contact p s))"
  by (simp add: node_inv_def Add_wf)

lemma observePeer_inv [wf_rules]: "node_inv sha (fst s) \<Longrightarrow> node_inv sha (fst (observePeer p s))"
  by (cases p) (simp_all add: observePeer_def add_contact_inv)

lemma node_inv_storage:
  "node_inv sha node \<Longrightarrow> storage_inv sha st \<Longrightarrow> node_inv sha (node\<lparr>node_storage := st\<rparr>)"
  by (simp add: node_inv_def)

lemma DeleteLocal_inv [wf_rules]: "node_inv sha node \<Longrightarrow> node_inv sha (DeleteLocal k node)"
  by (simp add: DeleteLocal_def node_inv_def)

text \<open>What each handler returns and leaves, in terms of \<open>observePeer\<close>.\<close>

lemma OnStore_eq:
  "OnStore p k v s =
     (None, (fst (observePeer p s))\<lparr>node_storage := storage_put (node_storage (fst s)) k v\<rparr>,
      snd (observePeer p s))"
  by (simp add: OnStore_def Let_def split: prod.splits)
    (metis fst_conv observePeer_simps(2))

lemma OnFindNode_eq:
  "OnFindNode p k s =
     (Inr (FindClosest (node_rt (fst (observePeer p s))) k K), observePeer p s)"
  by (simp add: OnFindNode_def Let_def split: prod.splits)

lemma OnFindValue_eq:
  "OnFindValue p k s =
     (let nodes = FindClosest (node_rt (fst (observePeer p s))) k K;
          found = storage_get (node_storage (fst s)) k
      in (case fst found of Some v \<Rightarrow> Inr (Some v, [])
          | None \<Rightarrow> if nodes = [] then Inl ErrNotFound else Inr (None, nodes),
          (fst (observePeer p s))\<lparr>node_storage := snd found\<rparr>, snd (observePeer p s)))"
proof -
  obtain n w where o: "observePeer p s = (n, w)" by fastforce
  then have "node_storage n = node_storage (fst s)" by (metis fst_conv observePeer_simps(2))
  with o show ?thesis
    by (simp add: OnFindValue_def Let_def split: prod.splits option.splits)
qed


section \<open>A node is an RPC handler\<close>

abbreviation node_view :: "'w node \<times> 'w \<Rightarrow> dht_key \<rightharpoonup> value_meta" where
  "node_view s \<equiv> storage_view (node_storage (fst s))"

abbreviation node_norm :: "'w node \<times> 'w \<Rightarrow> value_meta \<Rightarrow> value_meta" where
  "node_norm s \<equiv> storage_norm (node_storage (fst s))"

lemma node_inv_storage_inv [simp]:
  "node_inv sha (fst s) \<Longrightarrow> storage_inv sha (node_storage (fst s))"
  by (simp add: node_inv_def)

lemma OnPing_ok:
  "node_inv sha (fst s) \<Longrightarrow> fst (OnPing p s) = None \<and> node_inv sha (fst (snd (OnPing p s)))
     \<and> node_view (snd (OnPing p s)) = node_view s \<and> node_norm (snd (OnPing p s)) = node_norm s"
  by (simp add: OnPing_def observePeer_inv)

lemma OnStore_ok:
  assumes "node_inv sha (fst s)"
  shows "fst (OnStore p k v s) = None \<and> node_inv sha (fst (snd (OnStore p k v s)))
     \<and> node_view (snd (OnStore p k v s)) = (node_view s)(k \<mapsto> node_norm s v)
     \<and> node_norm (snd (OnStore p k v s)) = node_norm s"
proof -
  note st = storage_put_spec [OF node_inv_storage_inv [OF assms], of k v]
  show ?thesis
    using node_inv_storage [OF observePeer_inv [OF assms, of p] st(2)] st(1,3)
    by (simp add: OnStore_eq)
qed

lemma OnFindNode_ok:
  "node_inv sha (fst s) \<Longrightarrow> node_inv sha (fst (snd (OnFindNode p k s)))
     \<and> node_view (snd (OnFindNode p k s)) = node_view s
     \<and> node_norm (snd (OnFindNode p k s)) = node_norm s"
  by (simp add: OnFindNode_eq observePeer_inv)

lemma OnFindValue_ok:
  assumes "node_inv sha (fst s)"
  shows "node_inv sha (fst (snd (OnFindValue p k s)))
     \<and> node_view (snd (OnFindValue p k s)) = node_view s
     \<and> node_norm (snd (OnFindValue p k s)) = node_norm s"
proof -
  note st = storage_get_spec [OF node_inv_storage_inv [OF assms], of k]
  show ?thesis
    using node_inv_storage [OF observePeer_inv [OF assms, of p] st(3)] st(2,4)
    by (simp add: OnFindValue_eq Let_def)
qed

lemma OnFindValue_result:
  assumes "node_inv sha (fst s)"
  shows "fst (OnFindValue p k s) =
     (case node_view s k of
        Some v \<Rightarrow> Inr (Some v, [])
      | None \<Rightarrow>
          let nodes = FindClosest (node_rt (fst (observePeer p s))) k K in
          if nodes = [] then Inl ErrNotFound else Inr (None, nodes))"
  using storage_get_spec(1) [OF node_inv_storage_inv [OF assms], of k]
  by (simp add: OnFindValue_eq Let_def split: option.split)

interpretation node: rpc_handler "\<lambda>s. node_inv sha (fst s)" node_view node_norm
  OnPing OnStore OnFindNode OnFindValue
  for sha :: "bytes \<Rightarrow> bytes"
proof
  fix s :: "'w node \<times> 'w" and p k v ns
  assume inv: "node_inv sha (fst s)"
  show "fst (OnFindNode p k s) = Inr ns \<Longrightarrow> length ns \<le> K"
    by (auto simp: OnFindNode_eq length_FindClosest)
  show "node_view s k = Some v \<Longrightarrow> fst (OnFindValue p k s) = Inr (Some v, [])"
    by (simp add: OnFindValue_result [OF inv])
  show "node_view s k = None \<Longrightarrow> fst (OnFindValue p k s) = Inl ErrNotFound
      \<or> (\<exists>ns. ns \<noteq> [] \<and> length ns \<le> K \<and> fst (OnFindValue p k s) = Inr (None, ns))"
    by (auto simp: OnFindValue_result [OF inv] Let_def length_FindClosest)
qed (simp_all add: OnPing_ok OnStore_ok OnFindNode_ok OnFindValue_ok)

end
