(* ===== verification/Rpc_Message.thy ===== *)
theory Rpc_Message
  imports Node
begin

text \<open>
  The message struct of the two transports (\<open>message\<close> in \<open>transport/udp/udp.go\<close>, and
  \<open>rpcMessage\<close> in \<open>transport/webrtc/webrtc.go\<close>, which has one more field), the handler a
  transport dispatches to, and what a caller makes of a response. The structs travel as JSON;
  what that changes of a value is \<open>norm_meta\<close> (\<open>Codec\<close>), the other fields are taken to
  survive.
\<close>

record message =
  m_type :: string
  m_is_req :: bool
  m_req_id :: string
  m_sender :: "network_node option"
  m_target :: dht_key
  m_key :: dht_key
  m_data :: "value_meta option"
  m_value :: "value_meta option"
  m_nodes :: "network_node option list"
  m_error :: string

record rpc_message = message +
  m_ref :: string

text \<open>The zero value of the struct, \<open>message{Type: ty}\<close>.\<close>

definition new_message :: "string \<Rightarrow> message" where
  "new_message ty =
     \<lparr>m_type = ty, m_is_req = False, m_req_id = [], m_sender = None, m_target = key_of_slice [],
      m_key = key_of_slice [], m_data = None, m_value = None, m_nodes = [], m_error = []\<rparr>"

definition wire :: "'a message_scheme \<Rightarrow> 'a message_scheme" where
  "wire m = m\<lparr>m_data := map_option norm_meta (m_data m), m_value := map_option norm_meta (m_value m)\<rparr>"

lemma wire_simps [simp]:
  "m_type (wire m) = m_type m" "m_is_req (wire m) = m_is_req m" "m_req_id (wire m) = m_req_id m"
  "m_sender (wire m) = m_sender m" "m_target (wire m) = m_target m" "m_key (wire m) = m_key m"
  "m_data (wire m) = map_option norm_meta (m_data m)"
  "m_value (wire m) = map_option norm_meta (m_value m)"
  "m_nodes (wire m) = m_nodes m" "m_error (wire m) = m_error m"
  by (simp_all add: wire_def)

section \<open>The handler\<close>

text \<open>A value of the interface type \<open>dht.RPCHandler\<close>, acting on a state \<open>'s\<close>.\<close>

record 's handler =
  h_ping :: "network_node option \<Rightarrow> 's \<Rightarrow> go_error option \<times> 's"
  h_store :: "network_node option \<Rightarrow> dht_key \<Rightarrow> value_meta \<Rightarrow> 's \<Rightarrow> go_error option \<times> 's"
  h_find_node :: "network_node option \<Rightarrow> dht_key \<Rightarrow> 's \<Rightarrow> (go_error + network_node list) \<times> 's"
  h_find_value :: "network_node option \<Rightarrow> dht_key \<Rightarrow> 's \<Rightarrow>
    (go_error + value_meta option \<times> network_node list) \<times> 's"
  h_fetch_blob :: "network_node option \<Rightarrow> string \<Rightarrow> 's \<Rightarrow> go_error + bytes"

text \<open>A node as the handler.\<close>

definition node_handler :: "('w node \<times> 'w) handler" where
  "node_handler =
     \<lparr>h_ping = OnPing, h_store = OnStore, h_find_node = OnFindNode, h_find_value = OnFindValue,
      h_fetch_blob = (\<lambda>p ref s. OnFetchBlob p ref (fst s))\<rparr>"

lemma node_handler_simps [simp]:
  "h_ping node_handler = OnPing" "h_store node_handler = OnStore"
  "h_find_node node_handler = OnFindNode" "h_find_value node_handler = OnFindValue"
  "h_fetch_blob node_handler p ref s = OnFetchBlob p ref (fst s)"
  by (simp_all add: node_handler_def)

section \<open>The caller\<close>

text \<open>The error field of a response: empty, the text of \<open>ErrNotFound\<close>, or another error.\<close>

definition reply_result :: "'a message_scheme \<Rightarrow> go_error + 'a message_scheme" where
  "reply_result resp =
     (if m_error resp = [] then Inr resp
      else if m_error resp = err_text ErrNotFound then Inl ErrNotFound
      else Inl (ErrText (m_error resp)))"

text \<open>The four calls, over the transport's own way to send a request (\<open>sendReq\<close>, \<open>sendRPC\<close>).\<close>

definition call_ping :: "(message \<Rightarrow> 'w \<Rightarrow> (go_error + 'a message_scheme) \<times> 'w) \<Rightarrow> 'w \<Rightarrow>
    go_error option \<times> 'w" where
  "call_ping send w =
     (let (r, w) = send (new_message RPCPing) w in (case r of Inl e \<Rightarrow> Some e | Inr _ \<Rightarrow> None, w))"

definition call_store :: "(message \<Rightarrow> 'w \<Rightarrow> (go_error + 'a message_scheme) \<times> 'w) \<Rightarrow>
    dht_key \<Rightarrow> value_meta \<Rightarrow> 'w \<Rightarrow> go_error option \<times> 'w" where
  "call_store send key data w =
     (let (r, w) = send ((new_message RPCStore)\<lparr>m_key := key, m_data := Some data\<rparr>) w in
      (case r of Inl e \<Rightarrow> Some e | Inr _ \<Rightarrow> None, w))"

definition call_find_node :: "(message \<Rightarrow> 'w \<Rightarrow> (go_error + 'a message_scheme) \<times> 'w) \<Rightarrow>
    dht_key \<Rightarrow> 'w \<Rightarrow> (go_error + network_node option list) \<times> 'w" where
  "call_find_node send target w =
     (let (r, w) = send ((new_message RPCFindNode)\<lparr>m_target := target\<rparr>) w in
      (map_sum id m_nodes r, w))"

definition call_find_value :: "(message \<Rightarrow> 'w \<Rightarrow> (go_error + 'a message_scheme) \<times> 'w) \<Rightarrow>
    dht_key \<Rightarrow> 'w \<Rightarrow> (go_error + found) \<times> 'w" where
  "call_find_value send key w =
     (let (r, w) = send ((new_message RPCFindValue)\<lparr>m_key := key\<rparr>) w in
      (case r of
         Inl e \<Rightarrow> if is_not_found e then Inr (None, []) else Inl e
       | Inr resp \<Rightarrow> Inr (m_value resp, m_nodes resp), w))"

end
