(* ===== verification/Webrtc_Blob.thy ===== *)
theory Webrtc_Blob
  imports Prelude
begin

text \<open>
  The blob channel of \<open>transport/webrtc/webrtc.go\<close>: a blob is cut into frames of a 32-byte
  request id, a flag on the last frame, and up to 256 KiB of data; the receiver collects the
  frames of each request and hands the whole over a channel of capacity one.
\<close>

section \<open>Sending\<close>

definition blobChunkSize :: nat where
  "blobChunkSize = 256 * 1024"

lemma blobChunkSize_pos [simp]: "0 < blobChunkSize"
  by (simp add: blobChunkSize_def)

definition blob_frame :: "string \<Rightarrow> byte \<Rightarrow> bytes \<Rightarrow> bytes" where
  "blob_frame reqID isLast chunk = copy_into 32 (bytes_of_string reqID) @ isLast # chunk"

text \<open>
  The loop of \<open>sendBlobChunked\<close>, with the way a frame is made as an argument (the transport
  benchmark has the same loop with other frames): the frames handed to the data channel and the
  error that ended it. \<open>Send\<close> takes its outcomes from a tape; an exhausted tape means no more
  failures. The wait for the channel's buffer to drain delays a frame and does not change it.
\<close>

function send_loop ::
  "(byte \<Rightarrow> bytes \<Rightarrow> bytes) \<Rightarrow> bytes \<Rightarrow> nat \<Rightarrow> go_error option list \<Rightarrow> bytes list \<times> go_error option"
where
  "send_loop make_frame data offset tape =
     (if offset < length data then
        let end' = offset + blobChunkSize;
            isLast = (if length data \<le> end' then 1 else 0);
            end'' = (if length data \<le> end' then length data else end');
            frame = make_frame isLast (take (end'' - offset) (drop offset data))
        in case tape of
             Some err # r \<Rightarrow> ([], Some err)
           | _ \<Rightarrow>
               let (frames, err) = send_loop make_frame data end'' (tl tape) in (frame # frames, err)
      else ([], None))"
  by pat_completeness auto

lemma chunk_progress:
  "\<not> length data \<le> offset + blobChunkSize \<Longrightarrow>
     length data - (offset + blobChunkSize) < length data - offset"
  using blobChunkSize_pos by linarith

termination send_loop
  by (relation "measure (\<lambda>(make_frame, data, offset, tape). length data - offset)")
    (auto simp: chunk_progress)

declare send_loop.simps [simp del]

definition send_chunks ::
  "string \<Rightarrow> bytes \<Rightarrow> nat \<Rightarrow> go_error option list \<Rightarrow> bytes list \<times> go_error option" where
  "send_chunks reqID data offset tape = send_loop (blob_frame reqID) data offset tape"

definition sendBlobChunked ::
  "string \<Rightarrow> bytes \<Rightarrow> go_error option list \<Rightarrow> bytes list \<times> go_error option" where
  "sendBlobChunked reqID data tape = send_chunks reqID data 0 tape"

section \<open>Receiving\<close>

text \<open>\<open>pendingBlob\<close>: the buffer is nil until a byte is appended; the channel holds one result.\<close>

record pending_blob =
  pb_buf :: "bytes option"
  pb_ch :: "bytes option"

definition new_pending_blob :: pending_blob where
  "new_pending_blob = \<lparr>pb_buf = None, pb_ch = None\<rparr>"

definition append_slice :: "bytes option \<Rightarrow> bytes \<Rightarrow> bytes option" where
  "append_slice buf chunk =
     (case buf of None \<Rightarrow> if chunk = [] then None else Some chunk | Some b \<Rightarrow> Some (b @ chunk))"

definition receive_chunk :: "byte \<Rightarrow> bytes \<Rightarrow> pending_blob \<Rightarrow> pending_blob" where
  "receive_chunk isLast chunk bp =
     (let buf = append_slice (pb_buf bp) chunk in
      if isLast = 1 then
        \<lparr>pb_buf = None,
         pb_ch = (case (buf, pb_ch bp) of (Some full, None) \<Rightarrow> Some full | _ \<Rightarrow> pb_ch bp)\<rparr>
      else bp\<lparr>pb_buf := buf\<rparr>)"

type_synonym blob_table = "string \<rightharpoonup> pending_blob"

definition onBlobMsg :: "bytes \<Rightarrow> blob_table \<Rightarrow> blob_table" where
  "onBlobMsg data pending =
     (if length data < 33 then pending
      else
        let reqID = string_of_bytes (take 32 data); isLast = data ! 32; chunk = drop 33 data in
        case pending reqID of
          None \<Rightarrow> pending
        | Some bp \<Rightarrow> pending(reqID \<mapsto> receive_chunk isLast chunk bp))"

section \<open>Frames of one transfer\<close>

text \<open>What the sender cuts, without failures: chunks of the full size, the last one marked.\<close>

function chunks :: "bytes \<Rightarrow> (byte \<times> bytes) list" where
  "chunks data =
     (if data = [] then []
      else if length data \<le> blobChunkSize then [(1, data)]
      else (0, take blobChunkSize data) # chunks (drop blobChunkSize data))"
  by pat_completeness auto

termination chunks
  by (relation "measure length") auto

declare chunks.simps [simp del]

abbreviation cut_frame :: "string \<Rightarrow> byte \<times> bytes \<Rightarrow> bytes" where
  "cut_frame reqID c \<equiv> blob_frame reqID (fst c) (snd c)"

lemma send_loop_ok:
  "send_loop make_frame data offset [] = (map (case_prod make_frame) (chunks (drop offset data)), None)"
proof (induction make_frame data offset "[] :: go_error option list" rule: send_loop.induct)
  case (1 make_frame data offset)
  consider "length data \<le> offset" | "offset < length data" "length data \<le> offset + blobChunkSize"
    | "offset + blobChunkSize < length data" by linarith
  then show ?case
  proof cases
    case 1
    then show ?thesis by (simp add: send_loop.simps chunks.simps)
  next
    case 2
    then have "length (drop offset data) \<le> blobChunkSize" "drop offset data \<noteq> []" by simp_all
    moreover have "send_loop make_frame data (length data) [] = ([], None)"
      by (simp add: send_loop.simps)
    ultimately show ?thesis using 2
      by (simp add: send_loop.simps [of make_frame data offset] chunks.simps [of "drop offset data"] Let_def)
  next
    case 3
    with "1.hyps" [OF _ refl refl refl refl] have
      "send_loop make_frame data (offset + blobChunkSize) []
        = (map (case_prod make_frame) (chunks (drop (offset + blobChunkSize) data)), None)" by simp
    moreover have "\<not> length data - offset \<le> blobChunkSize" using 3 by linarith
    ultimately show ?thesis using 3
      by (simp add: send_loop.simps [of make_frame data offset] chunks.simps [of "drop offset data"] Let_def
          add.commute)
  qed
qed

lemma send_chunks_ok:
  "send_chunks reqID data offset [] = (map (cut_frame reqID) (chunks (drop offset data)), None)"
  by (simp add: send_chunks_def send_loop_ok case_prod_beta')

lemma sendBlobChunked_ok: "sendBlobChunked reqID data [] = (map (cut_frame reqID) (chunks data), None)"
  by (simp add: sendBlobChunked_def send_chunks_ok)


section \<open>Collecting one transfer\<close>

lemma concat_chunks: "concat (map snd (chunks data)) = data"
proof (induction data rule: chunks.induct)
  case (1 data)
  then show ?case by (simp add: chunks.simps [of data])
qed

lemma chunks_shape:
  assumes "data \<noteq> []"
  obtains cs c where "chunks data = map (Pair 0) cs @ [(1, c)]" and "c \<noteq> []"
    and "concat cs @ c = data"
proof -
  have "\<exists>cs c. chunks data = map (Pair 0) cs @ [(1, c)] \<and> c \<noteq> [] \<and> concat cs @ c = data"
    using assms
  proof (induction data rule: chunks.induct)
    case (1 data)
    show ?case
    proof (cases "length data \<le> blobChunkSize")
      case True
      with 1(2) show ?thesis by (intro exI [of _ "[]"] exI [of _ data]) (simp add: chunks.simps)
    next
      case False
      then have "drop blobChunkSize data \<noteq> []" by simp
      with 1(1) [OF 1(2) False] obtain cs c where
        c: "chunks (drop blobChunkSize data) = map (Pair 0) cs @ [(1, c)]" "c \<noteq> []"
          "concat cs @ c = drop blobChunkSize data" by blast
      have "concat (take blobChunkSize data # cs) @ c = data" using c(3) by simp
      with c(1,2) 1(2) False show ?thesis
        by (intro exI [of _ "take blobChunkSize data # cs"] exI [of _ c]) (simp add: chunks.simps [of data])
    qed
  qed
  then show thesis using that by blast
qed

lemma receive_more:
  "fold (\<lambda>c. receive_chunk 0 c) cs bp = bp\<lparr>pb_buf := foldl append_slice (pb_buf bp) cs\<rparr>"
  by (induction cs arbitrary: bp) (simp_all add: receive_chunk_def)

lemma append_slices: "foldl append_slice buf cs = append_slice buf (concat cs)"
  by (induction cs arbitrary: buf) (auto simp: append_slice_def split: option.splits)

lemma append_slice_end: "c \<noteq> [] \<Longrightarrow> append_slice (append_slice None b) c = Some (b @ c)"
  by (auto simp: append_slice_def)

lemma receive_chunks:
  assumes "data \<noteq> []"
  shows "fold (\<lambda>(isLast, c). receive_chunk isLast c) (chunks data) new_pending_blob
     = \<lparr>pb_buf = None, pb_ch = Some data\<rparr>"
proof -
  obtain cs c where c: "chunks data = map (Pair 0) cs @ [(1, c)]" "c \<noteq> []" "concat cs @ c = data"
    using chunks_shape [OF assms] .
  have "fold (\<lambda>(isLast, c). receive_chunk isLast c) (map (Pair 0) cs) new_pending_blob
      = new_pending_blob\<lparr>pb_buf := append_slice None (concat cs)\<rparr>"
    using receive_more [of cs new_pending_blob]
    by (simp add: fold_map comp_def append_slices new_pending_blob_def)
  then show ?thesis
    using c(2,3) append_slice_end [OF c(2), of "concat cs"]
    by (simp add: c(1) receive_chunk_def new_pending_blob_def)
qed

section \<open>Transfers side by side\<close>

text \<open>The request a frame belongs to.\<close>

definition frame_id :: "bytes \<Rightarrow> string" where
  "frame_id f = string_of_bytes (take 32 f)"

lemma take_drop_frame [simp]:
  "take 32 (blob_frame rid l c) = copy_into 32 (bytes_of_string rid)"
  "drop 33 (blob_frame rid l c) = c" "blob_frame rid l c ! 32 = l"
  "length (blob_frame rid l c) = 33 + length c"
  by (simp_all add: blob_frame_def nth_append)

lemma copy_into_all: "length bs = n \<Longrightarrow> copy_into n bs = bs"
  by (simp add: copy_into_def)

lemma frame_id_blob_frame [simp]: "length rid = 32 \<Longrightarrow> frame_id (blob_frame rid l c) = rid"
  using copy_into_all [of "bytes_of_string rid" 32] by (simp add: frame_id_def)

lemma onBlobMsg_frame:
  assumes "length rid = 32"
  shows "onBlobMsg (blob_frame rid l c) t
     = (case t rid of None \<Rightarrow> t | Some bp \<Rightarrow> t(rid \<mapsto> receive_chunk l c bp))"
proof -
  have "string_of_bytes (copy_into 32 (bytes_of_string rid)) = rid"
    using frame_id_blob_frame [OF assms, of l c] by (simp add: frame_id_def)
  then show ?thesis by (simp add: onBlobMsg_def Let_def)
qed

lemma onBlobMsg_other: "frame_id f \<noteq> rid \<Longrightarrow> onBlobMsg f t rid = t rid"
  by (auto simp: onBlobMsg_def frame_id_def Let_def split: option.splits)

lemma onBlobMsg_cong: "t rid = t' rid \<Longrightarrow> onBlobMsg f t rid = onBlobMsg f t' rid"
  by (auto simp: onBlobMsg_def Let_def split: option.splits)

lemma fold_onBlobMsg_cong: "t rid = t' rid \<Longrightarrow> fold onBlobMsg fs t rid = fold onBlobMsg fs t' rid"
proof (induction fs arbitrary: t t')
  case (Cons f fs)
  have "onBlobMsg f t rid = onBlobMsg f t' rid" using Cons.prems by (rule onBlobMsg_cong)
  then have "fold onBlobMsg fs (onBlobMsg f t) rid = fold onBlobMsg fs (onBlobMsg f t') rid"
    by (rule Cons.IH)
  then show ?case by simp
qed simp

lemma fold_onBlobMsg_filter:
  "fold onBlobMsg fs t rid = fold onBlobMsg (filter (\<lambda>f. frame_id f = rid) fs) t rid"
proof (induction fs arbitrary: t)
  case (Cons f fs)
  show ?case
  proof (cases "frame_id f = rid")
    case False
    then have "fold onBlobMsg fs (onBlobMsg f t) rid = fold onBlobMsg fs t rid"
      by (intro fold_onBlobMsg_cong onBlobMsg_other)
    with Cons False show ?thesis by simp
  qed (simp add: Cons)
qed simp

lemma fold_onBlobMsg_frames:
  assumes "length rid = 32" and "t rid = Some bp"
  shows "fold onBlobMsg (map (cut_frame rid) cs) t rid
     = Some (fold (\<lambda>(isLast, c). receive_chunk isLast c) cs bp)"
  using assms(2)
proof (induction cs arbitrary: t bp)
  case (Cons c cs)
  have "onBlobMsg (cut_frame rid c) t = t(rid \<mapsto> receive_chunk (fst c) (snd c) bp)"
    using Cons.prems by (simp add: onBlobMsg_frame [OF assms(1)])
  with Cons.IH [of "t(rid \<mapsto> receive_chunk (fst c) (snd c) bp)", OF fun_upd_same] show ?case
    by (simp add: case_prod_beta del: fun_upd_apply)
qed simp

end
