(* ===== verification/Webrtc.thy ===== *)
theory Webrtc
  imports Rpc_Message Webrtc_Blob
begin

text \<open>
  \<open>transport/webrtc/webrtc.go\<close>: requests and responses on the control channel, the transfer of
  blobs, and the table of peer connections with the steps that make and lose entries.
\<close>

section \<open>Serving requests\<close>

definition rpc_of :: "message \<Rightarrow> string \<Rightarrow> rpc_message" where
  "rpc_of m ref = message.extend m \<lparr>m_ref = ref\<rparr>"

lemma rpc_of_simps [simp]:
  "m_type (rpc_of m ref) = m_type m" "m_is_req (rpc_of m ref) = m_is_req m"
  "m_req_id (rpc_of m ref) = m_req_id m" "m_sender (rpc_of m ref) = m_sender m"
  "m_target (rpc_of m ref) = m_target m" "m_key (rpc_of m ref) = m_key m"
  "m_data (rpc_of m ref) = m_data m" "m_value (rpc_of m ref) = m_value m"
  "m_nodes (rpc_of m ref) = m_nodes m" "m_error (rpc_of m ref) = m_error m"
  "m_ref (rpc_of m ref) = ref"
  by (simp_all add: rpc_of_def message.defs)

text \<open>
  The request branch of \<open>onControlMsg\<close>: the message sent back on the control channel, if any,
  and the frames sent on the blob channel. \<open>blob_ready\<close> says whether the blob channel opens in
  time, \<open>tape\<close> how its sends end.
\<close>

definition rtc_respond ::
  "'s handler option \<Rightarrow> network_node \<Rightarrow> bool \<Rightarrow> go_error option list \<Rightarrow> rpc_message \<Rightarrow> 's \<Rightarrow>
     (rpc_message option \<times> bytes list) \<times> 's"
where
  "rtc_respond handler local_node blob_ready tape msg s =
     (let resp = rpc_of ((new_message (m_type msg))
                   \<lparr>m_req_id := m_req_id msg, m_sender := Some local_node\<rparr>) [];
          reply = (\<lambda>r s. ((Some r, []), s)) in
      case handler of
        None \<Rightarrow> reply (resp\<lparr>m_error := ''handler not set''\<rparr>) s
      | Some h \<Rightarrow>
          if m_type msg = RPCPing then
            (case h_ping h (m_sender msg) s of
               (Some err, s) \<Rightarrow> reply (resp\<lparr>m_error := err_text err\<rparr>) s
             | (None, s) \<Rightarrow> reply resp s)
          else if m_type msg = RPCStore then
            (case m_data msg of
               None \<Rightarrow> reply (resp\<lparr>m_error := ''missing data''\<rparr>) s
             | Some data \<Rightarrow>
                 (case h_store h (m_sender msg) (m_key msg) data s of
                    (Some err, s) \<Rightarrow> reply (resp\<lparr>m_error := err_text err\<rparr>) s
                  | (None, s) \<Rightarrow> reply resp s))
          else if m_type msg = RPCFindNode then
            (case h_find_node h (m_sender msg) (m_target msg) s of
               (Inl err, s) \<Rightarrow> reply (resp\<lparr>m_error := err_text err\<rparr>) s
             | (Inr nodes, s) \<Rightarrow> reply (resp\<lparr>m_nodes := map Some nodes\<rparr>) s)
          else if m_type msg = RPCFindValue then
            (case h_find_value h (m_sender msg) (m_key msg) s of
               (Inl err, s) \<Rightarrow> reply (if is_not_found err then resp else resp\<lparr>m_error := err_text err\<rparr>) s
             | (Inr (value, nodes), s) \<Rightarrow>
                 reply (resp\<lparr>m_value := value, m_nodes := map Some nodes\<rparr>) s)
          else if m_type msg = RPCFetchBlob then
            (case h_fetch_blob h (m_sender msg) (m_ref msg) s of
               Inl err \<Rightarrow> reply (resp\<lparr>m_error := err_text err\<rparr>) s
             | Inr data \<Rightarrow>
                 if \<not> blob_ready then reply (resp\<lparr>m_error := ''blob channel not ready''\<rparr>) s
                 else
                   (case sendBlobChunked (m_req_id msg) data tape of
                      (frames, Some err) \<Rightarrow> ((Some (resp\<lparr>m_error := err_text err\<rparr>), frames), s)
                    | (frames, None) \<Rightarrow> ((None, frames), s)))
          else reply (resp\<lparr>m_error := ''unknown rpc: '' @ m_type msg\<rparr>) s)"

section \<open>Pending calls of a connection\<close>

text \<open>\<open>peerConn\<close> without its channels: calls that wait for a response and for a blob.\<close>

record peer_conn =
  rpcPending :: "string \<rightharpoonup> rpc_message option"
  blobPending :: blob_table

definition newPeerConn :: peer_conn where
  "newPeerConn = \<lparr>rpcPending = Map.empty, blobPending = Map.empty\<rparr>"

text \<open>The response branch of \<open>onControlMsg\<close>, and \<open>onBlobMsg\<close> on the connection.\<close>

definition deliver_rpc :: "rpc_message \<Rightarrow> peer_conn \<Rightarrow> peer_conn" where
  "deliver_rpc msg p =
     (case rpcPending p (m_req_id msg) of
        Some None \<Rightarrow> p\<lparr>rpcPending := (rpcPending p)(m_req_id msg \<mapsto> Some msg)\<rparr>
      | _ \<Rightarrow> p)"

definition deliver_blob :: "bytes \<Rightarrow> peer_conn \<Rightarrow> peer_conn" where
  "deliver_blob f p = p\<lparr>blobPending := onBlobMsg f (blobPending p)\<rparr>"

definition genReqID :: "bytes \<Rightarrow> string" where
  "genReqID rnd = hex_encode (copy_into 16 rnd)"

section \<open>Calls\<close>

text \<open>
  \<open>sendRPC\<close> seen from its goroutine: the random bytes of the id, the connection \<open>getPeer\<close> gives,
  the send on its control channel, and the response that arrived before the timer.
\<close>

record 'w rtc_net =
  rn_random :: "'w \<Rightarrow> bytes \<times> 'w"
  rn_get_peer :: "network_node \<Rightarrow> 'w \<Rightarrow> (go_error + nat) \<times> 'w"
  rn_send :: "nat \<Rightarrow> rpc_message \<Rightarrow> 'w \<Rightarrow> go_error option \<times> 'w"
  rn_wait :: "nat \<Rightarrow> string \<Rightarrow> 'w \<Rightarrow> rpc_message option \<times> 'w"

definition rpc_timeout :: go_error where
  "rpc_timeout = ErrText ''rpc timeout''"

definition sendRPC ::
  "'w rtc_net \<Rightarrow> network_node \<Rightarrow> network_node \<Rightarrow> message \<Rightarrow> 'w \<Rightarrow> (go_error + rpc_message) \<times> 'w"
where
  "sendRPC net local_node target msg w =
     (let (rnd, w) = rn_random net w;
          msg = rpc_of (msg\<lparr>m_sender := Some local_node, m_is_req := True, m_req_id := genReqID rnd\<rparr>) []
      in case rn_get_peer net target w of
           (Inl err, w) \<Rightarrow> (Inl err, w)
         | (Inr peer, w) \<Rightarrow>
             (case rn_send net peer msg w of
                (Some err, w) \<Rightarrow> (Inl err, w)
              | (None, w) \<Rightarrow>
                  (case rn_wait net peer (m_req_id msg) w of
                     (Some resp, w) \<Rightarrow> (reply_result resp, w)
                   | (None, w) \<Rightarrow> (Inl rpc_timeout, w))))"

text \<open>The four calls over \<open>sendRPC\<close>.\<close>

definition Ping_rtc :: "'w rtc_net \<Rightarrow> network_node \<Rightarrow> network_node \<Rightarrow> 'w \<Rightarrow> go_error option \<times> 'w" where
  "Ping_rtc net local_node target = call_ping (sendRPC net local_node target)"

definition Store_rtc :: "'w rtc_net \<Rightarrow> network_node \<Rightarrow> network_node \<Rightarrow> dht_key \<Rightarrow> value_meta \<Rightarrow> 'w \<Rightarrow>
    go_error option \<times> 'w" where
  "Store_rtc net local_node target = call_store (sendRPC net local_node target)"

definition FindNode_rtc :: "'w rtc_net \<Rightarrow> network_node \<Rightarrow> network_node \<Rightarrow> dht_key \<Rightarrow> 'w \<Rightarrow>
    (go_error + network_node option list) \<times> 'w" where
  "FindNode_rtc net local_node target = call_find_node (sendRPC net local_node target)"

definition FindValue_rtc :: "'w rtc_net \<Rightarrow> network_node \<Rightarrow> network_node \<Rightarrow> dht_key \<Rightarrow> 'w \<Rightarrow>
    (go_error + found) \<times> 'w" where
  "FindValue_rtc net local_node target = call_find_value (sendRPC net local_node target)"

lemmas rtc_calls = Ping_rtc_def Store_rtc_def FindNode_rtc_def FindValue_rtc_def

text \<open>
  \<open>FetchBlob\<close> on an established connection: register under a new id, send, and take whichever
  of the blob, the error response and the timer comes first. \<open>arrivals\<close> is what the connection
  received meanwhile; when both channels are ready the environment's \<open>prefer_blob\<close> decides.
\<close>

datatype arrival = ControlMsg rpc_message | BlobMsg bytes

fun arrive :: "arrival \<Rightarrow> peer_conn \<Rightarrow> peer_conn" where
  "arrive (ControlMsg m) p = deliver_rpc m p"
| "arrive (BlobMsg f) p = deliver_blob f p"

definition register_fetch :: "string \<Rightarrow> peer_conn \<Rightarrow> peer_conn" where
  "register_fetch rid p =
     \<lparr>rpcPending = (rpcPending p)(rid \<mapsto> None), blobPending = (blobPending p)(rid \<mapsto> new_pending_blob)\<rparr>"

definition unregister_fetch :: "string \<Rightarrow> peer_conn \<Rightarrow> peer_conn" where
  "unregister_fetch rid p =
     \<lparr>rpcPending = (rpcPending p)(rid := None), blobPending = (blobPending p)(rid := None)\<rparr>"

definition blob_timeout :: go_error where
  "blob_timeout = ErrText ''blob fetch timeout''"

definition fetch_request :: "network_node \<Rightarrow> string \<Rightarrow> string \<Rightarrow> rpc_message" where
  "fetch_request local_node rid ref =
     rpc_of ((new_message RPCFetchBlob)\<lparr>m_req_id := rid, m_sender := Some local_node, m_is_req := True\<rparr>) ref"

definition fetch_outcome :: "bool \<Rightarrow> string \<Rightarrow> peer_conn \<Rightarrow> go_error + bytes" where
  "fetch_outcome prefer_blob rid p =
     (case (Option.bind (blobPending p rid) pb_ch, Option.bind (rpcPending p rid) (\<lambda>r. r)) of
        (Some data, None) \<Rightarrow> Inr data
      | (Some data, Some m) \<Rightarrow> if prefer_blob then Inr data else Inl (ErrText (m_error m))
      | (None, Some m) \<Rightarrow> Inl (ErrText (m_error m))
      | (None, None) \<Rightarrow> Inl blob_timeout)"

definition FetchBlob_rtc ::
  "string \<Rightarrow> go_error option \<Rightarrow> arrival list \<Rightarrow> bool \<Rightarrow> peer_conn \<Rightarrow> (go_error + bytes) \<times> peer_conn"
where
  "FetchBlob_rtc rid send_error arrivals prefer_blob p =
     (let p = register_fetch rid p in
      case send_error of
        Some err \<Rightarrow> (Inl err, unregister_fetch rid p)
      | None \<Rightarrow>
          let p = fold arrive arrivals p in
          (fetch_outcome prefer_blob rid p, unregister_fetch rid p))"

end
