(* ===== verification/Webrtc_Peers.thy ===== *)
theory Webrtc_Peers
  imports Webrtc
begin

text \<open>
  The table \<open>t.peers\<close> of \<open>transport/webrtc/webrtc.go\<close>: which operations put a connection into it
  and take it out. Connections are numbered; the library that negotiates them is represented
  by the outcomes of its calls.
\<close>

record rtc_state =
  rs_peers :: "dht_key \<rightharpoonup> nat"
  rs_connecting :: "(dht_key \<times> nat) list"  \<comment> \<open>calls of \<open>connect\<close> that wait for the answer\<close>
  rs_ready :: "nat set"  \<comment> \<open>connections whose control channel is open\<close>
  rs_closed :: "nat set"
  rs_next :: nat

definition NewTransport_rtc :: rtc_state where
  "NewTransport_rtc =
     \<lparr>rs_peers = Map.empty, rs_connecting = [], rs_ready = {}, rs_closed = {}, rs_next = 0\<rparr>"

text \<open>The calls up to the local description: no connection, a connection that is closed again, or success.\<close>

datatype setup_result = NewPCFails go_error | SetupFails go_error | SetupOk

text \<open>\<open>newPC\<close> and the rest of the setup; the new connection on success.\<close>

definition set_up :: "setup_result \<Rightarrow> rtc_state \<Rightarrow> (go_error + nat) \<times> rtc_state" where
  "set_up su s =
     (case su of
        NewPCFails err \<Rightarrow> (Inl err, s)
      | SetupFails err \<Rightarrow>
          (Inl err, s\<lparr>rs_closed := insert (rs_next s) (rs_closed s), rs_next := Suc (rs_next s)\<rparr>)
      | SetupOk \<Rightarrow> (Inr (rs_next s), s\<lparr>rs_next := Suc (rs_next s)\<rparr>))"

text \<open>\<open>connect\<close> up to the offer: the connection enters the table before it is negotiated.\<close>

definition connect_begin :: "dht_key \<Rightarrow> setup_result \<Rightarrow> rtc_state \<Rightarrow> (go_error + nat) \<times> rtc_state" where
  "connect_begin target su s =
     (case set_up su s of
        (Inl err, s) \<Rightarrow> (Inl err, s)
      | (Inr pc, s) \<Rightarrow>
          (Inr pc, s\<lparr>rs_peers := (rs_peers s)(target \<mapsto> pc),
                     rs_connecting := (target, pc) # rs_connecting s\<rparr>))"

text \<open>
  \<open>connect\<close> from the answer on: no answer, an answer that is rejected, a control channel that
  does not open within 15 seconds, or success.
\<close>

datatype negotiation = OfferFails go_error | AnswerRejected go_error | OpenTimeout | ChannelOpen

definition drop_peer :: "dht_key \<Rightarrow> nat \<Rightarrow> rtc_state \<Rightarrow> rtc_state" where
  "drop_peer target pc s =
     s\<lparr>rs_peers := (rs_peers s)(target := None), rs_closed := insert pc (rs_closed s)\<rparr>"

definition connect_finish :: "dht_key \<Rightarrow> nat \<Rightarrow> negotiation \<Rightarrow> rtc_state \<Rightarrow> (go_error + nat) \<times> rtc_state" where
  "connect_finish target pc ng s =
     (let s = s\<lparr>rs_connecting := remove1 (target, pc) (rs_connecting s)\<rparr> in
      case ng of
        OfferFails err \<Rightarrow> (Inl (ErrWrap ''signaling'' err), drop_peer target pc s)
      | AnswerRejected err \<Rightarrow> (Inl err, drop_peer target pc s)
      | OpenTimeout \<Rightarrow> (Inl (ErrText ''timeout waiting for data channel to open''), s)
      | ChannelOpen \<Rightarrow> (Inr pc, s\<lparr>rs_ready := insert pc (rs_ready s)\<rparr>))"

text \<open>\<open>connect\<close> without anything in between.\<close>

definition connect :: "dht_key \<Rightarrow> setup_result \<Rightarrow> negotiation \<Rightarrow> rtc_state \<Rightarrow> (go_error + nat) \<times> rtc_state" where
  "connect target su ng s =
     (case connect_begin target su s of
        (Inl err, s) \<Rightarrow> (Inl err, s)
      | (Inr pc, s) \<Rightarrow> connect_finish target pc ng s)"

text \<open>\<open>getPeer\<close>: an entry is used whatever became of it, if its channel opens in 15 seconds.\<close>

definition getPeer :: "dht_key \<Rightarrow> setup_result \<Rightarrow> negotiation \<Rightarrow> rtc_state \<Rightarrow> (go_error + nat) \<times> rtc_state" where
  "getPeer target su ng s =
     (case rs_peers s target of
        Some pc \<Rightarrow>
          if pc \<in> rs_ready s then (Inr pc, s)
          else (Inl (ErrText (''peer '' @ hex_encode (key_bytes target) @ '': control channel not ready'')), s)
      | None \<Rightarrow> connect target su ng s)"

text \<open>\<open>handleIncomingOffer\<close>: the caller's id is that of the payload, and its entry is replaced.\<close>

definition handleIncomingOffer :: "dht_key \<Rightarrow> setup_result \<Rightarrow> rtc_state \<Rightarrow> (go_error + nat) \<times> rtc_state" where
  "handleIncomingOffer caller su s =
     (case set_up su s of
        (Inl err, s) \<Rightarrow> (Inl err, s)
      | (Inr pc, s) \<Rightarrow> (Inr pc, s\<lparr>rs_peers := (rs_peers s)(caller \<mapsto> pc)\<rparr>))"

text \<open>\<open>Close\<close> closes the connections of the table.\<close>

definition Close_rtc :: "rtc_state \<Rightarrow> rtc_state" where
  "Close_rtc s = s\<lparr>rs_peers := Map.empty, rs_closed := rs_closed s \<union> ran (rs_peers s)\<rparr>"

section \<open>Every interleaving\<close>

inductive rtc_step :: "rtc_state \<Rightarrow> rtc_state \<Rightarrow> bool" where
  connecting: "connect_begin target su s = (r, t) \<Longrightarrow> rtc_step s t"
| negotiated: "(target, pc) \<in> set (rs_connecting s) \<Longrightarrow> connect_finish target pc ng s = (r, t) \<Longrightarrow> rtc_step s t"
| incoming: "handleIncomingOffer caller su s = (r, t) \<Longrightarrow> rtc_step s t"
| channel_opens: "pc < rs_next s \<Longrightarrow> rtc_step s (s\<lparr>rs_ready := insert pc (rs_ready s)\<rparr>)"
| closing: "rtc_step s (Close_rtc s)"

text \<open>
  No entry is a connection that was closed here, no connection has two entries, and a
  connection that is being negotiated is at most the entry of its own target.
\<close>

definition rtc_ok :: "rtc_state \<Rightarrow> bool" where
  "rtc_ok s \<longleftrightarrow>
     (\<forall>k pc. rs_peers s k = Some pc \<longrightarrow> pc < rs_next s \<and> pc \<notin> rs_closed s)
     \<and> (\<forall>pc \<in> rs_closed s. pc < rs_next s)
     \<and> (\<forall>k k' pc. rs_peers s k = Some pc \<longrightarrow> rs_peers s k' = Some pc \<longrightarrow> k = k')
     \<and> (\<forall>k k' pc. (k, pc) \<in> set (rs_connecting s) \<longrightarrow> rs_peers s k' = Some pc \<longrightarrow> k = k')
     \<and> (\<forall>k pc. (k, pc) \<in> set (rs_connecting s) \<longrightarrow> pc < rs_next s)"

lemma rtc_ok_new: "rtc_ok NewTransport_rtc"
  by (simp add: rtc_ok_def NewTransport_rtc_def)

lemma set_up_cases:
  assumes "set_up su s = (r, t)"
  obtains "t = s" "\<exists>e. r = Inl e"
  | "t = s\<lparr>rs_closed := insert (rs_next s) (rs_closed s), rs_next := Suc (rs_next s)\<rparr>" "\<exists>e. r = Inl e"
  | "t = s\<lparr>rs_next := Suc (rs_next s)\<rparr>" "r = Inr (rs_next s)"
  using assms by (cases su) (auto simp: set_up_def)

lemma rtc_ok_discard:
  "rtc_ok s \<Longrightarrow> rtc_ok (s\<lparr>rs_closed := insert (rs_next s) (rs_closed s), rs_next := Suc (rs_next s)\<rparr>)"
  unfolding rtc_ok_def by (auto simp: less_Suc_eq)

lemma rtc_ok_entry:
  "rtc_ok s \<Longrightarrow> rtc_ok (s\<lparr>rs_next := Suc (rs_next s), rs_peers := (rs_peers s)(k \<mapsto> rs_next s)\<rparr>)"
  unfolding rtc_ok_def by (auto simp: less_Suc_eq)


lemma rtc_ok_connecting:
  "rtc_ok s \<Longrightarrow> rs_peers s k = Some pc \<Longrightarrow> rtc_ok (s\<lparr>rs_connecting := (k, pc) # rs_connecting s\<rparr>)"
  unfolding rtc_ok_def by auto

lemma rtc_ok_fewer: "rtc_ok s \<Longrightarrow> set c \<subseteq> set (rs_connecting s) \<Longrightarrow> rtc_ok (s\<lparr>rs_connecting := c\<rparr>)"
  unfolding rtc_ok_def by (simp, blast)

lemma rtc_ok_forget: "rtc_ok s \<Longrightarrow> rtc_ok (s\<lparr>rs_connecting := remove1 x (rs_connecting s)\<rparr>)"
  by (erule rtc_ok_fewer) (rule set_remove1_subset)

lemma rtc_ok_drop:
  assumes "rtc_ok s" and "(k, pc) \<in> set (rs_connecting s)"
  shows "rtc_ok (drop_peer k pc s)"
  using assms unfolding rtc_ok_def drop_peer_def by (auto split: if_splits) metis

lemma rtc_ok_ready: "rtc_ok s \<Longrightarrow> rtc_ok (s\<lparr>rs_ready := r\<rparr>)"
  by (simp add: rtc_ok_def)

lemma drop_peer_forget:
  "drop_peer k pc (s\<lparr>rs_connecting := c\<rparr>) = (drop_peer k pc s)\<lparr>rs_connecting := c\<rparr>"
  by (simp add: drop_peer_def)

lemma rs_connecting_drop [simp]: "rs_connecting (drop_peer k pc s) = rs_connecting s"
  by (simp add: drop_peer_def)

lemma rtc_ok_finish:
  assumes "rtc_ok s" and "(target, pc) \<in> set (rs_connecting s)"
    and "connect_finish target pc ng s = (r, t)"
  shows "rtc_ok t"
proof -
  have "rtc_ok ((drop_peer target pc s)\<lparr>rs_connecting := remove1 (target, pc) (rs_connecting s)\<rparr>)"
    using rtc_ok_forget [OF rtc_ok_drop [OF assms(1,2)]] by simp
  moreover have "rtc_ok (s\<lparr>rs_connecting := remove1 (target, pc) (rs_connecting s), rs_ready := R\<rparr>)" for R
    by (rule rtc_ok_ready [OF rtc_ok_forget [OF assms(1)]])
  ultimately show ?thesis
    using assms(3) rtc_ok_forget [OF assms(1)]
    by (cases ng) (auto simp: connect_finish_def drop_peer_forget Let_def)
qed

lemma rtc_step_ok: "rtc_step s t \<Longrightarrow> rtc_ok s \<Longrightarrow> rtc_ok t"
proof (induction rule: rtc_step.induct)
  case (connecting target su s r t)
  then show ?case
    by (cases su)
      (auto simp: connect_begin_def set_up_def intro: rtc_ok_discard
        rtc_ok_connecting [OF rtc_ok_entry, simplified])
next
  case (incoming caller su s r t)
  then show ?case
    by (cases su) (auto simp: handleIncomingOffer_def set_up_def intro: rtc_ok_discard rtc_ok_entry)
next
  case (closing s)
  then show ?case by (auto simp: rtc_ok_def Close_rtc_def ran_def)
qed (auto intro: rtc_ok_finish rtc_ok_ready)

interpretation rtc: state_machine NewTransport_rtc rtc_step rtc_ok
  by unfold_locales (auto intro: rtc_ok_new rtc_step_ok)

end
