(* ===== verification/Webrtc_Flow.thy ===== *)
theory Webrtc_Flow
  imports Webrtc_Blob
begin

text \<open>
  The pace of blob transfers in \<open>transport/webrtc/webrtc.go\<close>: a goroutine of \<open>sendBlobChunked\<close> waits
  while the data channel has more than \<open>blobBufferThreshold\<close> bytes to send, until the library says
  that they have become few. All transfers of a connection share one channel for that signal.
\<close>

section \<open>Senders and the data channel\<close>

definition blobBufferThreshold :: nat where
  "blobBufferThreshold = 8 * 1024 * 1024"

text \<open>
  A sender by the sizes of the frames it still has to send: before the look at \<open>BufferedAmount\<close>,
  about to send, or in \<open><-lowSignal\<close>. An empty list ends the loop.
\<close>

datatype sender = Checking "nat list" | Sending "nat list" | Blocked "nat list" | Returned

text \<open>
  \<open>fl_events\<close> are the calls of \<open>OnBufferedAmountLow\<close>'s function that the library has yet to make,
  \<open>fl_signal\<close> the element of \<open>blobLowSignal\<close>, a channel of capacity one. \<open>fl_open\<close> is whether the
  connection is there.
\<close>

record flow =
  fl_open :: bool
  fl_buffered :: nat
  fl_events :: nat
  fl_signal :: bool
  fl_senders :: "sender list"

definition set_sender :: "nat \<Rightarrow> sender \<Rightarrow> flow \<Rightarrow> flow" where
  "set_sender i x s = s\<lparr>fl_senders := (fl_senders s)[i := x]\<rparr>"

definition check_buffer :: "nat \<Rightarrow> nat list \<Rightarrow> flow \<Rightarrow> flow" where
  "check_buffer i frames s =
     set_sender i (case frames of
         [] \<Rightarrow> Returned
       | _ \<Rightarrow> if blobBufferThreshold < fl_buffered s then Blocked frames else Sending frames) s"

definition send_frame :: "nat \<Rightarrow> nat list \<Rightarrow> flow \<Rightarrow> flow" where
  "send_frame i frames s = set_sender i (Checking (tl frames)) (s\<lparr>fl_buffered := fl_buffered s + hd frames\<rparr>)"

definition take_signal :: "nat \<Rightarrow> nat list \<Rightarrow> flow \<Rightarrow> flow" where
  "take_signal i frames s = set_sender i (Checking frames) (s\<lparr>fl_signal := False\<rparr>)"

text \<open>
  The library sends \<open>n\<close> bytes; crossing the threshold is an event. The function it calls puts a
  signal unless there is one.
\<close>

definition drain :: "nat \<Rightarrow> flow \<Rightarrow> flow" where
  "drain n s =
     s\<lparr>fl_buffered := fl_buffered s - n,
       fl_events := (if blobBufferThreshold < fl_buffered s \<and> fl_buffered s - n \<le> blobBufferThreshold
                     then Suc (fl_events s) else fl_events s)\<rparr>"

definition buffer_low :: "flow \<Rightarrow> flow" where
  "buffer_low s = s\<lparr>fl_events := fl_events s - 1, fl_signal := True\<rparr>"

text \<open>
  The connection ends: from then on nothing is sent, what was buffered stays, and the calls that the
  library has not made yet may not come any more. Nothing tells the senders.
\<close>

definition conn_ends :: "flow \<Rightarrow> flow" where
  "conn_ends s = s\<lparr>fl_open := False\<rparr>"

definition event_dropped :: "flow \<Rightarrow> flow" where
  "event_dropped s = s\<lparr>fl_events := fl_events s - 1\<rparr>"

inductive flow_step :: "flow \<Rightarrow> flow \<Rightarrow> bool" where
  check: "i < length (fl_senders s) \<Longrightarrow> fl_senders s ! i = Checking frames \<Longrightarrow> flow_step s (check_buffer i frames s)"
| send: "fl_open s \<Longrightarrow> i < length (fl_senders s) \<Longrightarrow> fl_senders s ! i = Sending frames \<Longrightarrow>
     flow_step s (send_frame i frames s)"
| fail: "i < length (fl_senders s) \<Longrightarrow> fl_senders s ! i = Sending frames \<Longrightarrow> flow_step s (set_sender i Returned s)"
| wake: "i < length (fl_senders s) \<Longrightarrow> fl_senders s ! i = Blocked frames \<Longrightarrow> fl_signal s \<Longrightarrow>
     flow_step s (take_signal i frames s)"
| drain: "fl_open s \<Longrightarrow> 0 < n \<Longrightarrow> n \<le> fl_buffered s \<Longrightarrow> flow_step s (drain n s)"
| low: "0 < fl_events s \<Longrightarrow> flow_step s (buffer_low s)"
| conn_end: "fl_open s \<Longrightarrow> flow_step s (conn_ends s)"
| event_drop: "\<not> fl_open s \<Longrightarrow> 0 < fl_events s \<Longrightarrow> flow_step s (event_dropped s)"

text \<open>The steps on which the connection does not end.\<close>

definition open_step :: "flow \<Rightarrow> flow \<Rightarrow> bool" where
  "open_step s t \<longleftrightarrow> flow_step s t \<and> fl_open t"

text \<open>Transfers of some blobs over one connection, from the frames that \<open>sendBlobChunked\<close> makes.\<close>

definition frame_sizes :: "string \<times> bytes \<Rightarrow> nat list" where
  "frame_sizes b = map length (fst (sendBlobChunked (fst b) (snd b) []))"

definition transfers :: "(string \<times> bytes) list \<Rightarrow> flow" where
  "transfers bs = \<lparr>fl_open = True, fl_buffered = 0, fl_events = 0, fl_signal = False, fl_senders = map (\<lambda>b. Checking (frame_sizes b)) bs\<rparr>"

definition maxFrame :: nat where
  "maxFrame = 33 + blobChunkSize"

lemma chunk_sizes: "c \<in> set (chunks data) \<Longrightarrow> length (snd c) \<le> blobChunkSize"
proof (induction data rule: chunks.induct)
  case (1 data)
  then show ?case by (auto simp: chunks.simps [of data] split: if_splits)
qed

lemma frame_sizes_bound: "x \<in> set (frame_sizes b) \<Longrightarrow> x \<le> maxFrame"
  using chunk_sizes by (auto simp: frame_sizes_def sendBlobChunked_ok blob_frame_def maxFrame_def)

section \<open>The invariant\<close>

primrec left_to_send :: "sender \<Rightarrow> nat list" where
  "left_to_send (Checking fr) = fr"
| "left_to_send (Sending fr) = fr"
| "left_to_send (Blocked fr) = fr"
| "left_to_send Returned = []"

definition is_sending :: "sender \<Rightarrow> nat" where
  "is_sending x = (case x of Sending fr \<Rightarrow> 1 | _ \<Rightarrow> 0)"

definition sender_ok :: "sender \<Rightarrow> bool" where
  "sender_ok x \<longleftrightarrow> (\<forall>n \<in> set (left_to_send x). n \<le> maxFrame)
     \<and> (case x of Sending fr \<Rightarrow> fr \<noteq> [] | Blocked fr \<Rightarrow> fr \<noteq> [] | _ \<Rightarrow> True)"

text \<open>
  Each sender adds one frame after it saw few bytes. A single sender that is blocked has a signal
  coming while there are few, unless the connection has ended.
\<close>

definition flow_ok :: "flow \<Rightarrow> bool" where
  "flow_ok s \<longleftrightarrow>
     (\<forall>x \<in> set (fl_senders s). sender_ok x)
     \<and> fl_buffered s + maxFrame * sum_list (map is_sending (fl_senders s))
         \<le> blobBufferThreshold + maxFrame * length (fl_senders s)
     \<and> (\<forall>fr. fl_senders s = [Blocked fr] \<longrightarrow> \<not> fl_open s \<or> blobBufferThreshold < fl_buffered s \<or> 0 < fl_events s \<or> fl_signal s)"

definition sender_work :: "sender \<Rightarrow> nat" where
  "sender_work x = sum_list (map (\<lambda>n. 2 + 5 * n) (left_to_send x))
     + (case x of Checking fr \<Rightarrow> 2 | Sending fr \<Rightarrow> 1 | _ \<Rightarrow> 0)"

definition flow_work :: "flow \<Rightarrow> nat" where
  "flow_work s = sum_list (map sender_work (fl_senders s)) + 5 * fl_buffered s + 4 * fl_events s
     + (if fl_signal s then 3 else 0) + (if fl_open s then 1 else 0)"

section \<open>Every step keeps it\<close>

lemma sender_replaced:
  assumes "i < length (fl_senders s)" and "flow_ok s" and "sender_ok x"
  shows "\<forall>y \<in> set ((fl_senders s)[i := x]). sender_ok y"
  using assms set_update_subset_insert [of "fl_senders s" i x] by (auto simp: flow_ok_def)

lemma sending_replaced:
  assumes "i < length (fl_senders s)"
  shows "maxFrame * sum_list (map is_sending ((fl_senders s)[i := x])) + maxFrame * is_sending (fl_senders s ! i)
     = maxFrame * is_sending x + maxFrame * sum_list (map is_sending (fl_senders s))"
  using sum_list_replace [OF assms, of is_sending x] by (metis add_mult_distrib2)

lemma sending_same:
  "i < length (fl_senders s) \<Longrightarrow> is_sending x = is_sending (fl_senders s ! i) \<Longrightarrow>
     sum_list (map is_sending ((fl_senders s)[i := x])) = sum_list (map is_sending (fl_senders s))"
  using sum_list_replace [of i "fl_senders s" is_sending x] by simp

lemma sending_bound:
  assumes "i < length (fl_senders s)"
  shows "sum_list (map is_sending ((fl_senders s)[i := x])) \<le> length (fl_senders s)"
proof -
  have "sum_list (map is_sending xs) \<le> length xs" for xs
    by (induction xs) (auto simp: is_sending_def split: sender.split)
  from this [of "(fl_senders s)[i := x]"] show ?thesis by simp
qed

lemma single_sender: "i < length xs \<Longrightarrow> xs[i := x] = [y] \<longleftrightarrow> length xs = 1 \<and> x = y"
  by (cases xs; cases "tl xs") (auto split: nat.splits)

lemma flow_step_ok:
  assumes "flow_step s t" and ok: "flow_ok s"
  shows "flow_ok t"
  using assms(1)
proof cases
  case (check i frames)
  define x where "x = (case frames of [] \<Rightarrow> Returned | _ \<Rightarrow> if blobBufferThreshold < fl_buffered s then Blocked frames else Sending frames)"
  have t: "t = set_sender i x s" by (simp add: check x_def check_buffer_def)
  have "sender_ok (Checking frames)" using ok check nth_mem [of i "fl_senders s"] by (simp add: flow_ok_def)
  then have x: "sender_ok x" by (auto simp: x_def sender_ok_def split: list.split)
  have "fl_buffered s + maxFrame * sum_list (map is_sending ((fl_senders s)[i := x]))
      \<le> blobBufferThreshold + maxFrame * length (fl_senders s)"
  proof (cases "is_sending x = 1")
    case True
    then have "fl_buffered s \<le> blobBufferThreshold" by (auto simp: x_def is_sending_def split: list.splits if_splits)
    then show ?thesis using sending_bound [OF check(2), of x] by (intro add_mono mult_le_mono2)
  next
    case False
    then have "is_sending x = 0" by (auto simp: x_def is_sending_def split: list.splits if_splits)
    with check have "sum_list (map is_sending ((fl_senders s)[i := x])) = sum_list (map is_sending (fl_senders s))"
      by (intro sending_same) (simp_all add: is_sending_def)
    with ok show ?thesis unfolding flow_ok_def by metis
  qed
  moreover have "blobBufferThreshold < fl_buffered s" if "x = Blocked fr" for fr
    using that by (auto simp: x_def split: list.splits if_splits)
  ultimately show ?thesis
    using sender_replaced [OF check(2) ok x] check(2)
    by (auto simp: flow_ok_def t set_sender_def single_sender)
next
  case (send i frames)
  have s: "sender_ok (Sending frames)" using ok send nth_mem [of i "fl_senders s"] by (auto simp: flow_ok_def)
  then obtain n fr where fr: "frames = n # fr" "n \<le> maxFrame" by (cases frames) (auto simp: sender_ok_def)
  have "sender_ok (Checking fr)" using s by (simp add: sender_ok_def fr)
  from sender_replaced [OF send(3) ok this] sending_replaced [OF send(3), of "Checking fr"] ok send(3,4) fr
  show ?thesis by (simp add: send(1) send_frame_def set_sender_def flow_ok_def is_sending_def single_sender)
next
  case (fail i frames)
  have "sender_ok Returned" by (simp add: sender_ok_def)
  from sender_replaced [OF fail(2) ok this] sending_replaced [OF fail(2), of Returned] ok fail(2,3)
  show ?thesis by (simp add: fail(1) set_sender_def flow_ok_def is_sending_def single_sender)
next
  case (wake i frames)
  have "sender_ok (Blocked frames)" using ok wake nth_mem [of i "fl_senders s"] by (auto simp: flow_ok_def)
  then have "sender_ok (Checking frames)" by (simp add: sender_ok_def)
  from sender_replaced [OF wake(2) ok this] sending_same [OF wake(2), of "Checking frames"] ok wake(2,3)
  show ?thesis by (simp add: wake(1) take_signal_def set_sender_def flow_ok_def is_sending_def single_sender)
qed (use ok in \<open>auto simp: flow_ok_def drain_def buffer_low_def conn_ends_def event_dropped_def\<close>)

lemma flow_step_works:
  assumes "flow_step s t" and ok: "flow_ok s"
  shows "flow_work t < flow_work s"
  using assms(1)
proof cases
  case (check i frames)
  define x where "x = (case frames of [] \<Rightarrow> Returned | _ \<Rightarrow> if blobBufferThreshold < fl_buffered s then Blocked frames else Sending frames)"
  have "sender_work x < sender_work (Checking frames)" by (simp add: x_def sender_work_def split: list.split)
  with sum_list_replace [OF check(2), of sender_work x] check(3)
  have "sum_list (map sender_work ((fl_senders s)[i := x])) < sum_list (map sender_work (fl_senders s))" by simp
  then show ?thesis by (simp add: check(1) flow_work_def check_buffer_def set_sender_def x_def [symmetric])
next
  case (send i frames)
  have "sender_ok (Sending frames)" using ok send nth_mem [of i "fl_senders s"] by (auto simp: flow_ok_def)
  then obtain n fr where "frames = n # fr" by (cases frames) (auto simp: sender_ok_def)
  with sum_list_replace [OF send(3), of sender_work "Checking fr"] send show ?thesis
    by (simp add: flow_work_def send_frame_def set_sender_def sender_work_def)
next
  case (fail i frames)
  with sum_list_replace [OF fail(2), of sender_work Returned] show ?thesis
    by (simp add: flow_work_def set_sender_def sender_work_def)
next
  case (wake i frames)
  with sum_list_replace [OF wake(2), of sender_work "Checking frames"] show ?thesis
    by (simp add: flow_work_def take_signal_def set_sender_def sender_work_def)
qed (auto simp: flow_work_def drain_def buffer_low_def conn_ends_def event_dropped_def)

lemma transfers_ok: "flow_ok (transfers bs)"
proof -
  have "is_sending \<circ> (\<lambda>b. Checking (frame_sizes b)) = (\<lambda>b. 0)" by (simp add: fun_eq_iff is_sending_def)
  moreover have "sender_ok (Checking (frame_sizes b))" for b using frame_sizes_bound by (auto simp: sender_ok_def)
  ultimately show ?thesis by (auto simp: flow_ok_def transfers_def)
qed

interpretation flow: stopping_machine "transfers bs" flow_step flow_ok flow_work
  by unfold_locales (rule transfers_ok, (rule flow_step_ok flow_step_works; assumption)+)

section \<open>Runs\<close>

text \<open>While the connection is there, nothing else moves only when the buffer is empty and every sender
  has returned or waits in vain.\<close>

lemma open_stepI: "flow_step s t \<Longrightarrow> fl_open t \<Longrightarrow> open_step s t"
  by (simp add: open_step_def)

lemma stuck_flow:
  assumes "\<nexists>t. open_step s t" and "fl_open s" and "x \<in> set (fl_senders s)"
  shows "fl_buffered s = 0 \<and> fl_events s = 0 \<and> (x = Returned \<or> (\<exists>fr. x = Blocked fr \<and> \<not> fl_signal s))"
proof -
  have no: "\<not> flow_step s t" if "fl_open t" for t using assms(1) that open_stepI by blast
  from assms(3) obtain i where i: "i < length (fl_senders s)" "fl_senders s ! i = x" by (metis in_set_conv_nth)
  have "fl_buffered s = 0" using no [of "drain (fl_buffered s) s"] drain [OF assms(2), of "fl_buffered s"] assms(2)
    by (auto simp: drain_def)
  moreover have "fl_events s = 0" using no [of "buffer_low s"] low [of s] assms(2) by (auto simp: buffer_low_def)
  moreover have "x = Returned \<or> (\<exists>fr. x = Blocked fr \<and> \<not> fl_signal s)"
  proof (cases x)
    case (Checking fr)
    with no [of "check_buffer i fr s"] check [OF i(1)] i(2) assms(2) show ?thesis by (simp add: check_buffer_def set_sender_def)
  next
    case (Sending fr)
    with no [of "set_sender i Returned s"] fail [OF i(1)] i(2) assms(2) show ?thesis by (simp add: set_sender_def)
  next
    case (Blocked fr)
    with no [of "take_signal i fr s"] wake [OF i(1)] i(2) assms(2) show ?thesis by (auto simp: take_signal_def set_sender_def)
  qed simp
  ultimately show ?thesis by blast
qed

lemma length_flow: "flow_step\<^sup>*\<^sup>* s t \<Longrightarrow> length (fl_senders t) = length (fl_senders s)"
proof (induction rule: rtranclp_induct)
  case (step t u)
  have "length (fl_senders u) = length (fl_senders t)"
    using step(2) by cases (simp_all add: check_buffer_def send_frame_def take_signal_def set_sender_def drain_def buffer_low_def conn_ends_def event_dropped_def)
  with step(3) show ?case by simp
qed simp

lemma open_steps_flow: "open_step\<^sup>*\<^sup>* s t \<Longrightarrow> flow_step\<^sup>*\<^sup>* s t"
  by (induction rule: rtranclp_induct) (auto simp: open_step_def)

text \<open>A machine whose steps use up work also stops when only some of the steps are taken.\<close>

lemma open_steps_stop: "flow_ok s \<Longrightarrow> fl_open s \<Longrightarrow> \<exists>t. open_step\<^sup>*\<^sup>* s t \<and> fl_open t \<and> (\<nexists>u. open_step t u)"
proof (induction "flow_work s" arbitrary: s rule: less_induct)
  case less
  show ?case
  proof (cases "\<exists>u. open_step s u")
    case True
    then obtain u where u: "flow_step s u" "fl_open u" by (auto simp: open_step_def)
    from less(1) [OF flow_step_works [OF u(1) less(2)] flow_step_ok [OF u(1) less(2)] u(2)] u show ?thesis
      by (blast intro: converse_rtranclp_into_rtranclp open_stepI)
  qed (use less in blast)
qed

text \<open>A single transfer returns, unless the connection ends.\<close>

lemma single_returns:
  assumes "flow_step\<^sup>*\<^sup>* (transfers [b]) s" and "fl_open s" and "\<nexists>t. open_step s t"
  shows "fl_senders s = [Returned] \<and> fl_buffered s = 0"
proof -
  have ok: "flow_ok s" by (rule flow.reachable_ok [OF assms(1)])
  have "length (fl_senders s) = 1" using length_flow [OF assms(1)] by (simp add: transfers_def)
  then obtain x where x: "fl_senders s = [x]" by (auto simp: length_Suc_conv)
  with stuck_flow [OF assms(3,2), of x] ok assms(2) show ?thesis by (auto simp: flow_ok_def)
qed

text \<open>A sender that is blocked after the end, with no signal and no call coming, stays so.\<close>

lemma blocked_for_good:
  assumes "flow_step\<^sup>*\<^sup>* s t" and "\<not> fl_open s" and "\<not> fl_signal s" and "fl_events s = 0" and "i < length (fl_senders s)"
    and "fl_senders s ! i = Blocked fr"
  shows "\<not> fl_open t \<and> \<not> fl_signal t \<and> fl_events t = 0 \<and> i < length (fl_senders t) \<and> fl_senders t ! i = Blocked fr"
  using assms(1)
proof (induction rule: rtranclp_induct)
  case (step t u)
  from step(2,3) show ?case
    by cases (auto simp: check_buffer_def take_signal_def set_sender_def nth_list_update)
qed (use assms(2-) in simp)

section \<open>Two transfers\<close>

lemma check_and_send:
  assumes "i < length ss" and "ss ! i = Checking (x # xs)" and "b \<le> blobBufferThreshold"
  shows "flow_step\<^sup>*\<^sup>* \<lparr>fl_open = True, fl_buffered = b, fl_events = e, fl_signal = g, fl_senders = ss\<rparr>
     \<lparr>fl_open = True, fl_buffered = b + x, fl_events = e, fl_signal = g, fl_senders = ss[i := Checking xs]\<rparr>"
proof -
  let ?s = "\<lparr>fl_open = True, fl_buffered = b, fl_events = e, fl_signal = g, fl_senders = ss\<rparr>"
  have "flow_step ?s (check_buffer i (x # xs) ?s)" using assms by (intro check) simp_all
  moreover have "flow_step (check_buffer i (x # xs) ?s) (send_frame i (x # xs) (check_buffer i (x # xs) ?s))"
    using assms by (intro send) (simp_all add: check_buffer_def set_sender_def)
  ultimately show ?thesis
    using assms(3) by (simp add: check_buffer_def send_frame_def set_sender_def)
qed

lemma send_many:
  "b + n * x \<le> blobBufferThreshold + x \<Longrightarrow>
     flow_step\<^sup>*\<^sup>* \<lparr>fl_open = True, fl_buffered = b, fl_events = e, fl_signal = g, fl_senders = Checking (replicate n x @ ys) # zs\<rparr>
       \<lparr>fl_open = True, fl_buffered = b + n * x, fl_events = e, fl_signal = g, fl_senders = Checking ys # zs\<rparr>"
proof (induction n arbitrary: b)
  case (Suc n)
  then have "b + n * x \<le> blobBufferThreshold" by simp
  then have "b \<le> blobBufferThreshold" by linarith
  then have "flow_step\<^sup>*\<^sup>* \<lparr>fl_open = True, fl_buffered = b, fl_events = e, fl_signal = g, fl_senders = Checking (replicate (Suc n) x @ ys) # zs\<rparr>
      \<lparr>fl_open = True, fl_buffered = b + x, fl_events = e, fl_signal = g, fl_senders = Checking (replicate n x @ ys) # zs\<rparr>"
    using check_and_send [of 0 "Checking (x # replicate n x @ ys) # zs" x "replicate n x @ ys" b e g] by simp
  also have "flow_step\<^sup>*\<^sup>* \<dots> \<lparr>fl_open = True, fl_buffered = b + Suc n * x, fl_events = e, fl_signal = g, fl_senders = Checking ys # zs\<rparr>"
    using Suc.IH [of "b + x"] Suc.prems by (simp add: add.assoc)
  finally show ?case .
qed simp

lemma full_chunks:
  "length data = Suc n * blobChunkSize \<Longrightarrow> map (length \<circ> snd) (chunks data) = replicate (Suc n) blobChunkSize"
proof (induction n arbitrary: data)
  case 0
  then have "data \<noteq> []" by (auto simp: blobChunkSize_def)
  with 0 show ?case by (simp add: chunks.simps [of data])
next
  case (Suc n)
  have "length (drop blobChunkSize data) = Suc n * blobChunkSize" using Suc.prems by simp
  note IH = Suc.IH [OF this]
  have "blobChunkSize < length data" using Suc.prems blobChunkSize_pos by simp
  moreover from this have "data \<noteq> []" by auto
  ultimately show ?case using IH by (simp add: chunks.simps [of data] min_def)
qed

lemma full_frames:
  assumes "length data = Suc n * blobChunkSize"
  shows "frame_sizes (rid, data) = replicate (Suc n) maxFrame"
proof -
  have "frame_sizes (rid, data) = map ((+) 33) (map (length \<circ> snd) (chunks data))"
    by (simp add: frame_sizes_def sendBlobChunked_ok blob_frame_def)
  then show ?thesis by (simp add: full_chunks [OF assms] maxFrame_def)
qed

text \<open>
  Both wait for the buffer to drain. Its one signal wakes the first, whose last frame does not fill
  the buffer again; so there is no further signal, and the second waits with an empty buffer.
\<close>

lemma shared_signal_run:
  assumes "fr \<noteq> []"
  shows "flow_step\<^sup>*\<^sup>* \<lparr>fl_open = True, fl_buffered = 0, fl_events = 0, fl_signal = False, fl_senders = [Checking (replicate 33 maxFrame), Checking fr]\<rparr>
     \<lparr>fl_open = True, fl_buffered = 0, fl_events = 0, fl_signal = False, fl_senders = [Returned, Blocked fr]\<rparr>"
proof -
  let ?s = "\<lambda>b e g x y. \<lparr>fl_open = True, fl_buffered = b, fl_events = e, fl_signal = g, fl_senders = [x, y]\<rparr>" and ?m = maxFrame and ?T = blobBufferThreshold
  have m: "maxFrame = 262177" "blobBufferThreshold = 8388608"
    by (simp_all add: maxFrame_def blobChunkSize_def blobBufferThreshold_def)
  have "replicate 33 ?m = replicate 32 ?m @ [?m]" by (simp add: replicate_append_same flip: replicate_Suc)
  then have "flow_step\<^sup>*\<^sup>* (?s 0 0 False (Checking (replicate 33 ?m)) (Checking fr)) (?s (32 * ?m) 0 False (Checking [?m]) (Checking fr))"
    using send_many [of 0 32 ?m 0 False "[?m]" "[Checking fr]"] m by simp
  also have "flow_step (?s (32 * ?m) 0 False (Checking [?m]) (Checking fr)) (?s (32 * ?m) 0 False (Blocked [?m]) (Checking fr))"
    using check [of 0 "?s (32 * ?m) 0 False (Checking [?m]) (Checking fr)"] m by (simp add: check_buffer_def set_sender_def)
  also have "flow_step \<dots> (?s (32 * ?m) 0 False (Blocked [?m]) (Blocked fr))"
    using check [of 1 "?s (32 * ?m) 0 False (Blocked [?m]) (Checking fr)"] m assms
    by (simp add: check_buffer_def set_sender_def split: list.splits)
  also have "flow_step \<dots> (?s 0 1 False (Blocked [?m]) (Blocked fr))"
    using drain [of "?s (32 * ?m) 0 False (Blocked [?m]) (Blocked fr)" "32 * ?m"] m by (simp add: drain_def)
  also have "flow_step \<dots> (?s 0 0 True (Blocked [?m]) (Blocked fr))"
    using low [of "?s 0 1 False (Blocked [?m]) (Blocked fr)"] by (simp add: buffer_low_def)
  also have "flow_step \<dots> (?s 0 0 False (Checking [?m]) (Blocked fr))"
    using wake [of 0 "?s 0 0 True (Blocked [?m]) (Blocked fr)"] by (simp add: take_signal_def set_sender_def)
  also have "flow_step\<^sup>*\<^sup>* \<dots> (?s ?m 0 False (Checking []) (Blocked fr))"
    using check_and_send [of 0 "[Checking [?m], Blocked fr]" ?m "[]" 0 0 False] by simp
  also have "flow_step \<dots> (?s ?m 0 False Returned (Blocked fr))"
    using check [of 0 "?s ?m 0 False (Checking []) (Blocked fr)"] by (simp add: check_buffer_def set_sender_def)
  also have "flow_step \<dots> (?s 0 0 False Returned (Blocked fr))"
    using drain [of "?s ?m 0 False Returned (Blocked fr)" ?m] m by (simp add: drain_def)
  finally show ?thesis .
qed

inductive_simps flow_stepE: "flow_step s t"

lemma no_more_steps:
  "\<not> open_step \<lparr>fl_open = True, fl_buffered = 0, fl_events = 0, fl_signal = False, fl_senders = [Returned, Blocked fr]\<rparr> t"
  by (auto simp: open_step_def flow_stepE nth_Cons conn_ends_def split: nat.splits)

text \<open>A transfer that fills the buffer just before the connection ends.\<close>

lemma blocked_run:
  assumes "n * x = b" and "blobBufferThreshold < b" and "b \<le> blobBufferThreshold + x" and "ys \<noteq> []"
  shows "flow_step\<^sup>*\<^sup>* \<lparr>fl_open = True, fl_buffered = 0, fl_events = 0, fl_signal = False, fl_senders = [Checking (replicate n x @ ys)]\<rparr>
     \<lparr>fl_open = False, fl_buffered = b, fl_events = 0, fl_signal = False, fl_senders = [Blocked ys]\<rparr>"
proof -
  let ?s = "\<lambda>u x. \<lparr>fl_open = u, fl_buffered = b, fl_events = 0, fl_signal = False, fl_senders = [x]\<rparr>"
  have "flow_step\<^sup>*\<^sup>* \<lparr>fl_open = True, fl_buffered = 0, fl_events = 0, fl_signal = False, fl_senders = [Checking (replicate n x @ ys)]\<rparr>
      (?s True (Checking ys))"
    using send_many [of 0 n x 0 False ys "[]"] assms(1,3) by simp
  also have "flow_step \<dots> (?s True (Blocked ys))"
    using check [of 0 "?s True (Checking ys)"] assms(2,4) by (simp add: check_buffer_def set_sender_def split: list.splits)
  also have "flow_step \<dots> (?s False (Blocked ys))"
    using conn_end [of "?s True (Blocked ys)"] by (simp add: conn_ends_def)
  finally show ?thesis .
qed

section \<open>The data channels of a connection\<close>

text \<open>
  What \<open>handleIncomingOffer\<close> does with a data channel that the other side made, and when it opens:
  closing a channel that signals readiness for a second time panics (\<open>None\<close>).
\<close>

definition labelControl :: string where "labelControl = ''dht-control''"
definition labelBlob :: string where "labelBlob = ''dht-blob''"

record data_channels =
  dc_control :: "nat option"
  dc_blob :: "nat option"
  dc_control_ready :: bool
  dc_blob_ready :: bool

definition channel_arrives :: "string \<Rightarrow> nat \<Rightarrow> data_channels \<Rightarrow> data_channels" where
  "channel_arrives label dc s =
     (if label = labelControl then s\<lparr>dc_control := Some dc\<rparr>
      else if label = labelBlob then s\<lparr>dc_blob := Some dc\<rparr> else s)"

definition channel_opens :: "string \<Rightarrow> data_channels \<Rightarrow> data_channels option" where
  "channel_opens label s =
     (if label = labelControl then if dc_control_ready s then None else Some (s\<lparr>dc_control_ready := True\<rparr>)
      else if label = labelBlob then if dc_blob_ready s then None else Some (s\<lparr>dc_blob_ready := True\<rparr>)
      else Some s)"

lemma opens_twice:
  "label \<in> {labelControl, labelBlob} \<Longrightarrow> channel_opens label s = Some s' \<Longrightarrow> channel_opens label (channel_arrives label dc s') = None"
  by (auto simp: channel_opens_def channel_arrives_def labelControl_def labelBlob_def split: if_splits)

end
