(* ===== verification/Udp.thy ===== *)
theory Udp
  imports Rpc_Message
begin

text \<open>
  \<open>transport/udp/udp.go\<close>: the request server, the client side with its table of pending
  requests as a state machine, and the transfer of blobs over TCP.
\<close>

section \<open>Serving requests\<close>

text \<open>The request branch of \<open>handleMessage\<close>: the response it writes back.\<close>

definition udp_respond ::
  "'s handler option \<Rightarrow> network_node \<Rightarrow> message \<Rightarrow> 's \<Rightarrow> message \<times> 's"
where
  "udp_respond handler localNode msg s =
     (let resp = (new_message (m_type msg))\<lparr>m_req_id := m_req_id msg, m_sender := Some localNode\<rparr> in
      case handler of
        None \<Rightarrow> (resp\<lparr>m_error := ''rpc handler is not configured''\<rparr>, s)
      | Some h \<Rightarrow>
          if m_type msg = RPCPing then
            (case h_ping h (m_sender msg) s of
               (Some err, s) \<Rightarrow> (resp\<lparr>m_error := err_text err\<rparr>, s)
             | (None, s) \<Rightarrow> (resp, s))
          else if m_type msg = RPCStore then
            (case m_data msg of
               None \<Rightarrow> (resp\<lparr>m_error := ''data is missing''\<rparr>, s)
             | Some data \<Rightarrow>
                 (case h_store h (m_sender msg) (m_key msg) data s of
                    (Some err, s) \<Rightarrow> (resp\<lparr>m_error := err_text err\<rparr>, s)
                  | (None, s) \<Rightarrow> (resp, s)))
          else if m_type msg = RPCFindNode then
            (case h_find_node h (m_sender msg) (m_target msg) s of
               (Inl err, s) \<Rightarrow> (resp\<lparr>m_error := err_text err\<rparr>, s)
             | (Inr nodes, s) \<Rightarrow> (resp\<lparr>m_nodes := map Some nodes\<rparr>, s))
          else if m_type msg = RPCFindValue then
            (case h_find_value h (m_sender msg) (m_key msg) s of
               (Inl err, s) \<Rightarrow> (if is_not_found err then resp else resp\<lparr>m_error := err_text err\<rparr>, s)
             | (Inr (value, nodes), s) \<Rightarrow> (resp\<lparr>m_value := value, m_nodes := map Some nodes\<rparr>, s))
          else (resp\<lparr>m_error := ''unsupported rpc: '' @ m_type msg\<rparr>, s))"

section \<open>Requests and responses\<close>

definition maxRetries :: nat where "maxRetries = 1"

definition generateReqID :: "bytes \<Rightarrow> string" where
  "generateReqID rnd = hex_encode (copy_into 16 rnd)"

text \<open>
  The table \<open>pendingRequests\<close> maps a request id to a channel of capacity one, empty (\<open>None\<close>)
  or holding a response. A goroutine in \<open>sendReq\<close> is about to write its datagram or waits for
  the response or the timer; \<open>us_done\<close> records what each call returned.
\<close>

datatype call_state = Writing nat | Waiting nat

record udp_state =
  us_pending :: "string \<rightharpoonup> message option"
  us_calls :: "string \<rightharpoonup> call_state"
  us_done :: "(string \<times> (go_error + message)) list"

definition udp_start :: udp_state where
  "udp_start = \<lparr>us_pending = Map.empty, us_calls = Map.empty, us_done = []\<rparr>"

text \<open>The response branch of \<open>handleMessage\<close>: a send that does not block.\<close>

definition udp_deliver :: "udp_state \<Rightarrow> message \<Rightarrow> udp_state" where
  "udp_deliver s msg =
     (case us_pending s (m_req_id msg) of
        Some None \<Rightarrow> s\<lparr>us_pending := (us_pending s)(m_req_id msg \<mapsto> Some msg)\<rparr>
      | _ \<Rightarrow> s)"

text \<open>A call returns: the deferred \<open>Delete\<close>, then the result.\<close>

definition udp_return :: "udp_state \<Rightarrow> string \<Rightarrow> go_error + message \<Rightarrow> udp_state" where
  "udp_return s rid r =
     s\<lparr>us_pending := (us_pending s)(rid := None), us_calls := (us_calls s)(rid := None),
       us_done := us_done s @ [(rid, r)]\<rparr>"

definition timeout_error :: go_error where
  "timeout_error = ErrText ''request timed out''"

text \<open>
  The steps. A new request draws an id that is not in use (16 random bytes). \<open>select\<close> may take
  either ready case, so a timer may win over a response that is already there.
\<close>

inductive udp_step :: "udp_state \<Rightarrow> udp_state \<Rightarrow> bool" where
  request: "us_calls s rid = None \<Longrightarrow> us_pending s rid = None \<Longrightarrow>
     udp_step s (s\<lparr>us_pending := (us_pending s)(rid \<mapsto> None), us_calls := (us_calls s)(rid \<mapsto> Writing 0)\<rparr>)"
| written: "us_calls s rid = Some (Writing n) \<Longrightarrow>
     udp_step s (s\<lparr>us_calls := (us_calls s)(rid \<mapsto> Waiting n)\<rparr>)"
| write_failed: "us_calls s rid = Some (Writing n) \<Longrightarrow> udp_step s (udp_return s rid (Inl (ErrText e)))"
| receive: "\<not> m_is_req msg \<Longrightarrow> udp_step s (udp_deliver s msg)"
| response: "us_calls s rid = Some (Waiting n) \<Longrightarrow> us_pending s rid = Some (Some resp) \<Longrightarrow>
     udp_step s (udp_return s rid (reply_result resp))"
| retry: "us_calls s rid = Some (Waiting n) \<Longrightarrow> Suc n < maxRetries \<Longrightarrow>
     udp_step s (s\<lparr>us_calls := (us_calls s)(rid \<mapsto> Writing (Suc n))\<rparr>)"
| timed_out: "us_calls s rid = Some (Waiting n) \<Longrightarrow> \<not> Suc n < maxRetries \<Longrightarrow>
     udp_step s (udp_return s rid (Inl timeout_error))"

inductive_cases udp_step_from: "udp_step s t"

text \<open>
  The table holds an entry for each call in progress and no other; a buffered response carries
  the id of its entry; and what a call got as an answer is a response with the call's own id.
\<close>

definition udp_ok :: "udp_state \<Rightarrow> bool" where
  "udp_ok s \<longleftrightarrow> dom (us_pending s) = dom (us_calls s)
     \<and> (\<forall>rid m. us_pending s rid = Some (Some m) \<longrightarrow> m_req_id m = rid \<and> \<not> m_is_req m)
     \<and> (\<forall>rid m. (rid, Inr m) \<in> set (us_done s) \<longrightarrow> m_req_id m = rid \<and> \<not> m_is_req m \<and> m_error m = [])
     \<and> (\<forall>rid n. us_calls s rid = Some (Writing n) \<longrightarrow> n < maxRetries)
     \<and> (\<forall>rid n. us_calls s rid = Some (Waiting n) \<longrightarrow> n < maxRetries)"

lemma reply_result_Inr: "reply_result m = Inr r \<longleftrightarrow> r = m \<and> m_error m = []"
  by (auto simp: reply_result_def)

lemma udp_ok_start: "udp_ok udp_start"
  by (simp add: udp_ok_def udp_start_def)

lemma udp_ok_return:
  assumes "udp_ok s" and "\<And>m. r = Inr m \<Longrightarrow> m_req_id m = rid \<and> \<not> m_is_req m \<and> m_error m = []"
  shows "udp_ok (udp_return s rid r)"
  using assms by (auto simp: udp_ok_def udp_return_def)

lemma udp_ok_deliver: "udp_ok s \<Longrightarrow> \<not> m_is_req m \<Longrightarrow> udp_ok (udp_deliver s m)"
  by (auto simp: udp_ok_def udp_deliver_def dom_def split: option.splits)

lemma udp_step_ok: "udp_step s t \<Longrightarrow> udp_ok s \<Longrightarrow> udp_ok t"
proof (induction rule: udp_step.induct)
  case (response s rid n resp)
  then show ?case
    by (intro udp_ok_return) (auto simp: reply_result_Inr udp_ok_def)
next
  case (receive msg s)
  then show ?case by (intro udp_ok_deliver)
next
  case (request s rid)
  then show ?case by (auto simp: udp_ok_def maxRetries_def)
next
  case (written s rid n)
  then show ?case by (auto simp: udp_ok_def dom_def)
next
  case (retry s rid n)
  then show ?case by (auto simp: udp_ok_def dom_def)
qed (auto intro: udp_ok_return)

interpretation udp: state_machine udp_start udp_step udp_ok
  by unfold_locales (auto intro: udp_ok_start udp_step_ok)


section \<open>The client\<close>

text \<open>
  One call of \<open>sendReq\<close>, seen from its goroutine: random bytes, the write of the datagram, and
  the \<open>select\<close>, which gives the response that reached the call's channel or the timer.
\<close>

record 'w udp_net =
  un_random :: "'w \<Rightarrow> bytes \<times> 'w"
  un_write :: "message \<Rightarrow> network_node \<Rightarrow> 'w \<Rightarrow> go_error option \<times> 'w"
  un_wait :: "string \<Rightarrow> 'w \<Rightarrow> message option \<times> 'w"

fun send_attempts ::
  "'w udp_net \<Rightarrow> message \<Rightarrow> network_node \<Rightarrow> nat \<Rightarrow> 'w \<Rightarrow> (go_error + message) \<times> 'w"
where
  "send_attempts net msg target 0 w = (Inl timeout_error, w)"
| "send_attempts net msg target (Suc n) w =
     (case un_write net msg target w of
        (Some err, w) \<Rightarrow> (Inl err, w)
      | (None, w) \<Rightarrow>
          (case un_wait net (m_req_id msg) w of
             (Some resp, w) \<Rightarrow> (reply_result resp, w)
           | (None, w) \<Rightarrow> send_attempts net msg target n w))"

definition sendReq ::
  "'w udp_net \<Rightarrow> bool \<Rightarrow> network_node \<Rightarrow> network_node option \<Rightarrow> message \<Rightarrow> 'w \<Rightarrow>
     (go_error + message) \<times> 'w"
where
  "sendReq net listening localNode target msg w =
     (if \<not> listening then (Inl (ErrText ''transport is not listening''), w)
      else
        (case target of
           None \<Rightarrow> (Inl (ErrText ''target node is nil''), w)
         | Some t \<Rightarrow>
             let (rnd, w) = un_random net w;
                 msg = msg\<lparr>m_sender := Some localNode, m_is_req := True, m_req_id := generateReqID rnd\<rparr>
             in send_attempts net msg t maxRetries w))"

section \<open>Blobs over TCP\<close>

text \<open>\<open>binary.BigEndian.PutUint64\<close> and \<open>Uint64\<close>.\<close>

fun be_bytes :: "nat \<Rightarrow> nat \<Rightarrow> bytes" where
  "be_bytes 0 x = []"
| "be_bytes (Suc n) x = be_bytes n (x div 256) @ [of_nat x]"

definition put_uint64 :: "64 word \<Rightarrow> bytes" where
  "put_uint64 x = be_bytes 8 (unat x)"

definition uint64_of :: "bytes \<Rightarrow> 64 word" where
  "uint64_of bs = of_nat (set_bytes (take 8 bs))"

text \<open>
  The server reads the 64 characters of the reference, or drops the connection, and answers
  with the length and the bytes; a blob it does not have, like an empty one, has length 0.
\<close>

definition handleBlobConn :: "'s handler option \<Rightarrow> bytes \<Rightarrow> 's \<Rightarrow> bytes" where
  "handleBlobConn handler input s =
     (if length input < 64 then []
      else
        let ref = string_of_bytes (take 64 input);
            data = (case handler of
                      None \<Rightarrow> []
                    | Some h \<Rightarrow> (case h_fetch_blob h None ref s of Inl err \<Rightarrow> [] | Inr d \<Rightarrow> d))
        in put_uint64 (of_nat (length data)) @ data)"

text \<open>
  The client: \<open>exchange\<close> is the connection, which fails or gives the bytes the server sends
  before it closes. \<open>make([]byte, size)\<close> panics (\<open>None\<close>) above what the allocator takes.
\<close>

definition unexpected_eof :: go_error where
  "unexpected_eof = ErrText ''unexpected EOF''"

definition FetchBlob_tcp ::
  "nat \<Rightarrow> (network_node \<Rightarrow> bytes \<Rightarrow> 'w \<Rightarrow> (go_error + bytes) \<times> 'w) \<Rightarrow> network_node \<Rightarrow> string \<Rightarrow> 'w \<Rightarrow>
     ((go_error + bytes) \<times> 'w) option"
where
  "FetchBlob_tcp max_alloc exchange target ref w =
     (if length ref \<noteq> 64 then Some (Inl (ErrText ''invalid blob ref length''), w)
      else
        (case exchange target (bytes_of_string ref) w of
           (Inl err, w) \<Rightarrow> Some (Inl (ErrWrap ''blob tcp dial'' err), w)
         | (Inr stream, w) \<Rightarrow>
             if length stream < 8 then Some (Inl unexpected_eof, w)
             else
               let size = uint64_of stream; rest = drop 8 stream in
               if size = 0 then Some (Inl ErrNotFound, w)
               else if max_alloc < unat size then None
               else if length rest < unat size then Some (Inl (ErrWrap ''blob read'' unexpected_eof), w)
               else Some (Inr (take (unat size) rest), w)))"

lemma length_be_bytes [simp]: "length (be_bytes n x) = n"
  by (induction n x rule: be_bytes.induct) simp_all

lemma set_bytes_be_bytes: "set_bytes (be_bytes n x) = x mod 256 ^ n"
proof (induction n x rule: be_bytes.induct)
  case (2 n x)
  have "unat (of_nat x :: byte) = x mod 256" by (simp add: unat_of_nat take_bit_eq_mod)
  with 2 have "set_bytes (be_bytes (Suc n) x) = x div 256 mod 256 ^ n * 256 + x mod 256"
    by (simp add: set_bytes_snoc)
  also have "\<dots> = x mod 256 ^ Suc n"
    by (simp add: mod_mult2_eq)
  finally show ?case .
qed simp

lemma length_put_uint64 [simp]: "length (put_uint64 x) = 8"
  by (simp add: put_uint64_def)

lemma uint64_put [simp]: "uint64_of (put_uint64 x @ r) = x"
proof -
  have "unat x < 256 ^ 8" using unsigned_less [of x, where ?'a = nat] by simp
  then show ?thesis
    by (simp add: uint64_of_def put_uint64_def set_bytes_be_bytes del: be_bytes.simps)
qed


section \<open>The transport\<close>

text \<open>
  The sockets go from nil to open to closed. \<open>Listen\<close> gets the outcomes of the two system calls
  and of the STUN query; the public address that the query finds is written to the local node.
\<close>

datatype socket = NoSocket | Open | Closed

record 's udp_transport =
  ut_local :: "network_node option"
  ut_conn :: socket
  ut_tcp :: socket
  ut_handler :: "'s handler option"
  ut_stun :: string
  ut_tls :: bool

definition NewTransport_udp :: "network_node option \<Rightarrow> 's udp_transport" where
  "NewTransport_udp local_node =
     \<lparr>ut_local = local_node, ut_conn = NoSocket, ut_tcp = NoSocket, ut_handler = None,
      ut_stun = [], ut_tls = False\<rparr>"

definition SetStunServer :: "'s udp_transport \<Rightarrow> string \<Rightarrow> 's udp_transport" where
  "SetStunServer t server = t\<lparr>ut_stun := server\<rparr>"

definition SetTLS :: "'s udp_transport \<Rightarrow> 's udp_transport" where
  "SetTLS t = t\<lparr>ut_tls := True\<rparr>"

definition resolvePublicAddress ::
  "'s udp_transport \<Rightarrow> (go_error + bytes option \<times> int) \<Rightarrow> 's udp_transport"
where
  "resolvePublicAddress t stun =
     (case stun of
        Inl err \<Rightarrow> t
      | Inr (ip, port) \<Rightarrow>
          t\<lparr>ut_local := map_option (\<lambda>n. n\<lparr>nn_address := ip, nn_port := port\<rparr>) (ut_local t)\<rparr>)"

definition Listen_udp ::
  "'s handler option \<Rightarrow> go_error option \<Rightarrow> go_error option \<Rightarrow> (go_error + bytes option \<times> int) \<Rightarrow>
     's udp_transport \<Rightarrow> go_error option \<times> 's udp_transport"
where
  "Listen_udp handler listenUDP listenTCP stun t =
     (case handler of
        None \<Rightarrow> (Some (ErrText ''rpc handler is nil''), t)
      | Some h \<Rightarrow>
          if ut_local t = None then (Some (ErrText ''local node is nil''), t)
          else
            let t = t\<lparr>ut_handler := Some h\<rparr> in
            (case listenUDP of
               Some err \<Rightarrow> (Some err, t)
             | None \<Rightarrow>
                 (case listenTCP of
                    Some err \<Rightarrow> (Some (ErrWrap ''blob tcp listener'' err), t\<lparr>ut_conn := Closed\<rparr>)
                  | None \<Rightarrow>
                      let t = t\<lparr>ut_conn := Open, ut_tcp := Open\<rparr> in
                      (None, if ut_stun t \<noteq> [] then resolvePublicAddress t stun else t))))"

definition Close_udp :: "'s udp_transport \<Rightarrow> go_error option \<times> 's udp_transport" where
  "Close_udp t =
     (let t = (if ut_tcp t \<noteq> NoSocket then t\<lparr>ut_tcp := Closed\<rparr> else t) in
      case ut_conn t of
        NoSocket \<Rightarrow> (None, t)
      | Open \<Rightarrow> (None, t\<lparr>ut_conn := Closed\<rparr>)
      | Closed \<Rightarrow> (Some (ErrText ''use of closed network connection''), t))"

text \<open>
  The read loop: what \<open>ReadFromUDP\<close> gives until the socket is closed, and the messages it
  starts a goroutine of \<open>handleMessage\<close> for. STUN packets and what is not JSON are dropped.
\<close>

datatype datagram = ReadFailed bool | Packet bytes  \<comment> \<open>whether the error is \<open>net.ErrClosed\<close>\<close>

fun listenUDP :: "(bytes \<Rightarrow> bool) \<Rightarrow> (bytes \<Rightarrow> message option) \<Rightarrow> datagram list \<Rightarrow> message list" where
  "listenUDP is_stun decode [] = []"
| "listenUDP is_stun decode (ReadFailed closed # r) = (if closed then [] else listenUDP is_stun decode r)"
| "listenUDP is_stun decode (Packet b # r) =
     (if is_stun b then listenUDP is_stun decode r
      else (case decode b of
              None \<Rightarrow> listenUDP is_stun decode r
            | Some m \<Rightarrow> m # listenUDP is_stun decode r))"

text \<open>The accept loop of the blob listener, likewise; every connection gets its \<open>handleBlobConn\<close>.\<close>

datatype 'c accept_result = AcceptFailed bool | Accepted 'c

fun listenBlobTCP :: "'c accept_result list \<Rightarrow> 'c list" where
  "listenBlobTCP [] = []"
| "listenBlobTCP (AcceptFailed closed # r) = (if closed then [] else listenBlobTCP r)"
| "listenBlobTCP (Accepted conn # r) = conn # listenBlobTCP r"

text \<open>\<open>handleMessage\<close>: a response goes to its pending request, a request is answered.\<close>

definition handleMessage ::
  "'s handler option \<Rightarrow> network_node \<Rightarrow> message \<Rightarrow> udp_state \<times> 's \<Rightarrow> message option \<times> udp_state \<times> 's"
where
  "handleMessage handler localNode msg st =
     (if \<not> m_is_req msg then (None, udp_deliver (fst st) msg, snd st)
      else let (resp, s) = udp_respond handler localNode msg (snd st) in (Some resp, fst st, s))"

section \<open>A client and a server\<close>

text \<open>The UDP transport as a node's transport. Blobs of at most \<open>max_alloc\<close> bytes are fetched.\<close>

definition udp_client ::
  "'w udp_net \<Rightarrow> (network_node \<Rightarrow> string \<Rightarrow> 'w \<Rightarrow> (go_error + bytes) \<times> 'w) \<Rightarrow> network_node \<Rightarrow> 'w transport"
where
  "udp_client net fetch localNode =
     (let send = \<lambda>target. sendReq net True localNode (Some target) in
      \<lparr>tr_ping = (\<lambda>t. call_ping (send t)), tr_store = (\<lambda>t. call_store (send t)),
       tr_find_node = (\<lambda>t. call_find_node (send t)), tr_find_value = (\<lambda>t. call_find_value (send t)),
       tr_fetch_blob = fetch, tr_listen = (\<lambda>w. (None, w)), tr_close = (\<lambda>w. (None, w))\<rparr>)"

text \<open>
  The network that delivers every datagram to one server: the world is the server's state and
  the response on its way back.
\<close>

definition direct_net :: "'s handler option \<Rightarrow> network_node \<Rightarrow> bytes \<Rightarrow> ('s \<times> message option) udp_net" where
  "direct_net handler server rnd =
     \<lparr>un_random = (\<lambda>w. (rnd, w)),
      un_write = (\<lambda>msg target (s, inbox).
        let (resp, s) = udp_respond handler server (wire msg) s in (None, s, Some (wire resp))),
      un_wait = (\<lambda>rid (s, inbox).
        case inbox of
          Some m \<Rightarrow> if m_req_id m = rid then (Some m, s, None) else (None, s, None)
        | None \<Rightarrow> (None, s, None))\<rparr>"

lemma sendReq_direct:
  "sendReq (direct_net handler server rnd) True client (Some target) msg (s, inbox) =
     (let (resp, s') = udp_respond handler server
            (wire (msg\<lparr>m_sender := Some client, m_is_req := True, m_req_id := generateReqID rnd\<rparr>)) s
      in if m_req_id resp = generateReqID rnd then (reply_result (wire resp), s', None)
         else (Inl timeout_error, s', None))"
  by (simp add: sendReq_def direct_net_def maxRetries_def Let_def split: prod.splits)

lemma udp_respond_id [simp]:
  "m_req_id (fst (udp_respond h l msg s)) = m_req_id msg"
  by (auto simp: udp_respond_def Let_def split: option.splits prod.splits sum.splits)

end
