(* ===== verification/Samples.thy ===== *)
theory Samples
  imports Routing_Table
begin

text \<open>
  Concrete contacts for the witnesses: \<open>peer a b\<close> has the id with first bytes \<open>a\<close>, \<open>b\<close> and
  zeros after them.
\<close>

definition peer :: "byte \<Rightarrow> byte \<Rightarrow> network_node" where
  "peer a b = \<lparr>nn_id = key_of_slice [a, b], nn_address = Some [127, 0, 0, 1],
     nn_port = 7000, nn_meta = None\<rparr>"

definition zero_key :: dht_key where
  "zero_key = key_of_slice []"

lemma nn_id_peer [simp]: "nn_id (peer a b) = key_of_slice [a, b]"
  by (simp add: peer_def)

lemma key_of_slice_2_eq [simp]:
  "key_of_slice [a, b] = key_of_slice [c, d] \<longleftrightarrow> a = c \<and> b = d"
  by (simp add: key_of_slice_eq_iff copy_into_def)

lemma key_of_slice_2_zero [simp]:
  "key_of_slice [a, b] = zero_key \<longleftrightarrow> a = 0 \<and> b = 0"
  "zero_key = key_of_slice [a, b] \<longleftrightarrow> a = 0 \<and> b = 0"
  by (auto simp: key_of_slice_eq_iff copy_into_def zero_key_def numeral_eq_Suc)

lemma peer_eq [simp]: "peer a b = peer c d \<longleftrightarrow> a = c \<and> b = d"
  by (auto dest: arg_cong [of _ _ nn_id])


text \<open>Seen from the zero key, an id with its top bit set belongs to the last bucket.\<close>

lemma set_bytes_zeros [simp]: "set_bytes (replicate n 0) = 0"
  by (induction n) (simp_all add: set_bytes_Cons)

lemma distance_zero_key: "GetKeyDistance zero_key k = set_bytes (key_bytes k)"
proof -
  have "set_bytes (key_bytes zero_key) = 0"
    by (simp add: zero_key_def copy_into_def)
  then show ?thesis by (simp add: GetKeyDistance_def)
qed

lemma dist_index_zero_key:
  assumes "128 \<le> unat a"
  shows "dist_index zero_key (key_of_slice [a, b]) = 159"
proof -
  let ?d = "GetKeyDistance zero_key (key_of_slice [a, b])"
  have "128 * 256 ^ 19 \<le> unat a * 256 ^ (19 :: nat)" using assms by simp
  also have "\<dots> \<le> ?d"
    by (simp add: distance_zero_key copy_into_def set_bytes_Cons)
  finally have "\<not> bit_len ?d \<le> 159" unfolding bit_len_le_iff by simp
  moreover have "bit_len ?d \<le> 160" unfolding bit_len_le_iff by (rule GetKeyDistance_less)
  ultimately show ?thesis by (simp add: dist_index_def)
qed

text \<open>The table of the zero key in which only that bucket is in use.\<close>

definition last_bucket :: "network_node list \<Rightarrow> 'w routing_table" where
  "last_bucket b = set_bucket (NewRoutingTable zero_key) 159 b"

lemma last_bucket_simps [simp]:
  "nodeId (last_bucket b) = zero_key"
  "ping (last_bucket b) = None"
  "buckets (last_bucket b) ! 159 = b"
  "set_bucket (last_bucket b) 159 b' = last_bucket b'"
  "NewRoutingTable zero_key = last_bucket []"
proof -
  have "(replicate 160 [])[159 := []] = (replicate 160 [] :: network_node list list)"
    by (rule list_update_same_conv [THEN iffD2]) simp_all
  then show "NewRoutingTable zero_key = last_bucket []"
    by (simp add: last_bucket_def NewRoutingTable_def set_bucket_def)
qed (simp_all add: last_bucket_def NewRoutingTable_def set_bucket_def)

lemma add_begin_last_bucket:
  assumes "128 \<le> unat a"
  shows "add_begin (last_bucket b) (peer a c) =
     (case find_index (\<lambda>m. nn_id m = key_of_slice [a, c]) b of
        Some i \<Rightarrow> AddDone (last_bucket (remove_nth i b @ [peer a c]))
      | None \<Rightarrow> if length b < K then AddDone (last_bucket (b @ [peer a c]))
                else AddPing 159 (b ! 0))"
proof -
  have "a \<noteq> 0" using assms by auto
  then show ?thesis
    using assms
    by (auto simp: add_begin_def bucketIndex_eq dist_index_zero_key Let_def split: option.splits)
qed

lemma add_finish_last_bucket:
  "add_finish (last_bucket b) 159 lrs repl =
     (case find_index (\<lambda>m. nn_id m = nn_id lrs) b of
        Some i \<Rightarrow> last_bucket (remove_nth i b @ [repl])
      | None \<Rightarrow> last_bucket b)"
  by (simp add: add_finish_def Let_def split: option.splits)

lemma contacts_last_bucket [simp]: "contacts (last_bucket b) = b"
proof -
  have "concat (replicate 159 [] @ b # replicate 0 []) = b" by simp
  moreover have "(replicate 160 [])[159 := b] = replicate 159 [] @ b # replicate 0 []"
    by (simp add: list_update_append1 flip: replicate_append_same) (simp add: numeral_eq_Suc)
  ultimately show ?thesis by (simp add: contacts_def last_bucket_def NewRoutingTable_def)
qed

end
