(* ===== verification/Routing_Race.thy ===== *)
theory Routing_Race
  imports Samples
begin

text \<open>
  Concurrent calls of \<open>RoutingTable.Add\<close>. Each call is a goroutine: it runs the first
  critical section, and when that asks for a ping it waits, without the lock, for the
  answer before it runs the second. Other calls run in between.
\<close>

section \<open>Steps\<close>

text \<open>A call waiting for its ping: bucket index, pinged contact, new contact.\<close>

type_synonym waiting = "nat \<times> network_node \<times> network_node"
type_synonym 'w racing = "'w routing_table \<times> waiting list"

datatype radd_action =
    Call network_node
  | Answer nat bool  \<comment> \<open>the ping of the i-th waiting call ends\<close>

fun radd_exec :: "'w racing \<Rightarrow> radd_action \<Rightarrow> 'w racing" where
  "radd_exec (rt, ws) (Call n) =
     (case add_begin rt n of
        AddDone rt' \<Rightarrow> (rt', ws)
      | AddPing idx lrs \<Rightarrow> (rt, ws @ [(idx, lrs, n)]))"
| "radd_exec (rt, ws) (Answer j alive) =
     (if j < length ws then
        case ws ! j of (idx, lrs, n) \<Rightarrow>
          (add_finish rt idx lrs (if alive then lrs else n), remove_nth j ws)
      else (rt, ws))"

inductive radd_step :: "'w racing \<Rightarrow> 'w racing \<Rightarrow> bool" where
  begin_done: "add_begin rt n = AddDone rt' \<Longrightarrow> radd_step (rt, ws) (rt', ws)"
| begin_ping: "add_begin rt n = AddPing idx lrs \<Longrightarrow>
     radd_step (rt, ws) (rt, ws @ [(idx, lrs, n)])"
| finish: "j < length ws \<Longrightarrow> ws ! j = (idx, lrs, n) \<Longrightarrow>
     radd_step (rt, ws) (add_finish rt idx lrs (if alive then lrs else n), remove_nth j ws)"

inductive_cases radd_step_from: "radd_step (rt, ws) t"

lemma radd_exec_step: "radd_step\<^sup>*\<^sup>* s (radd_exec s a)"
proof (cases s)
  case (Pair rt ws)
  show ?thesis
  proof (cases a)
    case (Call n)
    then show ?thesis using Pair
      by (cases "add_begin rt n") (auto intro: radd_step.intros)
  next
    case (Answer j alive)
    obtain idx lrs n where w: "ws ! j = (idx, lrs, n)" by (cases "ws ! j")
    show ?thesis
      using Pair Answer w radd_step.finish [of j ws idx lrs n rt alive] by auto
  qed
qed

lemma radd_run_steps: "radd_step\<^sup>*\<^sup>* s (foldl radd_exec s as)"
proof (induction as arbitrary: s)
  case (Cons a as)
  show ?case using rtranclp_trans [OF radd_exec_step Cons.IH] by simp
qed simp

section \<open>What every interleaving keeps\<close>

text \<open>A waiting call is about one bucket, and neither of its contacts is the owner.\<close>

definition waiting_ok :: "dht_key \<Rightarrow> waiting \<Rightarrow> bool" where
  "waiting_ok self w =
     (case w of (idx, lrs, n) \<Rightarrow>
        idx < 160 \<and> nn_id lrs \<noteq> self \<and> dist_index self (nn_id lrs) = idx
        \<and> nn_id n \<noteq> self \<and> dist_index self (nn_id n) = idx)"

definition racing_ok :: "'w racing \<Rightarrow> bool" where
  "racing_ok s = (case s of (rt, ws) \<Rightarrow> placed_rt rt \<and> (\<forall>w \<in> set ws. waiting_ok (nodeId rt) w))"

lemma add_begin_done_placed:
  assumes "placed_rt rt" and "add_begin rt n = AddDone rt'"
  shows "placed_rt rt'" and "nodeId rt' = nodeId rt"
proof -
  let ?i = "dist_index (nodeId rt) (nn_id n)" and ?b = "buckets rt ! dist_index (nodeId rt) (nn_id n)"
  have b: "bucket_placed (nodeId rt) ?i ?b"
    using placed_rt_bucket [OF assms(1) dist_index_less] .
  show "placed_rt rt'"
  proof (cases "find_index (\<lambda>m. nn_id m = nn_id n) ?b")
    case None
    with assms b show ?thesis
      by (auto simp: add_begin_def bucketIndex_eq Let_def split: if_splits
          intro!: set_bucket_placed) (auto simp: bucket_placed_def)
  next
    case (Some j)
    with assms show ?thesis
      by (auto simp: add_begin_def bucketIndex_eq Let_def split: if_splits
          intro!: set_bucket_placed bucket_placed_requeue b dest: find_index_Some)
  qed
  show "nodeId rt' = nodeId rt"
    using assms(2) by (auto simp: add_begin_def Let_def split: if_splits option.splits)
qed

lemma add_begin_ping_waiting:
  assumes "placed_rt rt" and "add_begin rt n = AddPing idx lrs"
  shows "waiting_ok (nodeId rt) (idx, lrs, n)"
proof -
  let ?b = "buckets rt ! idx"
  from assms(2) have n: "nn_id n \<noteq> nodeId rt" and idx: "idx = dist_index (nodeId rt) (nn_id n)"
    and full: "K \<le> length ?b" and lrs: "lrs = ?b ! 0"
    by (auto simp: add_begin_def bucketIndex_eq Let_def split: if_splits option.splits)
  have "bucket_placed (nodeId rt) idx ?b"
    using placed_rt_bucket [OF assms(1) dist_index_less] idx by simp
  moreover have "lrs \<in> set ?b" using full lrs by (auto simp: K_def intro!: nth_mem)
  ultimately show ?thesis
    using n idx dist_index_less by (auto simp: waiting_ok_def bucket_placed_def)
qed

lemma add_finish_placed:
  assumes "placed_rt rt" and "idx < 160"
    and "nn_id repl \<noteq> nodeId rt" and "dist_index (nodeId rt) (nn_id repl) = idx"
  shows "placed_rt (add_finish rt idx lrs repl)"
  using assms placed_rt_bucket [OF assms(1,2)]
  by (auto simp: add_finish_def Let_def split: option.splits dest!: find_index_Some
      intro!: set_bucket_placed bucket_placed_requeue)

lemma add_finish_frame [simp]: "nodeId (add_finish rt idx lrs repl) = nodeId rt"
  by (auto simp: add_finish_def Let_def split: option.splits)

lemma radd_step_ok: "radd_step s t \<Longrightarrow> racing_ok s \<Longrightarrow> racing_ok t"
proof (induction rule: radd_step.induct)
  case (begin_done rt n rt' ws)
  then show ?case
    using add_begin_done_placed [of rt n rt'] by (auto simp: racing_ok_def)
next
  case (begin_ping rt n idx lrs ws)
  then show ?case
    using add_begin_ping_waiting [of rt n idx lrs] by (auto simp: racing_ok_def)
next
  case (finish j ws idx lrs n rt alive)
  then have "waiting_ok (nodeId rt) (idx, lrs, n)" "placed_rt rt"
    by (auto simp: racing_ok_def) (metis nth_mem)
  then have "placed_rt (add_finish rt idx lrs (if alive then lrs else n))"
    by (intro add_finish_placed) (auto simp: waiting_ok_def)
  with finish set_remove_nth_subset [of j ws] show ?case by (auto simp: racing_ok_def)
qed

lemma racing_ok_start: "racing_ok (NewRoutingTable self, [])"
  using NewRoutingTable_wf by (auto simp: racing_ok_def wf_rt_def)

interpretation race: state_machine "(NewRoutingTable self, [])" radd_step racing_ok
  by unfold_locales (auto intro: racing_ok_start radd_step_ok)

section \<open>What a race breaks\<close>

text \<open>
  The bucket of 20 contacts \<open>peer 128 0\<close> to \<open>peer 128 19\<close> is full. A call for a new contact
  waits for the ping of the head; the head itself reports in and moves to the tail; a
  second call for the same new contact pings the new head, which is dead, and takes its
  place; then the first ping fails late, and the first call replaces the old head too.
\<close>

definition race_script :: "radd_action list" where
  "race_script =
     [Call (peer 128 77), Call (peer 128 0), Call (peer 128 77), Answer 1 False, Answer 0 False]"

definition full_bucket :: "network_node list" where
  "full_bucket = map (\<lambda>i. peer 128 (of_nat i)) [0..<20]"

lemma fill_last_bucket:
  "distinct (ids (b @ map (peer 128) cs)) \<Longrightarrow> length b + length cs \<le> K \<Longrightarrow>
     foldl radd_exec (last_bucket b :: 'w routing_table, ws) (map (\<lambda>c. Call (peer 128 c)) cs)
       = (last_bucket (b @ map (peer 128) cs), ws)"
proof (induction cs arbitrary: b)
  case (Cons c cs)
  then have "find_index (\<lambda>m. nn_id m = key_of_slice [128, c]) b = None"
    by (auto simp: find_index_None) (metis imageI)
  with Cons.prems have "radd_exec (last_bucket b :: 'w routing_table, ws) (Call (peer 128 c))
      = (last_bucket (b @ [peer 128 c]), ws)"
    by (simp add: add_begin_last_bucket)
  with Cons.IH [of "b @ [peer 128 c]"] Cons.prems show ?case
    by (simp del: radd_exec.simps)
qed simp

lemma race_end:
  "foldl radd_exec (last_bucket full_bucket, []) race_script
     = (last_bucket (drop 2 full_bucket @ [peer 128 77, peer 128 77]), [])"
  by (simp add: race_script_def full_bucket_def upt_rec add_begin_last_bucket
      add_finish_last_bucket K_def)

end
