(* ===== verification/Component_Guarantees.thy ===== *)
theory Component_Guarantees
  imports Routing_Race Node
begin

text \<open>
  What the parts of a node guarantee: keys and their distance, the routing table with and
  without concurrent callers, the two storages, and the request handlers.
\<close>

section \<open>Keys\<close>

text \<open>The XOR distance is a metric on keys whose values fit in 160 bits, and no two keys
  are equally far from a third, so that an order by distance never ties.\<close>

theorem key_distance_metric:
  "GetKeyDistance a b = GetKeyDistance b a \<and> (GetKeyDistance a b = 0 \<longleftrightarrow> a = b)
     \<and> GetKeyDistance a c \<le> GetKeyDistance a b + GetKeyDistance b c
     \<and> GetKeyDistance a b < 2 ^ 160
     \<and> (GetKeyDistance a c = GetKeyDistance b c \<longleftrightarrow> a = b)"
  by (intro conjI GetKeyDistance_sym GetKeyDistance_eq_0_iff GetKeyDistance_triangle
      GetKeyDistance_less GetKeyDistance_inject)

text \<open>A key survives its JSON text, and a JSON string is accepted as a key only when it is
  40 characters of hexadecimal.\<close>

theorem key_json_roundtrip:
  "map_option UnmarshalJSON (parse_json (print_json (MarshalJSON k))) = Some (Inr k)
     \<and> (UnmarshalJSON (JStr s) = Inr k \<longleftrightarrow> hex_decode s = (key_bytes k, None))"
proof -
  have "UnmarshalJSON (JStr s) = Inr k \<longleftrightarrow> hex_decode s = (key_bytes k, None)"
  proof (cases "hex_decode s")
    case (Pair b e)
    have "copy_into 20 b = b" if "length b = 20" using that by (simp add: copy_into_def)
    then show ?thesis
      by (cases e) (auto simp: Pair UnmarshalJSON_def unmarshal_string_def key_eq_iff)
  qed
  then show ?thesis by simp
qed

section \<open>The routing table\<close>

text \<open>C20: the bucket index of another key is below 160 and is the position of the highest bit
  of its distance.\<close>

theorem bucket_index_correct:
  assumes "k \<noteq> nodeId rt"
  shows "bucketIndex rt k < 160
     \<and> 2 ^ bucketIndex rt k \<le> GetKeyDistance (nodeId rt) k
     \<and> GetKeyDistance (nodeId rt) k < 2 ^ Suc (bucketIndex rt k)"
  using dist_index_less dist_index_bounds [OF assms] by (simp add: bucketIndex_eq)

lemma bucket_index_correct_witness:
  "bucketIndex (last_bucket [] :: unit routing_table) (key_of_slice [128, 1]) < 160"
  using bucket_index_correct [of "key_of_slice [128, 1]" "last_bucket [] :: unit routing_table"] by simp

text \<open>C7: \<open>Add\<close> without concurrent callers is the least-recently-seen queue of Kademlia on the
  contact's bucket: a known contact moves to the tail, a new one joins a bucket with room, and
  of a full bucket the head is pinged and either kept at the tail or replaced. No other bucket
  changes.\<close>

theorem add_refines_lru:
  assumes "wf_rt rt" and "nn_id n \<noteq> nodeId rt"
  shows "Add rt n w =
     (let i = bucketIndex rt (nn_id n); b = buckets rt ! i;
          (alive, w') = (if must_ping b n then ping_result rt (hd b) w else (False, w))
      in (set_bucket rt i (lru_add alive b n), w'))"
  using Add_eq_lru [OF assms] by (simp add: bucketIndex_eq Let_def)

lemma full_bucket_wf: "wf_rt (last_bucket full_bucket)"
proof -
  have "distinct (ids full_bucket)" by (simp add: full_bucket_def upt_rec)
  moreover have "bucket_placed zero_key 159 full_bucket"
    by (auto simp: bucket_placed_def full_bucket_def K_def dist_index_zero_key)
  ultimately show ?thesis
    unfolding last_bucket_def by (intro set_bucket_wf NewRoutingTable_wf) (simp_all add: NewRoutingTable_def)
qed

lemma add_refines_lru_witness:
  "Add (last_bucket full_bucket) (peer 128 77) () = (last_bucket (tl full_bucket @ [peer 128 77]), ())"
proof -
  have "Add (last_bucket full_bucket :: unit routing_table) (peer 128 77) () =
     (let i = 159; b = full_bucket;
          (alive, w') = (if must_ping b (peer 128 77)
             then ping_result (last_bucket full_bucket) (hd b) () else (False, ()))
      in (set_bucket (last_bucket full_bucket) i (lru_add alive b (peer 128 77)), w'))"
    using add_refines_lru [OF full_bucket_wf, of "peer 128 77" "()"]
    by (simp add: bucketIndex_eq dist_index_zero_key Let_def)
  then show ?thesis
    by (simp add: must_ping_def ping_result_def lru_add_def full_bucket_def upt_rec K_def)
qed

lemma length_concat_le: "(\<And>b. b \<in> set bs \<Longrightarrow> length b \<le> m) \<Longrightarrow> length (concat bs) \<le> length bs * m"
proof (induction bs)
  case (Cons b bs)
  then have "length b \<le> m" "length (concat bs) \<le> length bs * m" by auto
  then show ?case by simp
qed simp

lemma wf_rt_size:
  assumes "wf_rt rt"
  shows "length (contacts rt) \<le> 160 * K"
proof -
  have l: "length (buckets rt) = 160" using assms by (simp add: wf_rt_def placed_rt_def)
  have "length b \<le> K" if b: "b \<in> set (buckets rt)" for b
  proof -
    from b l obtain i where "i < 160" "b = buckets rt ! i" by (metis in_set_conv_nth)
    with wf_rt_bucket [OF assms] show ?thesis by (auto simp: bucket_placed_def)
  qed
  then have "length (concat (buckets rt)) \<le> length (buckets rt) * K" by (rule length_concat_le)
  with l show ?thesis by (simp add: contacts_def)
qed

text \<open>C8: \<open>Add\<close> keeps the routing table well formed, keeps its owner, and brings in no contact
  but the one it is given: every bucket has at most 20 contacts, each at the right distance,
  no id twice and never the owner's.\<close>

theorem add_keeps_table:
  assumes "wf_rt rt"
  shows "wf_rt (fst (Add rt n w)) \<and> nodeId (fst (Add rt n w)) = nodeId rt
     \<and> set (contacts (fst (Add rt n w))) \<subseteq> insert n (set (contacts rt))
     \<and> distinct (ids (contacts (fst (Add rt n w))))
     \<and> length (contacts (fst (Add rt n w))) \<le> 160 * K"
proof -
  have wf: "wf_rt (fst (Add rt n w))" using Add_wf [OF assms] .
  then have len: "length (contacts (fst (Add rt n w))) \<le> 160 * K" by (rule wf_rt_size)
  show ?thesis
    by (intro conjI wf len contacts_Add [OF assms] wf_rt_distinct_contacts [OF wf] Add_frame)
qed

lemma add_keeps_table_witness: "wf_rt (fst (Add (last_bucket full_bucket) (peer 128 77) ()))"
  by (rule add_keeps_table [OF full_bucket_wf, THEN conjunct1])


text \<open>C9: \<open>FindClosest\<close> returns the contacts nearest to the target, as many as there are up to
  the count, without repetition and in order of distance, whatever order the unstable sort
  would give to ties.\<close>

theorem find_closest_nearest:
  assumes "wf_rt rt"
  shows "length (FindClosest rt t c) = min c (length (contacts rt))
     \<and> set (FindClosest rt t c) \<subseteq> set (contacts rt) \<and> distinct (ids (FindClosest rt t c))
     \<and> sorted (map (\<lambda>n. GetKeyDistance (nn_id n) t) (FindClosest rt t c))
     \<and> (\<forall>n \<in> set (contacts rt) - set (FindClosest rt t c). \<forall>m \<in> set (FindClosest rt t c).
          GetKeyDistance (nn_id m) t \<le> GetKeyDistance (nn_id n) t)
     \<and> (\<forall>ys. mset ys = mset (contacts rt) \<and> sorted (map (\<lambda>n. GetKeyDistance (nn_id n) t) ys) \<longrightarrow>
          FindClosest rt t c = take c ys)"
  by (intro conjI length_FindClosest set_FindClosest distinct_FindClosest [OF assms]
      sorted_FindClosest ballI allI impI)
    (auto intro: FindClosest_best FindClosest_any_sort [OF assms])

lemma find_closest_nearest_witness:
  "length (FindClosest (last_bucket full_bucket :: unit routing_table) zero_key 3) = min 3 (length (contacts (last_bucket full_bucket :: unit routing_table)))"
  by (rule find_closest_nearest [OF full_bucket_wf, THEN conjunct1])

text \<open>C10: whatever calls of \<open>Add\<close> run concurrently and however their pings end, every bucket
  keeps at most 20 contacts, each in the bucket of its distance and none with the owner's id.\<close>

theorem race_keeps_placement:
  assumes "radd_step\<^sup>*\<^sup>* (NewRoutingTable self, []) (rt, ws)"
  shows "\<forall>i < 160. length (buckets rt ! i) \<le> K
     \<and> (\<forall>n \<in> set (buckets rt ! i). nn_id n \<noteq> nodeId rt \<and> bucketIndex rt (nn_id n) = i)"
  using race.reachable_ok [OF assms]
  by (auto simp: racing_ok_def placed_rt_def bucket_placed_def bucketIndex_eq)

lemma full_table_reached:
  "foldl radd_exec (last_bucket [], []) (map (\<lambda>c. Call (peer 128 c)) (map of_nat [0..<20]))
     = (last_bucket full_bucket :: unit routing_table, [])"
  using fill_last_bucket [of "[]" "map of_nat [0..<20]" "[]"]
  by (simp add: full_bucket_def upt_rec K_def)

lemma race_reached:
  "radd_step\<^sup>*\<^sup>* (NewRoutingTable zero_key, [])
     (last_bucket (drop 2 full_bucket @ [peer 128 77, peer 128 77]) :: unit routing_table, [])"
  using radd_run_steps [of "(last_bucket [] :: unit routing_table, [])"
      "map (\<lambda>c. Call (peer 128 c)) (map of_nat [0..<20]) @ race_script"]
  by (simp only: foldl_append full_table_reached race_end last_bucket_simps)

lemma race_keeps_placement_witness:
  "length (buckets (last_bucket (drop 2 full_bucket @ [peer 128 77, peer 128 77]) :: unit routing_table) ! 159) \<le> K"
  using race_keeps_placement [OF race_reached] by (metis numeral_less_iff rel_simps)

text \<open>Concurrent calls of \<open>Add\<close> can leave one contact twice in a bucket: the table is not
  locked while the head is pinged, and a call that waited does not look for its contact
  again.\<close>

theorem race_duplicates:
  "\<exists>rt :: unit routing_table. radd_step\<^sup>*\<^sup>* (NewRoutingTable zero_key, []) (rt, [])
     \<and> \<not> distinct (ids (contacts rt))"
proof -
  have "\<not> distinct (ids (contacts (last_bucket (drop 2 full_bucket @ [peer 128 77, peer 128 77]) :: unit routing_table)))"
    by simp
  with race_reached show ?thesis by blast
qed

section \<open>The memory storage\<close>

text \<open>C18: the memory storage is a map from keys to values that its clients cannot reach by
  aliasing: whatever they write to the slices they passed to \<open>Put\<close> or got from \<open>Get\<close>, only
  \<open>Put\<close> and \<open>Delete\<close> change what the storage holds, every \<open>Get\<close> returns what the map has under
  its key at that moment, and no client has a slice of the storage.\<close>

theorem memory_storage_isolated:
  assumes "mem_run new_client ops c"
  shows "(mc_view c, mc_got c) = foldl kv_step (Map.empty, []) ops
     \<and> mc_known c \<inter> owned (mc_store c) = {}"
  using mem_run_view [OF assms separated_new_client] by (auto simp: mc_view_new_client separated_def)

lemma mem_run_step:
  assumes "mem_run new_client ops c" and "mem_step c op c'"
  obtains ops' where "map fst ops' = map fst ops @ [op]" and "mem_run new_client ops' c'"
  by (rule that [of "ops @ [(op, mc_heap c)]"]) (simp_all add: run_snoc [OF assms])

definition inline_meta :: "nat value_meta_of" where
  "inline_meta = \<lparr>Inline = True, Data = Some 0, BlobRef = [], BlobNode = zero_key, Size = 1, MimeType = []\<rparr>"

lemma memory_storage_isolated_witness:
  "\<exists>c ops. map fst ops = [OpAlloc [1], OpPut zero_key inline_meta, OpWrite 0 [9], OpGet zero_key]
     \<and> (mc_view c, mc_got c) = foldl kv_step (Map.empty, []) ops \<and> map (map_option Data) (mc_got c) = [Some (Some [1])]"
proof -
  let ?h1 = "snd (alloc (mc_heap new_client) [1])"
  define c1 where "c1 = new_client\<lparr>mc_heap := ?h1, mc_known := {0}\<rparr>"
  have "mem_step new_client (OpAlloc [1]) c1"
    using client_alloc [of new_client "[1]" 0 ?h1] by (simp add: c1_def new_client_def alloc_def)
  from mem_run_step [OF run_nil this] obtain ops1
    where o1: "map fst ops1 = map fst ([] :: (mem_op \<times> heap) list) @ [OpAlloc [1]]" and r1: "mem_run new_client ops1 c1" .
  obtain s' h' where p: "MemPut (mc_store c1) (mc_heap c1) zero_key inline_meta = (s', h')" by fastforce
  define c2 where "c2 = c1\<lparr>mc_store := s', mc_heap := h'\<rparr>"
  have "mem_step c1 (OpPut zero_key inline_meta) c2"
    unfolding c2_def by (rule storage_put [OF _ p]) (simp add: inline_meta_def c1_def)
  from mem_run_step [OF r1 this] obtain ops2
    where o2: "map fst ops2 = map fst ops1 @ [OpPut zero_key inline_meta]" and r2: "mem_run new_client ops2 c2" .
  define c3 where "c3 = c2\<lparr>mc_heap := poke (mc_heap c2) 0 [9]\<rparr>"
  have "mem_step c2 (OpWrite 0 [9]) c3" unfolding c3_def by (rule client_write) (simp add: c2_def c1_def)
  from mem_run_step [OF r2 this] obtain ops3
    where o3: "map fst ops3 = map fst ops2 @ [OpWrite 0 [9]]" and r3: "mem_run new_client ops3 c3" .
  obtain r h'' where g: "MemGet (mc_store c3) (mc_heap c3) zero_key = (r, h'')" by fastforce
  define c4 where "c4 = c3\<lparr>mc_heap := h'', mc_known := mc_known c3 \<union> (case r of None \<Rightarrow> {} | Some v \<Rightarrow> set_option (Data v)),
     mc_got := mc_got c3 @ [map_option (deref h'') r]\<rparr>"
  have "mem_step c3 (OpGet zero_key) c4" unfolding c4_def by (rule storage_get [OF g])
  from mem_run_step [OF r3 this] obtain ops4
    where o4: "map fst ops4 = map fst ops3 @ [OpGet zero_key]" and r4: "mem_run new_client ops4 c4" .
  have got: "mc_got c4 = mc_got c3 @ [map_option (deref h'') r]" by (simp add: c4_def)
  have heap1: "mc_heap c1 = \<lparr>cells = (\<lambda>_. [])(0 := [1]), fresh = 1\<rparr>" "mc_store c1 = Map.empty"
    by (simp_all add: c1_def new_client_def NewMemoryStorage_def alloc_def)
  have "s' = [zero_key \<mapsto> inline_meta\<lparr>Data := Some 1\<rparr>]" "h' = \<lparr>cells = (\<lambda>_. [])(0 := [1], 1 := [1]), fresh = Suc 1\<rparr>"
    using p unfolding heap1 MemPut_def copy_meta_def alloc_def by (simp_all add: inline_meta_def)
  then have "mc_store c3 = [zero_key \<mapsto> inline_meta\<lparr>Data := Some 1\<rparr>]"
    "mc_heap c3 = \<lparr>cells = (\<lambda>_. [])(0 := [9], 1 := [1]), fresh = Suc 1\<rparr>"
    by (simp_all add: c3_def c2_def poke_def fun_upd_twist)
  with g have "map_option (deref h'') r = Some (deref (mc_heap c1) inline_meta)"
    unfolding heap1 MemGet_def copy_meta_def alloc_def deref_def by (auto simp: inline_meta_def)
  moreover have "mc_got c3 = []" by (simp add: c3_def c2_def c1_def new_client_def)
  ultimately have "mc_got c4 = [Some (deref (mc_heap c1) inline_meta)]" by (simp only: got append_Nil)
  moreover have "Data (deref (mc_heap c1) inline_meta) = Some [1]" by (simp add: heap1 deref_def inline_meta_def)
  ultimately have "map (map_option Data) (mc_got c4) = [Some (Some [1])]" by simp
  moreover have "map fst ops4 = [OpAlloc [1], OpPut zero_key inline_meta, OpWrite 0 [9], OpGet zero_key]"
    unfolding o4 o3 o2 o1 by simp
  ultimately show ?thesis using memory_storage_isolated [OF r4, THEN conjunct1] by - (intro exI conjI, assumption+)
qed

section \<open>The disk storage\<close>

text \<open>C19: while no write fails, the disk storage is a map from keys to values, up to the
  difference between empty and missing data that its JSON form does not keep: what \<open>Put\<close>
  wrote is what \<open>Get\<close> reads back, and other keys and the blobs are not touched.\<close>

theorem disk_storage_map:
  assumes "disk_inv sha s"
  shows "DiskGet (DiskPut s k v) = (DiskGet s)(k \<mapsto> norm_meta v)
     \<and> DiskGet (DiskDelete s k) = (DiskGet s)(k := None)
     \<and> GetBlob (DiskPut s k v) (blob_ref sha d) = GetBlob s (blob_ref sha d)
     \<and> disk_inv sha (DiskPut s k v) \<and> disk_inv sha (DiskDelete s k)"
  using disk.put_view [OF assms] disk.del_view [OF assms] disk.put_get_blob [OF assms]
    disk.put_inv [OF assms] disk.del_inv [OF assms] by simp

definition new_disk :: disk_storage where
  "new_disk = NewDiskStorage ''data'' \<lparr>files = Map.empty, faults = []\<rparr>"

lemma new_disk_inv: "disk_inv sha new_disk"
  unfolding new_disk_def by (rule NewDiskStorage_inv) simp_all

lemma disk_storage_map_witness:
  "DiskGet (DiskPut new_disk zero_key zero_meta) zero_key = Some (norm_meta zero_meta)"
  using disk_storage_map [OF new_disk_inv, where v = zero_meta and k = zero_key] by simp

text \<open>A blob that was put comes back under the reference \<open>PutBlob\<close> returned, also after
  more blobs were put, if no other blob has the same hash.\<close>

theorem disk_blob_roundtrip:
  assumes "disk_inv sha s" and "\<And>d'. blob_ref sha d' = blob_ref sha d \<Longrightarrow> d' = d"
  shows "fst (PutBlob sha s d) = Inr (blob_ref sha d)
     \<and> GetBlob (snd (PutBlob sha (snd (PutBlob sha s d)) e)) (blob_ref sha d) = Inr d"
  using disk.put_blob_ref [OF assms(1)] disk.put_blob_again [OF assms] by simp

definition toy_hash :: "bytes \<Rightarrow> bytes" where
  "toy_hash d = (if d = [1] then [1] else [])"

lemma toy_hash_one:
  assumes "blob_ref toy_hash d = blob_ref toy_hash [1]"
  shows "d = [1]"
proof (rule ccontr)
  assume "d \<noteq> [1]"
  then have "copy_into 32 [] = copy_into 32 [1 :: byte]"
    using assms by (simp add: blob_ref_def hex_encode_inject toy_hash_def)
  from arg_cong [OF this, of hd] show False by (simp add: copy_into_def)
qed

lemma disk_blob_roundtrip_witness: "fst (PutBlob toy_hash new_disk [1]) = Inr (blob_ref toy_hash [1])"
  by (rule disk_blob_roundtrip [OF new_disk_inv toy_hash_one, THEN conjunct1])

text \<open>A write that fails half way leaves its bytes under the blob's name, and the next
  \<open>PutBlob\<close> of the same data finds the file, reports success and leaves it truncated.\<close>

theorem disk_blob_truncated:
  assumes "files (fs s) (blobPath s (blob_ref sha d)) = None" and "faults (fs s) = WritesOnly n # r"
  shows "\<exists>e s1. PutBlob sha s d = (Inl e, s1) \<and> PutBlob sha s1 d = (Inr (blob_ref sha d), s1)
     \<and> GetBlob s1 (blob_ref sha d) = Inr (take n d)"
  using assms by (simp add: PutBlob_def Stat_def WriteFile_def GetBlob_def ReadFile_def Let_def)

lemma disk_blob_truncated_witness:
  "\<exists>s1. PutBlob (\<lambda>b. b) s1 [1, 2, 3] = (Inr (blob_ref (\<lambda>b. b) [1, 2, 3]), s1)
     \<and> GetBlob s1 (blob_ref (\<lambda>b. b) [1, 2, 3]) = Inr [1]"
  using disk_blob_truncated
    [of "NewDiskStorage ''data'' \<lparr>files = Map.empty, faults = [WritesOnly 1]\<rparr>" "\<lambda>b. b" "[1, 2, 3]" 1 "[]"]
  by (auto simp: NewDiskStorage_def)

text \<open>A blob reference is not confined to the blob directory: the reference
  \<open>../meta/<key>\<close>, which any peer can ask for, reads the metadata file of a key.\<close>

theorem blob_reference_escapes:
  assumes "based b s" and "files (fs s) (metaPath s k) = Some content"
  shows "GetBlob s (''../meta/'' @ hex_encode (key_bytes k)) = Inr content"
proof -
  have "split_path (''..'' @ CHR ''/'' # ''meta'' @ CHR ''/'' # hex_encode (key_bytes k))
      = [''..'', ''meta'', hex_encode (key_bytes k)]"
    unfolding split_path_append using simple_key_name [of k]
    by (simp add: split_path_single simple_name_def)
  then have "blobPath s (''../meta/'' @ hex_encode (key_bytes k)) = metaPath s k"
    using simple_key_name [of k]
    by (simp add: blobPath_render [OF assms(1)] metaPath_render [OF assms(1)] clean_step_def
        simple_name_def)
  with assms(2) show ?thesis by (simp add: GetBlob_def ReadFile_def)
qed

lemma new_disk_based: "based ''data'' new_disk"
  by (simp add: new_disk_def NewDiskStorage_def based_def)

lemma blob_reference_escapes_witness:
  "\<exists>content. GetBlob (DiskPut new_disk zero_key zero_meta) (''../meta/'' @ hex_encode (key_bytes zero_key)) = Inr content"
proof -
  let ?c = "bytes_of_string (print_json (meta_to_json zero_meta))"
  have "files (fs (DiskPut new_disk zero_key zero_meta)) (metaPath (DiskPut new_disk zero_key zero_meta) zero_key) = Some ?c"
    by (simp add: DiskPut_def WriteFile_ok new_disk_def NewDiskStorage_def metaPath_def)
  from blob_reference_escapes [OF _ this] new_disk_based show ?thesis by auto
qed

section \<open>The request handlers\<close>

text \<open>C16: what \<open>OnStore\<close> stored is what \<open>OnFindValue\<close> answers for that key, whoever asks, and
  no handler changes what is stored under another key.\<close>

theorem node_store_find:
  assumes "node_inv sha (fst s)"
  shows "fst (OnFindValue q k (snd (OnStore p k v s))) = Inr (Some (node_norm s v), [])
     \<and> (k' \<noteq> k \<longrightarrow> node_view (snd (OnStore p k v s)) k' = node_view s k')
     \<and> node_view (snd (OnPing p s)) = node_view s
     \<and> node_view (snd (OnFindNode p k s)) = node_view s
     \<and> node_view (snd (OnFindValue p k s)) = node_view s"
  using node.find_stored [of sha s q k p v] OnStore_ok [OF assms, of p k v] OnPing_ok [OF assms, of p]
    OnFindNode_ok [OF assms, of p k] OnFindValue_ok [OF assms, of p k] assms by simp

definition fresh_node :: "unit node" where
  "fresh_node = NewNode (peer 0 0) None"

lemma fresh_node_inv: "node_inv sha fresh_node"
  unfolding fresh_node_def by (rule NewNode_inv)

lemma node_store_find_witness:
  "fst (OnFindValue None zero_key (snd (OnStore None zero_key zero_meta (fresh_node, ())))) = Inr (Some zero_meta, [])"
proof -
  have "node_norm (fresh_node, ()) zero_meta = zero_meta"
    by (simp add: fresh_node_def NewNode_def NewNodeWithStorage_def)
  with node_store_find [of "\<lambda>b. b" "(fresh_node, ())" None zero_key None zero_meta zero_key] fresh_node_inv
  show ?thesis by simp
qed

lemma Add_inserts:
  assumes "wf_rt rt" and "nn_id n \<noteq> nodeId rt" and "length (buckets rt ! bucketIndex rt (nn_id n)) < K"
  shows "n \<in> set (contacts (fst (Add rt n w)))"
proof -
  let ?i = "dist_index (nodeId rt) (nn_id n)" and ?b = "buckets rt ! bucketIndex rt (nn_id n)"
  have "fst (Add rt n w) = set_bucket rt ?i (lru_add False ?b n)"
    using assms(3) by (simp add: Add_eq_lru [OF assms(1,2)] must_ping_def bucketIndex_eq Let_def)
  moreover have "n \<in> set (lru_add False ?b n)" using assms(3) by (simp add: lru_add_def)
  moreover have "?i < length (buckets rt)"
    using assms(1) dist_index_less by (simp add: wf_rt_def placed_rt_def)
  ultimately show ?thesis unfolding contacts_iff by (intro exI [of _ ?i]) simp
qed

text \<open>What the four handlers that look at the sender do with it.\<close>

lemma handlers_rt:
  "node_rt (fst (snd (OnPing p s))) = node_rt (fst (observePeer p s))"
  "node_rt (fst (snd (OnStore p k v s))) = node_rt (fst (observePeer p s))"
  "node_rt (fst (snd (OnFindNode p k s))) = node_rt (fst (observePeer p s))"
  "node_rt (fst (snd (OnFindValue p k s))) = node_rt (fst (observePeer p s))"
  by (simp_all add: OnPing_def OnStore_eq OnFindNode_eq OnFindValue_eq Let_def)

text \<open>C17: every request handler keeps the node well formed. Ping, store, find node and find
  value record the sender: the routing table they leave is the one \<open>Add\<close> makes for it, or the
  old one when the request has no sender, and the sender is in it when its bucket has room.
  Deleting a value leaves the table alone.\<close>

theorem handlers_keep_node:
  assumes "node_inv sha (fst s)"
  shows "node_inv sha (fst (snd (OnPing p s))) \<and> node_inv sha (fst (snd (OnStore p k v s)))
     \<and> node_inv sha (fst (snd (OnFindNode p k s))) \<and> node_inv sha (fst (snd (OnFindValue p k s)))
     \<and> node_inv sha (DeleteLocal k (fst s)) \<and> node_rt (DeleteLocal k (fst s)) = node_rt (fst s)
     \<and> (let rt = node_rt (fst s);
            rt' = (case p of None \<Rightarrow> rt | Some n \<Rightarrow> fst (Add rt n (snd s)))
        in node_rt (fst (snd (OnPing p s))) = rt' \<and> node_rt (fst (snd (OnStore p k v s))) = rt'
         \<and> node_rt (fst (snd (OnFindNode p k s))) = rt' \<and> node_rt (fst (snd (OnFindValue p k s))) = rt'
         \<and> (\<forall>n. p = Some n \<and> nn_id n \<noteq> nn_id (node_self (fst s))
              \<and> length (buckets rt ! bucketIndex rt (nn_id n)) < K \<longrightarrow> n \<in> set (contacts rt')))"
proof -
  define rt where "rt = node_rt (fst s)"
  define rt' where "rt' = (case p of None \<Rightarrow> rt | Some n \<Rightarrow> fst (Add rt n (snd s)))"
  have "node_rt (fst (observePeer p s)) = rt'"
    by (simp add: observePeer_def rt_def rt'_def split: option.split)
  moreover have "n \<in> set (contacts rt')"
    if "p = Some n" "nn_id n \<noteq> nn_id (node_self (fst s))" "length (buckets rt ! bucketIndex rt (nn_id n)) < K" for n
    using Add_inserts [of rt n "snd s"] assms that by (simp add: node_inv_def rt_def rt'_def)
  moreover have "node_inv sha (DeleteLocal k (fst s))" by (rule DeleteLocal_inv [OF assms])
  ultimately show ?thesis
    using OnPing_ok [OF assms] OnStore_ok [OF assms] OnFindNode_ok [OF assms] OnFindValue_ok [OF assms]
    unfolding Let_def rt_def [symmetric] rt'_def [symmetric]
    by (simp add: handlers_rt DeleteLocal_def rt_def)
qed

lemma handlers_keep_node_witness:
  "peer 128 1 \<in> set (contacts (node_rt (fst (snd (OnStore (Some (peer 128 1)) zero_key zero_meta (fresh_node, ()))))))"
proof -
  have n: "nn_id (peer 128 1) \<noteq> nn_id (node_self fresh_node)"
    and b: "length (buckets (node_rt fresh_node) ! bucketIndex (node_rt fresh_node) (nn_id (peer 128 1))) < K"
    using dist_index_less [of "nodeId (node_rt fresh_node)" "nn_id (peer 128 1)"]
    by (simp_all add: fresh_node_def NewNode_def NewNodeWithStorage_def SetPing_def NewRoutingTable_def K_def bucketIndex_eq)
  from handlers_keep_node [of "\<lambda>b. b" "(fresh_node, ())" "Some (peer 128 1)" zero_key zero_meta] fresh_node_inv n b
  show ?thesis unfolding Let_def fst_conv by metis
qed

text \<open>A node answers FIND_VALUE for a key it does not store with the K contacts nearest to
  the key, and with \<open>ErrNotFound\<close> only when its routing table, the sender included, is
  empty; FIND_NODE it answers with the K nearest contacts, the sender among the candidates.\<close>

theorem find_handlers_answer:
  assumes "node_inv sha (fst s)"
  shows "fst (OnFindNode p k s) = Inr (FindClosest (node_rt (fst (observePeer p s))) k K)
     \<and> (node_view s k = None \<longrightarrow>
          (fst (OnFindValue p k s) = Inl ErrNotFound \<longleftrightarrow> contacts (node_rt (fst (observePeer p s))) = [])
          \<and> (contacts (node_rt (fst (observePeer p s))) \<noteq> [] \<longrightarrow>
               fst (OnFindValue p k s) = Inr (None, FindClosest (node_rt (fst (observePeer p s))) k K)))"
proof -
  have "FindClosest t k K = [] \<longleftrightarrow> contacts t = []" for t :: "'a routing_table"
    using length_FindClosest [of t k K] by (cases "contacts t") (auto simp: K_def)
  then show ?thesis by (simp add: OnFindNode_eq OnFindValue_result [OF assms] Let_def)
qed

lemma find_handlers_answer_witness:
  "fst (OnFindValue None zero_key (fresh_node, ())) = Inl ErrNotFound"
proof -
  have "contacts (node_rt (fst (observePeer None (fresh_node, ())))) = []"
    and "node_view (fresh_node, ()) zero_key = None"
    by (simp_all add: fresh_node_def NewNode_def NewNodeWithStorage_def observePeer_def SetPing_def
        NewRoutingTable_def contacts_def)
  with find_handlers_answer [of "\<lambda>b. b" "(fresh_node, ())" None zero_key] fresh_node_inv
  show ?thesis by simp
qed

end
