(* ===== verification/Udp_Guarantees.thy ===== *)
theory Udp_Guarantees
  imports Udp Component_Guarantees
begin

text \<open>
  What \<open>transport/udp/udp.go\<close> guarantees: calls through it are calls of the handler at the other
  end, responses reach the request they belong to, and blobs arrive whole.
\<close>

section \<open>Calls through the transport\<close>

lemma reply_no_error: "m_error m = [] \<Longrightarrow> reply_result m = Inr m"
  by (simp add: reply_result_def)

lemma new_message_simps [simp]:
  "m_type (new_message ty) = ty" "m_error (new_message ty) = []" "m_nodes (new_message ty) = []"
  "m_value (new_message ty) = None" "m_req_id (new_message ty) = []"
  by (simp_all add: new_message_def)

abbreviation udp_node :: "network_node \<Rightarrow> network_node \<Rightarrow> bytes \<Rightarrow>
    (network_node \<Rightarrow> string \<Rightarrow> ('w node \<times> 'w) \<times> message option \<Rightarrow>
       (go_error + bytes) \<times> ('w node \<times> 'w) \<times> message option) \<Rightarrow>
    (('w node \<times> 'w) \<times> message option) transport" where
  "udp_node client server rnd fetch \<equiv>
     udp_client (direct_net (Some node_handler) server rnd) fetch client"

lemma udp_ping:
  "tr_ping (udp_node client server rnd fetch) t (s, inbox)
     = (None, snd (OnPing (Some client) s), None)"
  by (simp add: udp_client_def call_ping_def sendReq_direct udp_respond_def rpc_names OnPing_def
      reply_no_error Let_def)

lemma udp_store:
  "tr_store (udp_node client server rnd fetch) t k v (s, inbox)
     = (None, snd (OnStore (Some client) k (norm_meta v) s), None)"
  by (simp add: udp_client_def call_store_def sendReq_direct udp_respond_def rpc_names OnStore_eq
      reply_no_error Let_def)

lemma udp_find_node:
  "tr_find_node (udp_node client server rnd fetch) t k (s, inbox)
     = (Inr (map Some (FindClosest (node_rt (fst (observePeer (Some client) s))) k K)),
        observePeer (Some client) s, None)"
  by (simp add: udp_client_def call_find_node_def sendReq_direct udp_respond_def rpc_names
      OnFindNode_eq reply_no_error Let_def)

lemma udp_find_value:
  assumes "node_inv sha (fst s)"
  shows "tr_find_value (udp_node client server rnd fetch) t k (s, inbox)
     = (case node_view s k of
          Some v \<Rightarrow> Inr (Some (norm_meta v), [])
        | None \<Rightarrow> Inr (None, map Some (FindClosest (node_rt (fst (observePeer (Some client) s))) k K)),
        snd (OnFindValue (Some client) k s), None)"
proof -
  obtain r s' where o: "OnFindValue (Some client) k s = (r, s')" by (rule prod.exhaust)
  have r: "r = (case node_view s k of
        Some v \<Rightarrow> Inr (Some v, [])
      | None \<Rightarrow>
          let nodes = FindClosest (node_rt (fst (observePeer (Some client) s))) k K in
          if nodes = [] then Inl ErrNotFound else Inr (None, nodes))"
    using OnFindValue_result [OF assms, of "Some client" k] o by simp
  show ?thesis
    by (cases "node_view s k")
      (simp_all add: udp_client_def call_find_value_def sendReq_direct udp_respond_def rpc_names
        o r reply_no_error Let_def)
qed


text \<open>C24: over a network that delivers, a call through the UDP transport is a call of the
  handler at the other end with the caller as its sender: ping, store and find give what the
  handlers give, values in their JSON form, and \<open>ErrNotFound\<close> becomes an empty answer.\<close>

theorem udp_calls_refine_handlers:
  assumes "node_inv sha (fst s)"
  shows "tr_ping (udp_node client server rnd fetch) t (s, inbox)
      = (None, snd (OnPing (Some client) s), None)
    \<and> tr_store (udp_node client server rnd fetch) t k v (s, inbox)
      = (None, snd (OnStore (Some client) k (norm_meta v) s), None)
    \<and> tr_find_node (udp_node client server rnd fetch) t k (s, inbox)
      = (case OnFindNode (Some client) k s of (r, s') \<Rightarrow> (map_sum id (map Some) r, s', None))
    \<and> tr_find_value (udp_node client server rnd fetch) t k (s, inbox)
      = (case OnFindValue (Some client) k s of (r, s') \<Rightarrow>
           (case r of Inl e \<Rightarrow> Inr (None, [])
            | Inr (value, nodes) \<Rightarrow> Inr (map_option norm_meta value, map Some nodes), s', None))"
proof -
  have "(case OnFindValue (Some client) k s of (r, s') \<Rightarrow>
           (case r of Inl e \<Rightarrow> Inr (None, [])
            | Inr (value, nodes) \<Rightarrow> Inr (map_option norm_meta value, map Some nodes), s', None))
      = tr_find_value (udp_node client server rnd fetch) t k (s, inbox)"
    using OnFindValue_result [OF assms, of "Some client" k]
    by (cases "node_view s k")
      (auto simp: udp_find_value [OF assms] Let_def split: prod.splits)
  then show ?thesis by (simp add: udp_ping udp_store udp_find_node OnFindNode_eq)
qed

lemma udp_calls_refine_handlers_witness:
  "fst (tr_ping (udp_node (peer 1 1) (peer 0 0) [] (\<lambda>n r w. (Inl ErrNotFound, w))) (peer 0 0)
     ((fresh_node, ()), None)) = None"
proof -
  have "node_inv (\<lambda>b. b) (fst (fresh_node, ()))" by (simp add: fresh_node_inv)
  from udp_calls_refine_handlers [OF this, THEN conjunct1]
  show ?thesis by (simp only: fst_conv)
qed

text \<open>A value stored through the UDP transport on a node is found through it on the same
  node under the same key.\<close>

theorem udp_store_then_find:
  assumes "node_inv sha (fst s)"
  shows "fst (tr_find_value (udp_node client server rnd fetch) t k
        (snd (tr_store (udp_node client server rnd fetch) t k v (s, inbox))))
     = Inr (Some (norm_meta v), [])"
proof -
  let ?s' = "snd (OnStore (Some client) k (norm_meta v) s)"
  have inv: "node_inv sha (fst ?s')" and view: "node_view ?s' k = Some (node_norm s (norm_meta v))"
    using OnStore_ok [OF assms, of "Some client" k "norm_meta v"] by simp_all
  have "norm_meta (node_norm s (norm_meta v)) = norm_meta v"
    by (cases "node_storage (fst s)") simp_all
  with view show ?thesis by (simp add: udp_store udp_find_value [OF inv])
qed

lemma udp_store_then_find_witness:
  "fst (tr_find_value (udp_node (peer 1 1) (peer 0 0) [] (\<lambda>n r w. (Inl ErrNotFound, w))) (peer 0 0) zero_key
      (snd (tr_store (udp_node (peer 1 1) (peer 0 0) [] (\<lambda>n r w. (Inl ErrNotFound, w))) (peer 0 0) zero_key zero_meta
        ((fresh_node, ()), None)))) = Inr (Some (norm_meta zero_meta), [])"
  by (rule udp_store_then_find [of "\<lambda>b. b"]) (simp add: fresh_node_inv)

section \<open>Requests and responses\<close>

text \<open>C25: whatever arrives and in whatever order, the table of pending requests has an entry for
  exactly the calls in progress, a call gets only a response that carries its own id and no
  error, and no call writes its datagram more than \<open>maxRetries\<close> times.\<close>

theorem udp_responses_match:
  assumes "udp_step\<^sup>*\<^sup>* udp_start s"
  shows "dom (us_pending s) = dom (us_calls s)
     \<and> (\<forall>rid m. (rid, Inr m) \<in> set (us_done s) \<longrightarrow> m_req_id m = rid \<and> \<not> m_is_req m \<and> m_error m = [])
     \<and> (\<forall>rid n. us_calls s rid = Some (Writing n) \<longrightarrow> n < maxRetries)"
  using udp.reachable_ok [OF assms] by (auto simp: udp_ok_def)

definition answered_state :: udp_state where
  "answered_state = udp_deliver (udp_start\<lparr>us_pending := [''a'' \<mapsto> None], us_calls := [''a'' \<mapsto> Writing 0]\<rparr>)
     ((new_message RPCPing)\<lparr>m_req_id := ''b''\<rparr>)"

lemma answered_state_reached: "udp_step\<^sup>*\<^sup>* udp_start answered_state"
proof -
  have "udp_step udp_start (udp_start\<lparr>us_pending := [''a'' \<mapsto> None], us_calls := [''a'' \<mapsto> Writing 0]\<rparr>)"
    using udp_step.request [of udp_start "''a''"] by (simp add: udp_start_def)
  moreover have "udp_step \<dots> answered_state"
    unfolding answered_state_def by (rule udp_step.receive) (simp add: new_message_def)
  ultimately show ?thesis by (meson rtranclp.rtrancl_refl rtranclp.rtrancl_into_rtrancl)
qed

lemma udp_responses_match_witness: "dom (us_pending answered_state) = dom (us_calls answered_state)"
  by (rule udp_responses_match [OF answered_state_reached, THEN conjunct1])

section \<open>Blobs over TCP\<close>

text \<open>The connection to a server that runs \<open>handleBlobConn\<close>.\<close>

definition blob_link ::
  "'s handler option \<Rightarrow> network_node \<Rightarrow> bytes \<Rightarrow> 's \<Rightarrow> (go_error + bytes) \<times> 's" where
  "blob_link h target input s = (Inr (handleBlobConn h input s), s)"

lemma fetched_tcp:
  assumes "length ref = 64" and "max_alloc < 2 ^ 64"
    and "\<And>d. h_fetch_blob h None ref s = Inr d \<Longrightarrow> length d \<le> max_alloc"
  shows "FetchBlob_tcp max_alloc (blob_link (Some h)) target ref s =
     Some (case h_fetch_blob h None ref s of
             Inl err \<Rightarrow> Inl ErrNotFound
           | Inr d \<Rightarrow> if d = [] then Inl ErrNotFound else Inr d, s)"
proof (cases "h_fetch_blob h None ref s")
  case (Inl err)
  then show ?thesis
    using assms(1) uint64_put [of 0 "[]"]
    by (simp add: FetchBlob_tcp_def blob_link_def handleBlobConn_def Let_def)
next
  case (Inr d)
  have len: "unat (of_nat (length d) :: 64 word) = length d"
    using assms(2) assms(3) [OF Inr] by (simp add: unat_of_nat take_bit_nat_eq_self)
  then have zero: "(of_nat (length d) :: 64 word) = 0 \<longleftrightarrow> d = []"
    by (metis length_0_conv unat_eq_zero)
  show ?thesis
    using Inr assms(1) len zero assms(3) [OF Inr]
    by (simp add: FetchBlob_tcp_def blob_link_def handleBlobConn_def Let_def)
qed

text \<open>C26: a blob fetched over TCP is the handler's blob, byte for byte; a blob the handler does not
  have is reported as not found, and so is an empty one.\<close>

theorem tcp_blob_roundtrip:
  assumes "length ref = 64" and "max_alloc < 2 ^ 64"
    and "\<And>d. h_fetch_blob h None ref s = Inr d \<Longrightarrow> length d \<le> max_alloc"
  shows "FetchBlob_tcp max_alloc (blob_link (Some h)) target ref s =
     Some (case h_fetch_blob h None ref s of
             Inl err \<Rightarrow> Inl ErrNotFound
           | Inr d \<Rightarrow> if d = [] then Inl ErrNotFound else Inr d, s)"
  using fetched_tcp [OF assms] .

definition blob_handler :: "unit handler" where
  "blob_handler = \<lparr>h_ping = (\<lambda>p s. (None, s)), h_store = (\<lambda>p k v s. (None, s)),
     h_find_node = (\<lambda>p k s. (Inr [], s)), h_find_value = (\<lambda>p k s. (Inl ErrNotFound, s)),
     h_fetch_blob = (\<lambda>p ref s. Inr [1, 2, 3])\<rparr>"

lemma tcp_blob_roundtrip_witness:
  "FetchBlob_tcp 1000 (blob_link (Some blob_handler)) (peer 0 0) (replicate 64 (CHR ''a'')) () = Some (Inr [1, 2, 3], ())"
  using tcp_blob_roundtrip [of "replicate 64 (CHR ''a'')" 1000 blob_handler "()" "peer 0 0"]
  by (simp add: blob_handler_def)

text \<open>The size field of a blob response is trusted: a peer that announces more bytes than the
  allocator takes makes the client panic, with a response of eight bytes.\<close>

theorem tcp_blob_size_panics:
  assumes "length ref = 64" and "max_alloc < 2 ^ 64 - 1"
    and "exchange target (bytes_of_string ref) w = (Inr (put_uint64 (- 1)), w')"
  shows "FetchBlob_tcp max_alloc exchange target ref w = None"
proof -
  have "unat (- 1 :: 64 word) = 2 ^ 64 - 1" 
    by (simp add: unsigned_minus_1_eq_mask mask_eq_exp_minus_1)
  moreover have "uint64_of (put_uint64 (- 1)) = - 1" using uint64_put [of "- 1" "[]"] by simp
  ultimately show ?thesis using assms by (simp add: FetchBlob_tcp_def Let_def)
qed

lemma tcp_blob_size_panics_witness:
  "FetchBlob_tcp (2 ^ 48) (\<lambda>t i w. (Inr (put_uint64 (- 1)), w)) (peer 0 0) (replicate 64 (CHR ''a'')) () = None"
  by (rule tcp_blob_size_panics) simp_all

text \<open>\<open>Listen\<close> needs a handler and a local node; after it succeeded both sockets are open, and a
  failure of the TCP listener leaves a closed UDP socket, over which requests fail when they
  are written rather than being refused as not listening.\<close>

theorem udp_listen_outcomes:
  assumes "Listen_udp handler udpErr tcpErr stun t = (err, t')"
  shows "(err = None \<longrightarrow> handler \<noteq> None \<and> ut_local t \<noteq> None \<and> ut_handler t' = handler
            \<and> ut_conn t' = Open \<and> ut_tcp t' = Open)
     \<and> (handler \<noteq> None \<and> ut_local t \<noteq> None \<and> udpErr = None \<and> tcpErr \<noteq> None \<longrightarrow>
            err \<noteq> None \<and> ut_conn t' = Closed \<and> ut_tcp t' = ut_tcp t)
     \<and> (handler = None \<or> ut_local t = None \<longrightarrow> err \<noteq> None \<and> t' = t)"
  using assms
  by (auto simp: Listen_udp_def resolvePublicAddress_def Let_def split: option.splits sum.splits prod.splits if_splits)

lemma udp_listen_outcomes_witness:
  "ut_conn (snd (Listen_udp (Some blob_handler) None None (Inl ErrNotFound) (NewTransport_udp (Some (peer 0 0))))) = Open"
proof -
  let ?r = "Listen_udp (Some blob_handler) None None (Inl ErrNotFound) (NewTransport_udp (Some (peer 0 0)))"
  have "fst ?r = None" by (simp add: Listen_udp_def NewTransport_udp_def Let_def)
  with udp_listen_outcomes [OF surjective_pairing [of ?r], THEN conjunct1] show ?thesis by blast
qed

end
