(* ===== verification/Webrtc_Guarantees.thy ===== *)
theory Webrtc_Guarantees
  imports Webrtc_Peers Webrtc_Flow Udp_Guarantees
begin

text \<open>
  What \<open>transport/webrtc/webrtc.go\<close> guarantees of its calls, its blob transfers and its table of
  connections, and where it falls short.
\<close>

section \<open>Calls over the control channel\<close>

text \<open>A connection that delivers: the world is the other node and the response on its way back.\<close>

definition direct_rtc :: "'s handler option \<Rightarrow> network_node \<Rightarrow> bytes \<Rightarrow> ('s \<times> rpc_message option) rtc_net" where
  "direct_rtc handler server rnd =
     \<lparr>rn_random = (\<lambda>w. (rnd, w)), rn_get_peer = (\<lambda>n w. (Inr 0, w)),
      rn_send = (\<lambda>peer msg (s, inbox).
        let ((resp, frames), s) = rtc_respond handler server True [] (wire msg) s in
        (None, s, map_option wire resp)),
      rn_wait = (\<lambda>peer rid (s, inbox).
        case inbox of
          Some m \<Rightarrow> if m_req_id m = rid then (Some m, s, None) else (None, s, None)
        | None \<Rightarrow> (None, s, None))\<rparr>"

lemma sendRPC_direct:
  "sendRPC (direct_rtc handler server rnd) client target msg (s, inbox) =
     (let ((resp, frames), s') = rtc_respond handler server True []
            (wire (rpc_of (msg\<lparr>m_sender := Some client, m_is_req := True, m_req_id := genReqID rnd\<rparr>) [])) s
      in case resp of
           Some m \<Rightarrow> if m_req_id m = genReqID rnd then (reply_result (wire m), s', None)
                      else (Inl rpc_timeout, s', None)
         | None \<Rightarrow> (Inl rpc_timeout, s', None))"
  by (simp add: sendRPC_def direct_rtc_def Let_def split: prod.splits option.splits)

lemmas rtc_call_simps = rtc_calls sendRPC_direct rtc_respond_def rpc_names reply_no_error Let_def

abbreviation rtc_net_to :: "network_node \<Rightarrow> bytes \<Rightarrow> (('w node \<times> 'w) \<times> rpc_message option) rtc_net" where
  "rtc_net_to server rnd \<equiv> direct_rtc (Some node_handler) server rnd"

lemma rtc_ping:
  "Ping_rtc (rtc_net_to server rnd) client t (s, inbox) = (None, snd (OnPing (Some client) s), None)"
  by (simp add: call_ping_def rtc_call_simps OnPing_def)

lemma rtc_store:
  "Store_rtc (rtc_net_to server rnd) client t k v (s, inbox)
     = (None, snd (OnStore (Some client) k (norm_meta v) s), None)"
  by (simp add: call_store_def rtc_call_simps OnStore_eq)

lemma rtc_find_node:
  "FindNode_rtc (rtc_net_to server rnd) client t k (s, inbox)
     = (Inr (map Some (FindClosest (node_rt (fst (observePeer (Some client) s))) k K)),
        observePeer (Some client) s, None)"
  by (simp add: call_find_node_def rtc_call_simps OnFindNode_eq)

lemma rtc_find_value:
  assumes "node_inv sha (fst s)"
  shows "FindValue_rtc (rtc_net_to server rnd) client t k (s, inbox)
     = (case node_view s k of
          Some v \<Rightarrow> Inr (Some (norm_meta v), [])
        | None \<Rightarrow> Inr (None, map Some (FindClosest (node_rt (fst (observePeer (Some client) s))) k K)),
        snd (OnFindValue (Some client) k s), None)"
proof -
  obtain r s' where o: "OnFindValue (Some client) k s = (r, s')" by (rule prod.exhaust)
  then show ?thesis
    using OnFindValue_result [OF assms, of "Some client" k]
    by (cases "node_view s k") (simp_all add: call_find_value_def rtc_call_simps)
qed

text \<open>C27: over a connection that delivers, the calls through the WebRTC transport are the calls of
  the handler at the other end, as over UDP.\<close>

theorem webrtc_calls_refine_handlers:
  assumes "node_inv sha (fst s)"
  shows "Ping_rtc (direct_rtc (Some node_handler) server rnd) client t (s, inbox)
      = (None, snd (OnPing (Some client) s), None)
    \<and> Store_rtc (direct_rtc (Some node_handler) server rnd) client t k v (s, inbox)
      = (None, snd (OnStore (Some client) k (norm_meta v) s), None)
    \<and> FindNode_rtc (direct_rtc (Some node_handler) server rnd) client t k (s, inbox)
      = (case OnFindNode (Some client) k s of (r, s') \<Rightarrow> (map_sum id (map Some) r, s', None))
    \<and> FindValue_rtc (direct_rtc (Some node_handler) server rnd) client t k (s, inbox)
      = (case OnFindValue (Some client) k s of (r, s') \<Rightarrow>
           (case r of Inl e \<Rightarrow> Inr (None, [])
            | Inr (value, nodes) \<Rightarrow> Inr (map_option norm_meta value, map Some nodes), s', None))"
proof -
  have "(case OnFindValue (Some client) k s of (r, s') \<Rightarrow>
           (case r of Inl e \<Rightarrow> Inr (None, [])
            | Inr (value, nodes) \<Rightarrow> Inr (map_option norm_meta value, map Some nodes), s', None))
      = FindValue_rtc (rtc_net_to server rnd) client t k (s, inbox)"
    using OnFindValue_result [OF assms, of "Some client" k]
    by (cases "node_view s k")
      (auto simp: rtc_find_value [OF assms] Let_def split: prod.splits)
  then show ?thesis by (simp add: rtc_ping rtc_store rtc_find_node OnFindNode_eq)
qed

lemma webrtc_calls_refine_handlers_witness:
  "fst (Ping_rtc (direct_rtc (Some node_handler) (peer 0 0) []) (peer 1 1) (peer 0 0)
     ((fresh_node, ()), None)) = None"
proof -
  have "node_inv (\<lambda>b. b) (fst (fresh_node, ()))" by (simp add: fresh_node_inv)
  from webrtc_calls_refine_handlers [OF this, THEN conjunct1] show ?thesis by (simp only: fst_conv)
qed

section \<open>Blob transfers\<close>

text \<open>Every frame of a blob carries between one byte and 256 KiB, and together the frames
  carry the blob: nothing is lost at the chunk boundaries.\<close>

theorem blob_frames_bounded:
  "snd (sendBlobChunked rid data []) = None
     \<and> concat (map (drop 33) (fst (sendBlobChunked rid data []))) = data
     \<and> (\<forall>f \<in> set (fst (sendBlobChunked rid data [])). 33 < length f \<and> length f \<le> 33 + blobChunkSize)"
proof -
  have "snd c \<noteq> [] \<and> length (snd c) \<le> blobChunkSize" if "c \<in> set (chunks data)" for c
    using that
  proof (induction data rule: chunks.induct)
    case (1 data)
    then show ?case
      using blobChunkSize_pos
      by (cases "data = []"; cases "length data \<le> blobChunkSize")
        (auto simp: chunks.simps [of data] chunks.simps [of "[]"] simp del: blobChunkSize_pos)
  qed
  then have "\<forall>f \<in> set (map (cut_frame rid) (chunks data)). 33 < length f \<and> length f \<le> 33 + blobChunkSize"
    by (fastforce simp flip: length_greater_0_conv)
  then show ?thesis
    using concat_chunks [of data] by (simp add: sendBlobChunked_ok comp_def)
qed

lemma blob_frames_bounded_witness:
  "fst (sendBlobChunked ''r'' [9] []) = [blob_frame ''r'' 1 [9]]
     \<and> length (blob_frame ''r'' 1 [9]) \<le> 33 + blobChunkSize"
proof -
  have "length [9 :: byte] \<le> blobChunkSize" by (simp add: blobChunkSize_def)
  then have f: "fst (sendBlobChunked ''r'' [9] []) = [blob_frame ''r'' 1 [9]]"
    by (simp add: sendBlobChunked_ok chunks.simps)
  from blob_frames_bounded [of "''r''" "[9]", THEN conjunct2, THEN conjunct2]
  have "length (blob_frame ''r'' 1 [9]) \<le> 33 + blobChunkSize"
    unfolding f by (simp only: list.set ball_simps)
  with f show ?thesis by (intro conjI)
qed

text \<open>C31: a blob arrives whole, whatever other transfers run on the same channel: when the frames
  with its request id are those that were sent, in their order, the waiting call gets the
  data, and nothing is left in the buffer.\<close>

theorem blob_transfer_whole:
  assumes "length rid = 32" and "data \<noteq> []"
    and "filter (\<lambda>f. frame_id f = rid) frames = fst (sendBlobChunked rid data [])"
    and "pending rid = Some new_pending_blob"
  shows "fold onBlobMsg frames pending rid = Some \<lparr>pb_buf = None, pb_ch = Some data\<rparr>"
  using fold_onBlobMsg_filter [of frames pending rid]
    fold_onBlobMsg_frames [of rid pending new_pending_blob "chunks data"]
  by (simp add: assms sendBlobChunked_ok receive_chunks [OF assms(2)])

lemma blob_transfer_whole_witness:
  "fold onBlobMsg
     [blob_frame (replicate 32 (CHR ''a'')) 1 [7], blob_frame (replicate 32 (CHR ''b'')) 1 [9]]
     [replicate 32 (CHR ''b'') \<mapsto> new_pending_blob] (replicate 32 (CHR ''b''))
   = Some \<lparr>pb_buf = None, pb_ch = Some [9]\<rparr>"
proof -
  have "replicate 32 (CHR ''a'') \<noteq> replicate 32 (CHR ''b'')" by simp
  moreover have "length [9 :: byte] \<le> blobChunkSize" by (simp add: blobChunkSize_def)
  ultimately show ?thesis
    by (intro blob_transfer_whole) (simp_all add: sendBlobChunked_ok chunks.simps)
qed


text \<open>The arrivals of a call that concern its id.\<close>

fun control_for :: "string \<Rightarrow> arrival \<Rightarrow> bool" where
  "control_for rid (ControlMsg m) \<longleftrightarrow> m_req_id m = rid"
| "control_for rid (BlobMsg f) \<longleftrightarrow> False"

fun blob_of :: "arrival \<Rightarrow> bytes option" where
  "blob_of (ControlMsg m) = None"
| "blob_of (BlobMsg f) = Some f"

lemma arrivals_blob:
  "blobPending (fold arrive as p) = fold onBlobMsg (List.map_filter blob_of as) (blobPending p)"
proof (induction as arbitrary: p)
  case (Cons a as)
  then show ?case
    by (cases a) (simp_all add: map_filter_simps deliver_rpc_def deliver_blob_def split: option.splits)
qed (simp add: map_filter_simps)

lemma arrivals_control:
  "(\<And>a. a \<in> set as \<Longrightarrow> \<not> control_for rid a) \<Longrightarrow> rpcPending (fold arrive as p) rid = rpcPending p rid"
proof (induction as arbitrary: p)
  case (Cons a as)
  have "rpcPending (arrive a p) rid = rpcPending p rid"
    using Cons.prems [of a]
    by (cases a) (auto simp: deliver_rpc_def deliver_blob_def split: option.splits)
  with Cons show ?case by simp
qed simp

lemma register_fetch_simps [simp]:
  "rpcPending (register_fetch rid p) rid = Some None"
  "blobPending (register_fetch rid p) rid = Some new_pending_blob"
  by (simp_all add: register_fetch_def)

lemma rtc_respond_fetch:
  "rtc_respond (Some h) server True [] (fetch_request client rid ref) s =
     (case h_fetch_blob h (Some client) ref s of
        Inl err \<Rightarrow> ((Some ((rpc_of ((new_message RPCFetchBlob)
              \<lparr>m_req_id := rid, m_sender := Some server\<rparr>) [])\<lparr>m_error := err_text err\<rparr>), []), s)
      | Inr data \<Rightarrow> ((None, fst (sendBlobChunked rid data [])), s))"
  by (simp add: rtc_respond_def fetch_request_def rpc_names Let_def new_message_def sendBlobChunked_ok
      split: sum.splits)

lemma fetched_blob:
  assumes "h_fetch_blob h (Some client) ref s = Inr data" and "data \<noteq> []" and "length rid = 32"
    and "rtc_respond (Some h) server True [] (fetch_request client rid ref) s = ((ctl, frames), s')"
    and "filter (\<lambda>f. frame_id f = rid) (List.map_filter blob_of as) = frames"
    and "\<And>a. a \<in> set as \<Longrightarrow> \<not> control_for rid a"
  shows "ctl = None \<and> fst (FetchBlob_rtc rid None as prefer p) = Inr data"
proof -
  have f: "ctl = None" "frames = fst (sendBlobChunked rid data [])"
    using assms(1,4) by (auto simp: rtc_respond_fetch)
  let ?p = "fold arrive as (register_fetch rid p)"
  have "blobPending ?p rid = fold onBlobMsg (fst (sendBlobChunked rid data [])) (blobPending (register_fetch rid p)) rid"
    using fold_onBlobMsg_filter [of "List.map_filter blob_of as"] assms(5) f(2)
    by (simp add: arrivals_blob)
  also have "\<dots> = Some \<lparr>pb_buf = None, pb_ch = Some data\<rparr>"
    using fold_onBlobMsg_frames [of rid "blobPending (register_fetch rid p)" new_pending_blob "chunks data"]
      assms(3) receive_chunks [OF assms(2)] by (simp add: sendBlobChunked_ok)
  finally have "blobPending ?p rid = Some \<lparr>pb_buf = None, pb_ch = Some data\<rparr>" .
  moreover have "rpcPending ?p rid = Some None"
    using arrivals_control [of as rid] assms(6) by simp
  ultimately show ?thesis using f(1) by (simp add: FetchBlob_rtc_def fetch_outcome_def Let_def)
qed

text \<open>C28: a blob fetched over WebRTC is the handler's blob: if the frames with the request's id
  that reach the client are those the server sends for it, and no control message does, the
  call returns the data, whatever else arrives in between.\<close>

theorem webrtc_blob_roundtrip:
  assumes "h_fetch_blob h (Some client) ref s = Inr data" and "data \<noteq> []" and "length rid = 32"
    and "rtc_respond (Some h) server True [] (fetch_request client rid ref) s = ((ctl, frames), s')"
    and "filter (\<lambda>f. frame_id f = rid) (List.map_filter blob_of as) = frames"
    and "\<And>a. a \<in> set as \<Longrightarrow> \<not> control_for rid a"
  shows "ctl = None \<and> fst (FetchBlob_rtc rid None as prefer p) = Inr data"
  using fetched_blob [OF assms] .

lemma webrtc_blob_roundtrip_witness:
  "fst (FetchBlob_rtc (replicate 32 (CHR ''a'')) None
     [BlobMsg (blob_frame (replicate 32 (CHR ''b'')) 1 [9]),
      BlobMsg (blob_frame (replicate 32 (CHR ''a'')) 1 [1, 2, 3])] True newPeerConn) = Inr [1, 2, 3]"
proof -
  let ?a = "replicate 32 (CHR ''a'')" and ?b = "replicate 32 (CHR ''b'')"
  have ne: "?b \<noteq> ?a" by simp
  have frames: "fst (sendBlobChunked ?a [1, 2, 3] []) = [blob_frame ?a 1 [1, 2, 3]]"
    by (simp add: sendBlobChunked_ok chunks.simps blobChunkSize_def)
  have resp: "rtc_respond (Some blob_handler) (peer 0 0) True [] (fetch_request (peer 1 1) ?a ''ref'') ()
      = ((None, [blob_frame ?a 1 [1, 2, 3]]), ())"
    using frames by (simp add: rtc_respond_fetch blob_handler_def)
  show ?thesis
    by (rule webrtc_blob_roundtrip [OF _ _ _ resp, THEN conjunct2])
      (use ne in \<open>auto simp: blob_handler_def map_filter_simps\<close>)
qed

text \<open>An empty blob cannot be fetched over WebRTC: the server sends no frame and no response
  for it, and the call runs into its timeout.\<close>

theorem webrtc_empty_blob_times_out:
  assumes "h_fetch_blob h (Some client) ref s = Inr []"
    and "rtc_respond (Some h) server True [] (fetch_request client rid ref) s = ((ctl, frames), s')"
  shows "ctl = None \<and> frames = [] \<and> fst (FetchBlob_rtc rid None [] prefer p) = Inl blob_timeout"
  using assms
  by (auto simp: rtc_respond_fetch sendBlobChunked_ok chunks.simps FetchBlob_rtc_def fetch_outcome_def
      new_pending_blob_def Let_def)

definition empty_blob_handler :: "unit handler" where
  "empty_blob_handler = blob_handler\<lparr>h_fetch_blob := (\<lambda>p ref s. Inr [])\<rparr>"

lemma webrtc_empty_blob_times_out_witness:
  "fst (FetchBlob_rtc ''a'' None [] True newPeerConn) = Inl blob_timeout"
proof -
  have h: "h_fetch_blob empty_blob_handler (Some (peer 1 1)) ''ref'' () = Inr []"
    by (simp add: empty_blob_handler_def)
  obtain c f s' where "rtc_respond (Some empty_blob_handler) (peer 0 0) True []
      (fetch_request (peer 1 1) ''a'' ''ref'') () = ((c, f), s')" by (metis prod.exhaust)
  from webrtc_empty_blob_times_out [OF h this] show ?thesis by blast
qed

text \<open>Over WebRTC a blob that the server does not have is not reported as \<open>ErrNotFound\<close>, which
  callers test for, but as another error with the same text.\<close>

theorem webrtc_missing_blob_error:
  assumes "h_fetch_blob h (Some client) ref s = Inl ErrNotFound"
    and "rtc_respond (Some h) server True [] (fetch_request client rid ref) s = ((Some m, frames), s')"
  shows "frames = [] \<and> fst (FetchBlob_rtc rid None [ControlMsg m] prefer p) = Inl (ErrText ''not found'')
     \<and> \<not> is_not_found (ErrText ''not found'')"
  using assms
  by (auto simp: rtc_respond_fetch FetchBlob_rtc_def fetch_outcome_def deliver_rpc_def
      new_pending_blob_def new_message_def register_fetch_def Let_def)

definition no_blob_handler :: "unit handler" where
  "no_blob_handler = blob_handler\<lparr>h_fetch_blob := (\<lambda>p ref s. Inl ErrNotFound)\<rparr>"

lemma webrtc_missing_blob_error_witness:
  "\<exists>m. fst (FetchBlob_rtc ''a'' None [ControlMsg m] True newPeerConn) = Inl (ErrText ''not found'')"
proof -
  have h: "h_fetch_blob no_blob_handler (Some (peer 1 1)) ''ref'' () = Inl ErrNotFound"
    by (simp add: no_blob_handler_def)
  obtain m f s' where "rtc_respond (Some no_blob_handler) (peer 0 0) True []
      (fetch_request (peer 1 1) ''a'' ''ref'') () = ((Some m, f), s')"
    by (simp add: rtc_respond_fetch h)
  from webrtc_missing_blob_error [OF h this] show ?thesis by blast
qed

section \<open>The table of connections\<close>

text \<open>C40: whatever connects, is called and closes concurrently, the table never names a connection
  that this transport has closed, and never names one connection under two ids.\<close>

theorem peer_table_live:
  assumes "rtc_step\<^sup>*\<^sup>* NewTransport_rtc s"
  shows "(\<forall>k pc. rs_peers s k = Some pc \<longrightarrow> pc \<notin> rs_closed s)
     \<and> (\<forall>k k' pc. rs_peers s k = Some pc \<and> rs_peers s k' = Some pc \<longrightarrow> k = k')"
  using rtc.reachable_ok [OF assms] by (simp add: rtc_ok_def)

lemma incoming_step: "rtc_step s (snd (handleIncomingOffer k su s))"
  by (rule rtc_step.incoming [OF surjective_pairing])

lemma peer_table_live_witness:
  "0 \<notin> rs_closed (snd (handleIncomingOffer zero_key SetupOk NewTransport_rtc))"
proof -
  have "rtc_step\<^sup>*\<^sup>* NewTransport_rtc (snd (handleIncomingOffer zero_key SetupOk NewTransport_rtc))"
    using incoming_step by (rule r_into_rtranclp)
  from peer_table_live [OF this, THEN conjunct1] show ?thesis
    by (simp add: handleIncomingOffer_def set_up_def NewTransport_rtc_def)
qed

text \<open>A connection whose channel does not open stays in the table: as long as it does not open,
  every later call to that node fails without a new attempt to connect.\<close>

theorem dead_peer_stays:
  assumes "rs_peers s target = None" and "rs_next s \<notin> rs_ready s"
    and "connect target SetupOk OpenTimeout s = (r, s')"
  shows "\<exists>e. r = Inl e \<and> (\<exists>e'. getPeer target su ng s' = (Inl e', s'))"
  using assms by (auto simp: connect_def connect_begin_def connect_finish_def set_up_def getPeer_def Let_def)

lemma dead_peer_stays_witness:
  "\<exists>e (s' :: rtc_state). getPeer zero_key SetupOk ChannelOpen s' = (Inl e, s')"
proof -
  obtain r s' where c: "connect zero_key SetupOk OpenTimeout NewTransport_rtc = (r, s')"
    by (rule prod.exhaust)
  from dead_peer_stays [OF _ _ c, of SetupOk ChannelOpen] show ?thesis
    by (auto simp: NewTransport_rtc_def)
qed

text \<open>When two nodes call each other at once, the failure of one's own offer removes the
  connection that the other's offer had made: it is open, nobody closes it, and the next call
  connects again.\<close>

theorem failed_offer_drops_other:
  assumes "connect_begin k SetupOk s = (Inr pc, s1)"
    and "handleIncomingOffer k SetupOk s1 = (Inr pc', s2)"
    and "connect_finish k pc (OfferFails e) s2 = (r, s3)"
  shows "rs_peers s2 k = Some pc' \<and> pc' \<noteq> pc \<and> rs_peers s3 k = None
     \<and> (pc' \<notin> rs_closed s \<longrightarrow> pc' \<notin> rs_closed s3)"
  using assms
  by (auto simp: connect_begin_def handleIncomingOffer_def connect_finish_def set_up_def drop_peer_def Let_def)

lemma failed_offer_drops_other_witness:
  "\<exists>(s :: rtc_state) pc. pc \<notin> rs_closed s \<and> rs_peers s zero_key = None"
proof -
  obtain pc s1 where 1: "connect_begin zero_key SetupOk NewTransport_rtc = (Inr pc, s1)"
    by (simp add: connect_begin_def set_up_def)
  obtain pc' s2 where 2: "handleIncomingOffer zero_key SetupOk s1 = (Inr pc', s2)"
    by (simp add: handleIncomingOffer_def set_up_def)
  obtain r s3 where 3: "connect_finish zero_key pc (OfferFails ErrNotFound) s2 = (r, s3)"
    by (rule prod.exhaust)
  have "pc' \<notin> rs_closed NewTransport_rtc" by (simp add: NewTransport_rtc_def)
  with failed_offer_drops_other [OF 1 2 3] show ?thesis by blast
qed

section \<open>The pace of blob transfers\<close>

text \<open>C30: however many blobs a connection sends at once, and however the goroutines and the library
  interleave, the data channel never has more than the threshold and one frame for each transfer to
  send.\<close>

theorem blob_pace_bounded:
  assumes "flow_step\<^sup>*\<^sup>* (transfers bs) s"
  shows "fl_buffered s \<le> blobBufferThreshold + (33 + blobChunkSize) * length bs"
proof -
  have "length (fl_senders s) = length bs" using length_flow [OF assms] by (simp add: transfers_def)
  with flow.reachable_ok [OF assms] show ?thesis by (simp add: flow_ok_def maxFrame_def)
qed

lemma blob_pace_bounded_witness:
  "fl_buffered (transfers [(''id'', [1])]) \<le> blobBufferThreshold + (33 + blobChunkSize) * 1"
  using blob_pace_bounded [OF rtranclp.rtrancl_refl, of "[(''id'', [1])]"] by simp

text \<open>C29: a transfer that has the connection to itself returns while the connection is there: from every
  state with an open connection that it can get into, it can go on to its end, where
  everything is sent, without the end of the connection; it has not returned only while another step is
  left; and no run is longer than the work there is, whatever the pace of the library, whichever sends
  fail and whenever the connection ends. So the signal that the buffer drained is never lost. After the
  end of the connection a transfer that is not blocked, or has a signal, can still go on; one that
  waits for a signal, with no call of the library coming, waits for ever.\<close>

theorem single_transfer_returns:
  assumes "flow_step\<^sup>*\<^sup>* (transfers [b]) s"
  shows "(fl_open s \<longrightarrow>
            (\<exists>t. open_step\<^sup>*\<^sup>* s t \<and> fl_senders t = [Returned] \<and> fl_buffered t = 0)
            \<and> ((\<nexists>t. open_step s t) \<longrightarrow> fl_senders s = [Returned] \<and> fl_buffered s = 0))
     \<and> (\<forall>run n. run 0 = s \<and> (\<forall>i < n. flow_step (run i) (run (Suc i))) \<longrightarrow> n \<le> flow_work s)
     \<and> (\<not> fl_open s \<and> (\<nexists>t. flow_step s t) \<longrightarrow> fl_senders s = [Returned] \<or> (\<exists>fr. fl_senders s = [Blocked fr]) \<and> \<not> fl_signal s)
     \<and> (\<not> fl_open s \<and> \<not> fl_signal s \<and> fl_events s = 0 \<and> (\<exists>fr. fl_senders s = [Blocked fr]) \<longrightarrow>
            (\<forall>t. flow_step\<^sup>*\<^sup>* s t \<longrightarrow> fl_senders t \<noteq> [Returned]))"
proof (intro conjI impI)
  have ok: "flow_ok s" by (rule flow.reachable_ok [OF assms])
  have "length (fl_senders s) = 1" using length_flow [OF assms] by (simp add: transfers_def)
  then obtain x where x: "fl_senders s = [x]" by (auto simp: length_Suc_conv)
  show "\<exists>t. open_step\<^sup>*\<^sup>* s t \<and> fl_senders t = [Returned] \<and> fl_buffered t = 0" if "fl_open s"
  proof -
    from open_steps_stop [OF ok that] obtain t where t: "open_step\<^sup>*\<^sup>* s t" "fl_open t" "\<nexists>u. open_step t u" by blast
    with single_returns [OF rtranclp_trans [OF assms open_steps_flow [OF t(1)]] t(2,3)] show ?thesis by blast
  qed
  show "fl_senders s = [Returned]" "fl_buffered s = 0" if "fl_open s" "\<nexists>t. open_step s t"
    using single_returns [OF assms that] by simp_all
  show "\<forall>run n. run 0 = s \<and> (\<forall>i < n. flow_step (run i) (run (Suc i))) \<longrightarrow> n \<le> flow_work s"
  proof (intro allI impI)
    fix run n assume "run 0 = s \<and> (\<forall>i < n. flow_step (run i) (run (Suc i)))"
    with flow.no_long_run [of n run] ok show "n \<le> flow_work s" by auto
  qed
  show "fl_senders s = [Returned] \<or> (\<exists>fr. fl_senders s = [Blocked fr]) \<and> \<not> fl_signal s"
    if "\<not> fl_open s \<and> (\<nexists>t. flow_step s t)"
    using that x flow_step.check [of 0 s] flow_step.fail [of 0 s] flow_step.wake [of 0 s] by (cases x) auto
  show "\<forall>t. flow_step\<^sup>*\<^sup>* s t \<longrightarrow> fl_senders t \<noteq> [Returned]"
    if blocked: "\<not> fl_open s \<and> \<not> fl_signal s \<and> fl_events s = 0 \<and> (\<exists>fr. fl_senders s = [Blocked fr])"
  proof (intro allI impI)
    fix t assume t: "flow_step\<^sup>*\<^sup>* s t"
    obtain fr where "fl_senders s = [Blocked fr]" using blocked by blast
    with blocked_for_good [OF t, of 0 fr] blocked show "fl_senders t \<noteq> [Returned]" by auto
  qed
qed

lemma single_transfer_returns_witness:
  "\<exists>t. open_step\<^sup>*\<^sup>* (transfers [(''id'', [1])]) t \<and> fl_senders t = [Returned] \<and> fl_buffered t = 0"
  using single_transfer_returns [OF rtranclp.rtrancl_refl, of "(''id'', [1])"] by (simp add: transfers_def)

text \<open>Such a wait comes about: a blob of 33 full chunks fills the buffer, and the connection ends before
  the library has sent enough of it. The goroutine that sends it is then never done.\<close>

theorem blocked_after_end:
  assumes "length data = 33 * blobChunkSize"
  shows "\<exists>s. flow_step\<^sup>*\<^sup>* (transfers [(rid, data)]) s \<and> (\<forall>t. flow_step\<^sup>*\<^sup>* s t \<longrightarrow> fl_senders t = [Blocked [maxFrame]])"
proof -
  let ?s = "\<lparr>fl_open = False, fl_buffered = 32 * maxFrame, fl_events = 0, fl_signal = False, fl_senders = [Blocked [maxFrame]]\<rparr>"
  have m: "maxFrame = 262177" "blobBufferThreshold = 8388608"
    by (simp_all add: maxFrame_def blobChunkSize_def blobBufferThreshold_def)
  have "frame_sizes (rid, data) = replicate 33 maxFrame"
    using full_frames [of data 32 rid] assms by (simp flip: replicate_Suc)
  also have "\<dots> = replicate 32 maxFrame @ [maxFrame]" by (simp add: replicate_append_same flip: replicate_Suc)
  finally have t: "transfers [(rid, data)] = \<lparr>fl_open = True, fl_buffered = 0, fl_events = 0, fl_signal = False,
      fl_senders = [Checking (replicate 32 maxFrame @ [maxFrame])]\<rparr>" by (simp add: transfers_def)
  have "flow_step\<^sup>*\<^sup>* (transfers [(rid, data)]) ?s" unfolding t by (rule blocked_run) (simp_all add: m)
  moreover have "fl_senders t = [Blocked [maxFrame]]" if "flow_step\<^sup>*\<^sup>* ?s t" for t
    using blocked_for_good [OF that, of 0 "[maxFrame]"] length_flow [OF that] by (auto simp: length_Suc_conv)
  ultimately show ?thesis by blast
qed

text \<open>Two transfers at once share the signal: a blob of 33 full chunks and any other can end with the
  other waiting for good, with an empty buffer and nothing that could happen but the end of the
  connection.\<close>

theorem shared_signal_lost:
  assumes "length data = 33 * blobChunkSize" and "data' \<noteq> []"
  shows "\<exists>s. flow_step\<^sup>*\<^sup>* (transfers [(rid, data), (rid', data')]) s \<and> fl_open s \<and> (\<nexists>t. open_step s t)
     \<and> fl_senders s = [Returned, Blocked (frame_sizes (rid', data'))]"
proof -
  have "frame_sizes (rid, data) = replicate 33 maxFrame"
    using full_frames [of data 32 rid] assms(1) by (simp flip: replicate_Suc)
  moreover have "frame_sizes (rid', data') \<noteq> []"
    using chunks_shape [OF assms(2)] by (force simp: frame_sizes_def sendBlobChunked_ok)
  ultimately show ?thesis
    using shared_signal_run no_more_steps by (fastforce simp: transfers_def)
qed

text \<open>A peer that opens a second data channel of one label ends the process.\<close>

theorem second_channel_panics:
  assumes "label \<in> {labelControl, labelBlob}" and "channel_opens label s = Some s'"
  shows "channel_opens label (channel_arrives label dc s') = None"
  using opens_twice [OF assms] .

end
