(* ===== verification/Signal_Message.thy ===== *)
theory Signal_Message
  imports Codec
begin

text \<open>
  The messages of signaling: the WebSocket message that client (\<open>wsSignalMsg\<close> in
  \<open>transport/webrtc/signaling.go\<close>) and server (\<open>signalMsg\<close> in \<open>cmd/signal_server/main.go\<close>)
  declare alike, the payload of an offer, and node ids in hexadecimal.
\<close>

section \<open>The WebSocket message\<close>

record signal_msg =
  sm_type :: string
  sm_id :: string
  sm_caller :: string
  sm_callee :: string
  sm_sdp :: string

definition empty_signal_msg :: signal_msg where
  "empty_signal_msg = \<lparr>sm_type = [], sm_id = [], sm_caller = [], sm_callee = [], sm_sdp = []\<rparr>"

text \<open>\<open>WriteJSON\<close> and \<open>ReadJSON\<close>; all fields but the type are omitted when empty.\<close>

definition signal_to_json :: "signal_msg \<Rightarrow> json" where
  "signal_to_json m = JObj
     ([(''type'', JStr (sm_type m))]
      @ omit (sm_id m = []) ''id'' (JStr (sm_id m))
      @ omit (sm_caller m = []) ''caller_id'' (JStr (sm_caller m))
      @ omit (sm_callee m = []) ''callee_id'' (JStr (sm_callee m))
      @ omit (sm_sdp m = []) ''sdp'' (JStr (sm_sdp m)))"

definition signal_of_json :: "json \<Rightarrow> go_error + signal_msg" where
  "signal_of_json j =
     (case j of
        JNull \<Rightarrow> Inr empty_signal_msg
      | JObj kvs \<Rightarrow>
          or_else (get_string (field kvs ''type'')) (\<lambda>ty.
          or_else (get_string (field kvs ''id'')) (\<lambda>i.
          or_else (get_string (field kvs ''caller_id'')) (\<lambda>caller.
          or_else (get_string (field kvs ''callee_id'')) (\<lambda>callee.
          or_else (get_string (field kvs ''sdp'')) (\<lambda>sdp.
            Inr \<lparr>sm_type = ty, sm_id = i, sm_caller = caller, sm_callee = callee, sm_sdp = sdp\<rparr>)))))
      | _ \<Rightarrow> Inl type_error)"

definition syntax_error :: go_error where
  "syntax_error = ErrText ''invalid character in JSON text''"

definition write_signal :: "signal_msg \<Rightarrow> string" where
  "write_signal m = print_json (signal_to_json m)"

definition read_signal :: "string \<Rightarrow> go_error + signal_msg" where
  "read_signal text =
     (case parse_json text of None \<Rightarrow> Inl syntax_error | Some j \<Rightarrow> signal_of_json j)"

lemma signal_of_to_json: "signal_of_json (signal_to_json m) = Inr m"
proof (cases m)
  case (fields ty i caller callee sdp)
  show ?thesis
    by (cases "i = []"; cases "caller = []"; cases "callee = []"; cases "sdp = []")
      (simp_all add: fields signal_of_json_def signal_to_json_def field_def omit_def get_string_def)
qed

text \<open>A message survives its text, so the queues of a connection are modelled as messages.\<close>

lemma read_write_signal [simp]: "read_signal (write_signal m) = Inr m"
  by (simp add: read_signal_def write_signal_def signal_of_to_json)

section \<open>Node ids in hexadecimal\<close>

text \<open>\<open>fmt.Sprintf("%x", id)\<close>.\<close>

definition id_hex :: "dht_key \<Rightarrow> string" where
  "id_hex k = hex_encode (key_bytes k)"

lemma length_id_hex [simp]: "length (id_hex k) = 40"
  by (simp add: id_hex_def)

lemma id_hex_inject [simp]: "id_hex a = id_hex b \<longleftrightarrow> a = b"
  by (simp add: id_hex_def key_eq_iff)

lemma id_hex_nonempty [simp]: "id_hex k \<noteq> []" "key_bytes k \<noteq> []"
  using length_id_hex [of k] length_key_bytes [of k] by (metis list.size(3) zero_neq_numeral)+

text \<open>
  \<open>fmt.Sscanf(h[2*i:2*i+2], "%02x", &b)\<close>: leading blanks are skipped, but not a line feed, then
  up to two digits are read; without a digit \<open>b\<close> stays 0.
\<close>

definition is_blank :: "char \<Rightarrow> bool" where
  "is_blank c \<longleftrightarrow> (of_char c :: nat) \<in> {9, 11, 12, 13, 32}"

definition scan_byte :: "char \<Rightarrow> char \<Rightarrow> byte" where
  "scan_byte p q =
     (case (hex_val p, hex_val q) of
        (Some a, Some b) \<Rightarrow> of_nat (a * 16 + b)
      | (Some a, None) \<Rightarrow> of_nat a
      | (None, Some b) \<Rightarrow> if is_blank p then of_nat b else 0
      | (None, None) \<Rightarrow> 0)"

fun scan_bytes :: "nat \<Rightarrow> string \<Rightarrow> bytes" where
  "scan_bytes (Suc n) (p # q # h) = scan_byte p q # scan_bytes n h"
| "scan_bytes _ _ = []"

definition nodeIDFromHex :: "string \<Rightarrow> dht_key" where
  "nodeIDFromHex h = key_of_slice (scan_bytes 20 h)"

lemma scan_bytes_decode:
  "hex_decode h = (bs, None) \<Longrightarrow> scan_bytes n h = take n bs"
proof (induction n h arbitrary: bs rule: scan_bytes.induct)
  case (1 n p q h)
  then show ?case by (auto simp: scan_byte_def split: option.splits prod.splits)
qed auto

lemma nodeIDFromHex_id_hex [simp]: "nodeIDFromHex (id_hex k) = k"
proof -
  have "scan_bytes 20 (hex_encode (key_bytes k)) = take 20 (key_bytes k)"
    by (rule scan_bytes_decode) simp
  then show ?thesis by (simp add: nodeIDFromHex_def id_hex_def)
qed

section \<open>The payload of an offer\<close>

record signal_payload =
  sp_caller :: dht_key
  sp_sdp :: string

definition payload_to_json :: "signal_payload \<Rightarrow> json" where
  "payload_to_json p = JObj [(''caller_id'', MarshalJSON (sp_caller p)), (''sdp'', JStr (sp_sdp p))]"

definition payload_of_json :: "json \<Rightarrow> go_error + signal_payload" where
  "payload_of_json j =
     (case j of
        JNull \<Rightarrow> Inr \<lparr>sp_caller = key_of_slice [], sp_sdp = []\<rparr>
      | JObj kvs \<Rightarrow>
          or_else (get_key kvs ''caller_id'') (\<lambda>caller.
          or_else (get_string (field kvs ''sdp'')) (\<lambda>sdp. Inr \<lparr>sp_caller = caller, sp_sdp = sdp\<rparr>))
      | _ \<Rightarrow> Inl type_error)"

lemma payload_of_to_json [simp]: "payload_of_json (payload_to_json p) = Inr p"
  by (simp add: payload_of_json_def payload_to_json_def get_key_def field_def get_string_def)

text \<open>What an offer over the DHT is stored as, with the seconds it was made at, an int64.\<close>

record dht_offer_entry =
  oe_payload :: signal_payload
  oe_ts :: "64 word"

definition entry_to_json :: "dht_offer_entry \<Rightarrow> json" where
  "entry_to_json e =
     JObj [(''payload'', payload_to_json (oe_payload e)), (''ts'', JInt (sint (oe_ts e)))]"

definition entry_of_json :: "json \<Rightarrow> go_error + dht_offer_entry" where
  "entry_of_json j =
     (case j of
        JNull \<Rightarrow> Inr \<lparr>oe_payload = \<lparr>sp_caller = key_of_slice [], sp_sdp = []\<rparr>, oe_ts = 0\<rparr>
      | JObj kvs \<Rightarrow>
          or_else (payload_of_json (field kvs ''payload'')) (\<lambda>p.
          or_else (get_int64 (field kvs ''ts'')) (\<lambda>ts. Inr \<lparr>oe_payload = p, oe_ts = ts\<rparr>))
      | _ \<Rightarrow> Inl type_error)"

lemma entry_of_to_json [simp]: "entry_of_json (entry_to_json e) = Inr e"
  by (simp add: entry_of_json_def entry_to_json_def field_def)

text \<open>As the bytes of a stored value.\<close>

definition entry_bytes :: "dht_offer_entry \<Rightarrow> bytes" where
  "entry_bytes e = bytes_of_string (print_json (entry_to_json e))"

definition read_entry :: "bytes \<Rightarrow> go_error + dht_offer_entry" where
  "read_entry bs =
     (case parse_json (string_of_bytes bs) of None \<Rightarrow> Inl syntax_error | Some j \<Rightarrow> entry_of_json j)"

lemma read_entry_bytes [simp]: "read_entry (entry_bytes e) = Inr e"
  by (simp add: read_entry_def entry_bytes_def)

lemma entry_bytes_nonempty: "entry_bytes e \<noteq> []"
  using print_json_hd [of "entry_to_json e"] by (auto simp: entry_bytes_def bytes_of_string_def)

end
