(* ===== verification/Signal_Server.thy ===== *)
theory Signal_Server
  imports Signal_Message
begin

text \<open>
  \<open>cmd/signal_server/main.go\<close>: the server that forwards offers and answers between the
  WebSocket connections of the nodes. Connections are numbered in the order they are accepted.
\<close>

text \<open>
  \<open>sv_conns\<close> holds the local variable \<open>nodeID\<close> of every \<open>ServeHTTP\<close> that is running,
  \<open>sv_forwards\<close> the goroutines of \<open>doForward\<close> that have not run yet.
\<close>

record server =
  sv_peers :: "string \<rightharpoonup> nat"
  sv_conns :: "nat \<rightharpoonup> string"
  sv_forwards :: "(string \<times> signal_msg) list"
  sv_next :: nat

definition newServer :: server where
  "newServer = \<lparr>sv_peers = Map.empty, sv_conns = Map.empty, sv_forwards = [], sv_next = 0\<rparr>"

section \<open>ServeHTTP\<close>

text \<open>A connection is upgraded; a message is read from it; reading fails and it is closed.\<close>

definition serve_open :: "server \<Rightarrow> server" where
  "serve_open s = s\<lparr>sv_conns := (sv_conns s)(sv_next s \<mapsto> []), sv_next := Suc (sv_next s)\<rparr>"

definition serve_msg :: "nat \<Rightarrow> signal_msg \<Rightarrow> server \<Rightarrow> server" where
  "serve_msg conn msg s =
     (if sm_type msg = ''register'' then
        s\<lparr>sv_conns := (sv_conns s)(conn \<mapsto> sm_id msg), sv_peers := (sv_peers s)(sm_id msg \<mapsto> conn)\<rparr>
      else if sm_type msg = ''offer'' then s\<lparr>sv_forwards := sv_forwards s @ [(sm_callee msg, msg)]\<rparr>
      else if sm_type msg = ''answer'' then s\<lparr>sv_forwards := sv_forwards s @ [(sm_caller msg, msg)]\<rparr>
      else s)"

definition serve_end :: "nat \<Rightarrow> server \<Rightarrow> server" where
  "serve_end conn s =
     (case sv_conns s conn of
        None \<Rightarrow> s
      | Some nodeID \<Rightarrow>
          s\<lparr>sv_conns := (sv_conns s)(conn := None),
            sv_peers := (if nodeID \<noteq> [] then (sv_peers s)(nodeID := None) else sv_peers s)\<rparr>)"

text \<open>
  The connection \<open>doForward\<close> writes to. Its semaphore is released as soon as it is taken, so it
  orders nothing; a write to a closed connection fails and is only logged.
\<close>

definition doForward :: "server \<Rightarrow> string \<Rightarrow> nat option" where
  "doForward s targetID =
     (case sv_peers s targetID of
        None \<Rightarrow> None
      | Some conn \<Rightarrow> if sv_conns s conn = None then None else Some conn)"

lemma serve_open_simps [simp]:
  "sv_peers (serve_open s) = sv_peers s" "sv_forwards (serve_open s) = sv_forwards s"
  "sv_next (serve_open s) = Suc (sv_next s)"
  by (simp_all add: serve_open_def)

lemma serve_msg_next [simp]: "sv_next (serve_msg c m s) = sv_next s"
  by (simp add: serve_msg_def)

lemma serve_end_simps [simp]:
  "sv_forwards (serve_end c s) = sv_forwards s" "sv_next (serve_end c s) = sv_next s"
  by (simp_all add: serve_end_def split: option.splits)

section \<open>Any clients\<close>

text \<open>
  What happens to the server, in any order and whatever its clients send: a connection is
  accepted, a message is read from one that is open, a forwarding goroutine runs, a connection
  ends. The state is a function of what happened.
\<close>

datatype server_event = Accepted | Got nat signal_msg | Forwarded nat | Gone nat

definition server_do :: "server \<Rightarrow> server_event \<Rightarrow> server" where
  "server_do s e =
     (case e of
        Accepted \<Rightarrow> serve_open s
      | Got conn msg \<Rightarrow> if sv_conns s conn = None then s else serve_msg conn msg s
      | Forwarded i \<Rightarrow> s\<lparr>sv_forwards := remove_nth i (sv_forwards s)\<rparr>
      | Gone conn \<Rightarrow> serve_end conn s)"

abbreviation server_after :: "server_event list \<Rightarrow> server" where
  "server_after \<equiv> foldl server_do newServer"

text \<open>
  A registration under an id, by an open connection; and the end of a connection whose last
  registration was under the id.
\<close>

definition registers :: "server \<Rightarrow> string \<Rightarrow> server_event \<Rightarrow> nat option" where
  "registers s k e =
     (case e of
        Got conn msg \<Rightarrow> if sv_conns s conn \<noteq> None \<and> sm_type msg = ''register'' \<and> sm_id msg = k
                        then Some conn else None
      | _ \<Rightarrow> None)"

definition drops :: "server \<Rightarrow> string \<Rightarrow> server_event \<Rightarrow> bool" where
  "drops s k e = (case e of Gone conn \<Rightarrow> k \<noteq> [] \<and> sv_conns s conn = Some k | _ \<Rightarrow> False)"

text \<open>No event of a list is one or the other.\<close>

fun quiet :: "server \<Rightarrow> string \<Rightarrow> server_event list \<Rightarrow> bool" where
  "quiet s k [] \<longleftrightarrow> True"
| "quiet s k (e # es) \<longleftrightarrow> registers s k e = None \<and> \<not> drops s k e \<and> quiet (server_do s e) k es"

lemma server_do_peers:
  "sv_peers (server_do s e) k =
     (if registers s k e \<noteq> None then registers s k e else if drops s k e then None else sv_peers s k)"
  by (cases e)
    (auto simp: server_do_def registers_def drops_def serve_msg_def serve_end_def split: option.splits)

lemma split_Cons:
  "(\<exists>before x after. e # es = before @ x # after \<and> P before x after) \<longleftrightarrow>
     P [] e es \<or> (\<exists>before x after. es = before @ x # after \<and> P (e # before) x after)"
  by (auto simp: Cons_eq_append_conv)

text \<open>The last registration under an id decides, unless the connection with that id ended since.\<close>

lemma peers_last:
  "sv_peers (foldl server_do s es) k = Some c \<longleftrightarrow>
     sv_peers s k = Some c \<and> quiet s k es
     \<or> (\<exists>before e after. es = before @ e # after \<and> registers (foldl server_do s before) k e = Some c
          \<and> quiet (foldl server_do s (before @ [e])) k after)"
proof (induction es arbitrary: s)
  case (Cons e es)
  show ?case unfolding split_Cons by (auto simp: Cons.IH [of "server_do s e"] server_do_peers)
qed simp

text \<open>The goroutines stem from the offers and answers that were read, each with its target.\<close>

lemma server_forwards:
  assumes "(t, m) \<in> set (sv_forwards (foldl server_do s es))"
  shows "(t, m) \<in> set (sv_forwards s) \<or> (\<exists>conn. Got conn m \<in> set es)
     \<and> (sm_type m = ''offer'' \<and> t = sm_callee m \<or> sm_type m = ''answer'' \<and> t = sm_caller m)"
  using assms
proof (induction es arbitrary: s)
  case (Cons e es)
  have "(t, m) \<in> set (sv_forwards (server_do s e)) \<Longrightarrow> (t, m) \<in> set (sv_forwards s) \<or> (\<exists>conn. e = Got conn m)
     \<and> (sm_type m = ''offer'' \<and> t = sm_callee m \<or> sm_type m = ''answer'' \<and> t = sm_caller m)"
    using set_remove_nth_subset
    by (cases e) (fastforce simp: server_do_def serve_msg_def split: if_splits)+
  with Cons.IH [of "server_do s e"] Cons.prems show ?case by auto
qed simp

section \<open>Clients that register once\<close>

text \<open>
  The steps of the server when every connection registers at most once, under an id that no
  other open connection has. The server does not check it.
\<close>

fun polite_event :: "server \<Rightarrow> server_event \<Rightarrow> bool" where
  "polite_event s (Got conn msg) =
     (sm_type msg = ''register'' \<longrightarrow> sv_conns s conn = Some [] \<and> sm_id msg \<noteq> [] \<and> sm_id msg \<notin> ran (sv_conns s))"
| "polite_event s e = True"

primrec polite :: "server \<Rightarrow> server_event list \<Rightarrow> bool" where
  "polite s [] = True"
| "polite s (e # es) = (polite_event s e \<and> polite (server_do s e) es)"

inductive polite_step :: "server \<Rightarrow> server \<Rightarrow> bool" where
  event: "polite_event s e \<Longrightarrow> polite_step s (server_do s e)"

lemma polite_steps: "polite s es \<Longrightarrow> polite_step\<^sup>*\<^sup>* s (foldl server_do s es)"
  by (induction es arbitrary: s) (auto intro: converse_rtranclp_into_rtranclp polite_step.event)

text \<open>The table is then exactly the registered open connections.\<close>

definition registry_exact :: "server \<Rightarrow> bool" where
  "registry_exact s \<longleftrightarrow>
     (\<forall>k c. sv_peers s k = Some c \<longleftrightarrow> sv_conns s c = Some k \<and> k \<noteq> [])
     \<and> (\<forall>c. sv_next s \<le> c \<longrightarrow> sv_conns s c = None)"

lemma registry_unique:
  "registry_exact s \<Longrightarrow> sv_conns s c = Some k \<Longrightarrow> sv_conns s d = Some k \<Longrightarrow> k \<noteq> [] \<Longrightarrow> c = d"
  unfolding registry_exact_def by (metis option.inject)

lemma exact_forward:
  assumes "registry_exact s"
  shows "(doForward s k = Some c \<longleftrightarrow> sv_conns s c = Some k \<and> k \<noteq> [])
     \<and> (doForward s k = None \<longleftrightarrow> k = [] \<or> k \<notin> ran (sv_conns s))"
proof -
  have peers: "sv_peers s k = Some c \<longleftrightarrow> sv_conns s c = Some k \<and> k \<noteq> []" for c
    using assms unfolding registry_exact_def by blast
  have "doForward s k = sv_peers s k"
  proof (cases "sv_peers s k")
    case (Some c)
    with peers [of c] show ?thesis by (simp add: doForward_def)
  qed (simp add: doForward_def)
  moreover have "sv_peers s k = None \<longleftrightarrow> k = [] \<or> k \<notin> ran (sv_conns s)"
    using peers by (cases "sv_peers s k") (auto simp: ran_def)
  ultimately show ?thesis using peers [of c] by simp
qed

lemma registry_exact_open: "registry_exact s \<Longrightarrow> registry_exact (serve_open s)"
  by (auto simp: registry_exact_def serve_open_def)

lemma registry_exact_register:
  assumes "registry_exact s" and "sv_conns s conn = Some []" and "k \<noteq> []" and "k \<notin> ran (sv_conns s)"
  shows "registry_exact (s\<lparr>sv_conns := (sv_conns s)(conn \<mapsto> k), sv_peers := (sv_peers s)(k \<mapsto> conn)\<rparr>)"
proof -
  have "sv_conns s c \<noteq> Some k" for c using assms(4) by (auto simp: ran_def)
  with assms(1-3) show ?thesis unfolding registry_exact_def by auto
qed

lemma registry_exact_end: 
  assumes "registry_exact s"
  shows "registry_exact (serve_end conn s)"
proof (cases "sv_conns s conn")
  case None
  with assms show ?thesis by (simp add: serve_end_def)
next
  case (Some k)
  have "sv_conns s c \<noteq> Some k" if "c \<noteq> conn" "k \<noteq> []" for c
    using registry_unique [OF assms Some] that by blast
  with assms Some show ?thesis
    unfolding registry_exact_def by (auto simp: serve_end_def)
qed

lemma polite_step_exact: "polite_step s t \<Longrightarrow> registry_exact s \<Longrightarrow> registry_exact t"
proof (induction rule: polite_step.induct)
  case (event s e)
  then show ?case
  proof (cases e)
    case (Got conn msg)
    then show ?thesis
      using event registry_exact_register [of s conn "sm_id msg"]
      by (cases "sm_type msg = ''register''")
        (auto simp: server_do_def serve_msg_def registry_exact_def [of "s\<lparr>sv_forwards := _\<rparr>"] registry_exact_def [of s])
  qed (auto simp: server_do_def registry_exact_open registry_exact_end registry_exact_def [of "s\<lparr>sv_forwards := _\<rparr>"]
      registry_exact_def [of s])
qed

interpretation registry: state_machine newServer polite_step registry_exact
  by unfold_locales (auto intro: polite_step_exact, simp add: registry_exact_def newServer_def)

end
