(* ===== verification/Central.thy ===== *)
theory Central
  imports Signal_Server
begin

text \<open>
  \<open>CentralSignaler\<close> of \<open>transport/webrtc/signaling.go\<close>: offers and answers through the signal
  server, over one WebSocket connection.
\<close>

section \<open>The address of the server\<close>

definition centralWsURL :: "string \<Rightarrow> string" where
  "centralWsURL u =
     (if 7 \<le> length u \<and> take 7 u = ''http://'' then ''ws://'' @ drop 7 u
      else if 8 \<le> length u \<and> take 8 u = ''https://'' then ''wss://'' @ drop 8 u
      else u)"

section \<open>The signaler\<close>

text \<open>
  Each call of \<open>SendOffer\<close> has a channel of capacity one, numbered in the order they are made;
  the table \<open>pending\<close> maps the pair of a call to its channel.
\<close>

record central =
  ce_local :: dht_key
  ce_conn :: bool  \<comment> \<open>whether \<open>s.conn\<close> is set\<close>
  ce_pending :: "string \<rightharpoonup> nat"
  ce_chans :: "nat \<rightharpoonup> string"
  ce_next :: nat

definition NewCentralSignaler :: "dht_key \<Rightarrow> central" where
  "NewCentralSignaler local_id =
     \<lparr>ce_local = local_id, ce_conn = False, ce_pending = Map.empty, ce_chans = Map.empty, ce_next = 0\<rparr>"

text \<open>
  \<open>ListenOffers\<close> with the outcomes of the dial and of the first write: the error, and the
  message that is on its way to the server.
\<close>

definition register_msg :: "dht_key \<Rightarrow> signal_msg" where
  "register_msg local_id = empty_signal_msg\<lparr>sm_type := ''register'', sm_id := id_hex local_id\<rparr>"

definition ListenOffers_central ::
  "go_error option \<Rightarrow> go_error option \<Rightarrow> central \<Rightarrow> (go_error + signal_msg) \<times> central"
where
  "ListenOffers_central dial write st =
     (case dial of
        Some err \<Rightarrow> (Inl (ErrWrap ''CentralSignaler: dial'' err), st)
      | None \<Rightarrow>
          (case write of
             Some err \<Rightarrow> (Inl (ErrWrap ''CentralSignaler: register'' err), st)
           | None \<Rightarrow> (Inr (register_msg (ce_local st)), st\<lparr>ce_conn := True\<rparr>)))"

text \<open>The key of a call, made of the two ids in hexadecimal.\<close>

definition pair_key :: "string \<Rightarrow> string \<Rightarrow> string" where
  "pair_key caller callee = caller @ ''/'' @ callee"

lemma pair_key_ids [simp]:
  "pair_key (id_hex a) (id_hex b) = pair_key (id_hex c) (id_hex d) \<longleftrightarrow> a = c \<and> b = d"
  by (simp add: pair_key_def)

section \<open>readLoop\<close>

text \<open>An answer goes to the channel of its pair, unless that is full.\<close>

definition deliver_answer :: "signal_msg \<Rightarrow> central \<Rightarrow> central" where
  "deliver_answer msg st =
     (case ce_pending st (pair_key (sm_caller msg) (sm_callee msg)) of
        None \<Rightarrow> st
      | Some ch \<Rightarrow>
          (case ce_chans st ch of
             None \<Rightarrow> st\<lparr>ce_chans := (ce_chans st)(ch \<mapsto> sm_sdp msg)\<rparr>
           | Some a \<Rightarrow> st))"

text \<open>
  One message: an offer starts a goroutine that calls the handler, with the payload given here
  and the caller's id as it stood in the message.
\<close>

type_synonym offer_job = "signal_payload \<times> string"

definition readLoop_msg :: "signal_msg \<Rightarrow> central \<Rightarrow> offer_job option \<times> central" where
  "readLoop_msg msg st =
     (if sm_type msg = ''offer'' then
        (Some (\<lparr>sp_caller = nodeIDFromHex (sm_caller msg), sp_sdp = sm_sdp msg\<rparr>, sm_caller msg), st)
      else if sm_type msg = ''answer'' then (None, deliver_answer msg st)
      else (None, st))"

text \<open>The rest of that goroutine: the message it writes for what the handler returned.\<close>

definition answer_msg :: "string \<Rightarrow> dht_key \<Rightarrow> string \<Rightarrow> signal_msg" where
  "answer_msg caller local_id answer =
     \<lparr>sm_type = ''answer'', sm_id = [], sm_caller = caller, sm_callee = id_hex local_id, sm_sdp = answer\<rparr>"

definition offer_handled :: "string \<Rightarrow> go_error + string \<Rightarrow> central \<Rightarrow> signal_msg option" where
  "offer_handled caller result st =
     (case result of
        Inl err \<Rightarrow> None
      | Inr answer \<Rightarrow> if ce_conn st then Some (answer_msg caller (ce_local st) answer) else None)"

section \<open>SendOffer\<close>

definition offer_msg :: "dht_key \<Rightarrow> dht_key \<Rightarrow> string \<Rightarrow> signal_msg" where
  "offer_msg caller target sdp =
     \<lparr>sm_type = ''offer'', sm_id = [], sm_caller = id_hex caller, sm_callee = id_hex target, sm_sdp = sdp\<rparr>"

text \<open>A channel is made and entered for the pair; the deferred function removes the pair.\<close>

definition offer_begin :: "dht_key \<Rightarrow> dht_key \<Rightarrow> central \<Rightarrow> nat \<times> central" where
  "offer_begin caller target st =
     (ce_next st,
      st\<lparr>ce_pending := (ce_pending st)(pair_key (id_hex caller) (id_hex target) \<mapsto> ce_next st),
         ce_next := Suc (ce_next st)\<rparr>)"

definition offer_end :: "dht_key \<Rightarrow> dht_key \<Rightarrow> central \<Rightarrow> central" where
  "offer_end caller target st =
     st\<lparr>ce_pending := (ce_pending st)(pair_key (id_hex caller) (id_hex target) := None)\<rparr>"

text \<open>
  The whole call: \<open>write\<close> is the outcome of the write, \<open>arrivals\<close> what \<open>readLoop\<close> reads before
  the call wakes up, \<open>ctx\<close> the context's error if that is what wakes it without an answer.
\<close>

definition answer_timeout :: "dht_key \<Rightarrow> go_error" where
  "answer_timeout target =
     ErrText (''CentralSignaler: timeout waiting for answer from '' @ id_hex target)"

definition SendOffer_central ::
  "dht_key \<Rightarrow> signal_payload \<Rightarrow> go_error option \<Rightarrow> signal_msg list \<Rightarrow> go_error option \<Rightarrow> central \<Rightarrow>
     (go_error + string) \<times> central"
where
  "SendOffer_central target payload write arrivals ctx st =
     (let caller = sp_caller payload; (ch, st) = offer_begin caller target st in
      if \<not> ce_conn st then (Inl (ErrText ''CentralSignaler: not connected''), offer_end caller target st)
      else
        (case write of
           Some err \<Rightarrow> (Inl (ErrWrap ''CentralSignaler: send offer'' err), offer_end caller target st)
         | None \<Rightarrow>
             let st = fold (\<lambda>m st. snd (readLoop_msg m st)) arrivals st;
                 result = (case ce_chans st ch of
                             Some answer \<Rightarrow> Inr answer
                           | None \<Rightarrow> Inl (case ctx of Some err \<Rightarrow> err | None \<Rightarrow> answer_timeout target))
             in (result, offer_end caller target st)))"

definition Close_central :: "central \<Rightarrow> central" where
  "Close_central st = st\<lparr>ce_conn := False\<rparr>"

lemma deliver_answer_simps [simp]:
  "ce_local (deliver_answer m st) = ce_local st" "ce_conn (deliver_answer m st) = ce_conn st"
  "ce_pending (deliver_answer m st) = ce_pending st" "ce_next (deliver_answer m st) = ce_next st"
  by (simp_all add: deliver_answer_def split: option.split)

lemma snd_readLoop_msg: "snd (readLoop_msg m st) = (if sm_type m = ''answer'' then deliver_answer m st else st)"
  by (simp add: readLoop_msg_def)

lemma readLoop_msg_simps [simp]:
  "ce_local (snd (readLoop_msg m st)) = ce_local st" "ce_conn (snd (readLoop_msg m st)) = ce_conn st"
  "ce_pending (snd (readLoop_msg m st)) = ce_pending st" "ce_next (snd (readLoop_msg m st)) = ce_next st"
  by (simp_all add: snd_readLoop_msg)

lemma offer_end_simps [simp]:
  "ce_local (offer_end k t st) = ce_local st" "ce_chans (offer_end k t st) = ce_chans st"
  "ce_next (offer_end k t st) = ce_next st" "ce_conn (offer_end k t st) = ce_conn st"
  by (simp_all add: offer_end_def)

section \<open>One call\<close>

text \<open>The answers that belong to a pair, in the order they arrive.\<close>

definition answers_for :: "dht_key \<Rightarrow> dht_key \<Rightarrow> signal_msg list \<Rightarrow> string list" where
  "answers_for caller target ms =
     map sm_sdp (filter (\<lambda>m. sm_type m = ''answer''
       \<and> pair_key (sm_caller m) (sm_callee m) = pair_key (id_hex caller) (id_hex target)) ms)"

lemma fold_readLoop_simps [simp]:
  "ce_local (fold (\<lambda>m st. snd (readLoop_msg m st)) ms st) = ce_local st"
  "ce_conn (fold (\<lambda>m st. snd (readLoop_msg m st)) ms st) = ce_conn st"
  "ce_pending (fold (\<lambda>m st. snd (readLoop_msg m st)) ms st) = ce_pending st"
  "ce_next (fold (\<lambda>m st. snd (readLoop_msg m st)) ms st) = ce_next st"
  by (induction ms arbitrary: st) simp_all

text \<open>A pending pair whose channel no other pair has gets the first of its answers.\<close>

lemma fold_readLoop_chan:
  assumes "ce_pending st (pair_key (id_hex caller) (id_hex target)) = Some ch"
    and "\<And>k. ce_pending st k = Some ch \<Longrightarrow> k = pair_key (id_hex caller) (id_hex target)"
  shows "ce_chans (fold (\<lambda>m st. snd (readLoop_msg m st)) ms st) ch =
     (case ce_chans st ch of
        Some a \<Rightarrow> Some a
      | None \<Rightarrow> (case answers_for caller target ms of [] \<Rightarrow> None | a # r \<Rightarrow> Some a))"
  using assms
proof (induction ms arbitrary: st)
  case Nil
  show ?case by (simp add: answers_for_def split: option.splits)
next
  case (Cons m ms)
  let ?st = "snd (readLoop_msg m st)" and ?key = "pair_key (id_hex caller) (id_hex target)"
  have key: "ce_pending st k = Some ch \<longleftrightarrow> k = ?key" for k
    using Cons.prems by metis
  have "ce_chans (fold (\<lambda>m st. snd (readLoop_msg m st)) ms ?st) ch =
      (case ce_chans ?st ch of
         Some a \<Rightarrow> Some a
       | None \<Rightarrow> (case answers_for caller target ms of [] \<Rightarrow> None | a # r \<Rightarrow> Some a))"
    by (rule Cons.IH) (simp_all add: key)
  moreover have "ce_chans ?st ch =
      (case ce_chans st ch of
         Some a \<Rightarrow> Some a
       | None \<Rightarrow> if sm_type m = ''answer'' \<and> pair_key (sm_caller m) (sm_callee m) = ?key
           then Some (sm_sdp m) else None)"
    using key [of "pair_key (sm_caller m) (sm_callee m)"]
    by (auto simp: snd_readLoop_msg deliver_answer_def split: option.splits)
  ultimately show ?case
    by (simp add: answers_for_def split: option.splits)
qed

end
