(* ===== verification/Central_Network.thy ===== *)
theory Central_Network
  imports Central
begin

text \<open>
  The nodes that use a \<open>CentralSignaler\<close> and their server together: every interleaving of the
  server's connections and forwarding goroutines with the clients' read loops, handlers and
  calls, with lost connections. Client \<open>c\<close> listens once, over connection \<open>c\<close> of the server.
\<close>

section \<open>The state\<close>

text \<open>
  The last three components are ghosts: the offers made (caller, callee, SDP), the handler's
  answers (callee, caller, SDP of the offer, answer) and what calls returned (caller, callee,
  answer).
\<close>

record central_net =
  cn_server :: server
  cn_client :: "nat \<rightharpoonup> central"
  cn_up :: "nat \<Rightarrow> signal_msg list"  \<comment> \<open>written by the client, not read by the server yet\<close>
  cn_down :: "nat \<Rightarrow> signal_msg list"
  cn_jobs :: "(nat \<times> offer_job) set"
  cn_calls :: "(nat \<times> nat \<times> dht_key \<times> dht_key) set"
  cn_offered :: "(dht_key \<times> dht_key \<times> string) set"
  cn_answered :: "(dht_key \<times> dht_key \<times> string \<times> string) set"
  cn_results :: "(dht_key \<times> dht_key \<times> string) set"

definition central_start :: central_net where
  "central_start =
     \<lparr>cn_server = newServer, cn_client = Map.empty, cn_up = (\<lambda>_. []), cn_down = (\<lambda>_. []),
      cn_jobs = {}, cn_calls = {}, cn_offered = {}, cn_answered = {}, cn_results = {}\<rparr>"

section \<open>The steps\<close>

text \<open>A node listens: its connection is accepted and its registration is on the way.\<close>

definition net_listen :: "dht_key \<Rightarrow> central_net \<Rightarrow> central_net" where
  "net_listen local_id s =
     (let c = sv_next (cn_server s) in
      case ListenOffers_central None None (NewCentralSignaler local_id) of
        (Inr m, st) \<Rightarrow>
          s\<lparr>cn_server := serve_open (cn_server s), cn_client := (cn_client s)(c \<mapsto> st),
            cn_up := (cn_up s)(c := [m]), cn_down := (cn_down s)(c := [])\<rparr>
      | (Inl err, st) \<Rightarrow> s)"

text \<open>The server reads a message; it runs a forwarding goroutine.\<close>

definition net_serve :: "nat \<Rightarrow> signal_msg \<Rightarrow> signal_msg list \<Rightarrow> central_net \<Rightarrow> central_net" where
  "net_serve c m r s = s\<lparr>cn_server := serve_msg c m (cn_server s), cn_up := (cn_up s)(c := r)\<rparr>"

definition net_forward :: "nat \<Rightarrow> central_net \<Rightarrow> central_net" where
  "net_forward i s =
     (let sv = cn_server s; (target, m) = sv_forwards sv ! i;
          s = s\<lparr>cn_server := sv\<lparr>sv_forwards := remove_nth i (sv_forwards sv)\<rparr>\<rparr>
      in case doForward sv target of
           None \<Rightarrow> s
         | Some c \<Rightarrow> s\<lparr>cn_down := (cn_down s)(c := cn_down s c @ [m])\<rparr>)"

text \<open>
  A client reads a message; its handler returns. A job stays in the set when it has run, which
  only adds behaviours.
\<close>

definition net_read :: "nat \<Rightarrow> central \<Rightarrow> signal_msg \<Rightarrow> signal_msg list \<Rightarrow> central_net \<Rightarrow> central_net" where
  "net_read c st m r s =
     (case readLoop_msg m st of (job, st') \<Rightarrow>
        s\<lparr>cn_down := (cn_down s)(c := r), cn_client := (cn_client s)(c \<mapsto> st'),
          cn_jobs := (case job of None \<Rightarrow> cn_jobs s | Some j \<Rightarrow> insert (c, j) (cn_jobs s))\<rparr>)"

definition net_handled ::
  "nat \<Rightarrow> central \<Rightarrow> offer_job \<Rightarrow> go_error + string \<Rightarrow> central_net \<Rightarrow> central_net" where
  "net_handled c st job result s =
     (let s = s\<lparr>cn_answered := (case result of
                  Inl err \<Rightarrow> cn_answered s
                | Inr answer \<Rightarrow>
                    insert (ce_local st, sp_caller (fst job), sp_sdp (fst job), answer) (cn_answered s))\<rparr>
      in case offer_handled (snd job) result st of
           None \<Rightarrow> s
         | Some m \<Rightarrow> s\<lparr>cn_up := (cn_up s)(c := cn_up s c @ [m])\<rparr>)"

text \<open>A call of \<open>SendOffer\<close>, as \<open>connect\<close> makes it, with the node's own id; and its return.\<close>

definition net_offer :: "nat \<Rightarrow> central \<Rightarrow> dht_key \<Rightarrow> string \<Rightarrow> central_net \<Rightarrow> central_net" where
  "net_offer c st target sdp s =
     (case offer_begin (ce_local st) target st of (ch, st') \<Rightarrow>
        s\<lparr>cn_client := (cn_client s)(c \<mapsto> st'),
          cn_up := (cn_up s)(c := cn_up s c @ [offer_msg (ce_local st) target sdp]),
          cn_calls := insert (c, ch, ce_local st, target) (cn_calls s),
          cn_offered := insert (ce_local st, target, sdp) (cn_offered s)\<rparr>)"

definition net_return ::
  "nat \<Rightarrow> central \<Rightarrow> nat \<Rightarrow> dht_key \<Rightarrow> dht_key \<Rightarrow> string option \<Rightarrow> central_net \<Rightarrow> central_net" where
  "net_return c st ch caller target answer s =
     s\<lparr>cn_client := (cn_client s)(c \<mapsto> offer_end caller target st),
       cn_calls := cn_calls s - {(c, ch, caller, target)},
       cn_results := (case answer of None \<Rightarrow> cn_results s
                      | Some a \<Rightarrow> insert (caller, target, a) (cn_results s))\<rparr>"

definition net_gone :: "nat \<Rightarrow> central_net \<Rightarrow> central_net" where
  "net_gone c s =
     s\<lparr>cn_server := serve_end c (cn_server s), cn_up := (cn_up s)(c := []),
       cn_down := (cn_down s)(c := [])\<rparr>"

definition net_close :: "nat \<Rightarrow> central \<Rightarrow> central_net \<Rightarrow> central_net" where
  "net_close c st s = s\<lparr>cn_client := (cn_client s)(c \<mapsto> Close_central st)\<rparr>"

inductive central_step :: "central_net \<Rightarrow> central_net \<Rightarrow> bool" where
  listen: "central_step s (net_listen local_id s)"
| serve: "cn_up s c = m # r \<Longrightarrow> sv_conns (cn_server s) c \<noteq> None \<Longrightarrow> central_step s (net_serve c m r s)"
| forward: "i < length (sv_forwards (cn_server s)) \<Longrightarrow> central_step s (net_forward i s)"
| read: "cn_client s c = Some st \<Longrightarrow> cn_down s c = m # r \<Longrightarrow> central_step s (net_read c st m r s)"
| handled: "cn_client s c = Some st \<Longrightarrow> (c, job) \<in> cn_jobs s \<Longrightarrow>
     central_step s (net_handled c st job result s)"
| offer: "cn_client s c = Some st \<Longrightarrow> ce_conn st \<Longrightarrow> central_step s (net_offer c st target sdp s)"
| answered: "cn_client s c = Some st \<Longrightarrow> (c, ch, caller, target) \<in> cn_calls s \<Longrightarrow>
     ce_chans st ch = Some a \<Longrightarrow> central_step s (net_return c st ch caller target (Some a) s)"
| given_up: "cn_client s c = Some st \<Longrightarrow> (c, ch, caller, target) \<in> cn_calls s \<Longrightarrow>
     central_step s (net_return c st ch caller target None s)"
| gone: "central_step s (net_gone c s)"
| closed: "cn_client s c = Some st \<Longrightarrow> central_step s (net_close c st s)"

section \<open>What every message says\<close>

text \<open>An offer in flight was made, and an answer in flight was given, for the ids it carries.\<close>

definition msg_ok :: "central_net \<Rightarrow> signal_msg \<Rightarrow> bool" where
  "msg_ok s m \<longleftrightarrow>
     (sm_type m = ''offer'' \<longrightarrow> (\<exists>caller callee. sm_caller m = id_hex caller \<and> sm_callee m = id_hex callee
        \<and> (caller, callee, sm_sdp m) \<in> cn_offered s))
     \<and> (sm_type m = ''answer'' \<longrightarrow> (\<exists>caller callee sdp. sm_caller m = id_hex caller \<and> sm_callee m = id_hex callee
        \<and> (callee, caller, sdp, sm_sdp m) \<in> cn_answered s))"

text \<open>The name a client registers, and the state of a client by itself.\<close>

definition client_hex :: "central_net \<Rightarrow> nat \<Rightarrow> string option" where
  "client_hex s c = map_option (\<lambda>st. id_hex (ce_local st)) (cn_client s c)"

definition client_ok :: "central \<Rightarrow> bool" where
  "client_ok st \<longleftrightarrow>
     (\<forall>k ch. ce_pending st k = Some ch \<longrightarrow> ch < ce_next st)
     \<and> (\<forall>ch. ce_next st \<le> ch \<longrightarrow> ce_chans st ch = None)"

text \<open>What is true of each message by the place it is in, and of each job and call.\<close>

definition up_ok :: "central_net \<Rightarrow> nat \<Rightarrow> signal_msg \<Rightarrow> bool" where
  "up_ok s c m \<longleftrightarrow> msg_ok s m \<and> (sm_type m = ''register'' \<longrightarrow> client_hex s c = Some (sm_id m))"

definition forward_ok :: "central_net \<Rightarrow> string \<Rightarrow> signal_msg \<Rightarrow> bool" where
  "forward_ok s target m \<longleftrightarrow> msg_ok s m \<and> (sm_type m = ''offer'' \<longrightarrow> target = sm_callee m)"

definition down_ok :: "central_net \<Rightarrow> nat \<Rightarrow> signal_msg \<Rightarrow> bool" where
  "down_ok s c m \<longleftrightarrow> msg_ok s m \<and> (sm_type m = ''offer'' \<longrightarrow> client_hex s c = Some (sm_callee m))"

fun job_ok :: "central_net \<Rightarrow> nat \<times> offer_job \<Rightarrow> bool" where
  "job_ok s (c, p, caller) \<longleftrightarrow> caller = id_hex (sp_caller p)
     \<and> (\<exists>d. client_hex s c = Some (id_hex d) \<and> (sp_caller p, d, sp_sdp p) \<in> cn_offered s)"

fun call_ok :: "central_net \<Rightarrow> nat \<times> nat \<times> dht_key \<times> dht_key \<Rightarrow> bool" where
  "call_ok s (c, ch, caller, target) \<longleftrightarrow>
     (\<exists>st. cn_client s c = Some st \<and> ch < ce_next st
        \<and> (\<forall>k. ce_pending st k = Some ch \<longrightarrow> k = pair_key (id_hex caller) (id_hex target))
        \<and> (\<forall>a. ce_chans st ch = Some a \<longrightarrow> (\<exists>sdp. (target, caller, sdp, a) \<in> cn_answered s)))"

definition offers_ok :: "central_net \<Rightarrow> bool" where
  "offers_ok s \<longleftrightarrow> (\<forall>caller callee sdp. (caller, callee, sdp) \<in> cn_offered s \<longrightarrow>
     (\<exists>c. client_hex s c = Some (id_hex caller)))"

definition answers_ok :: "central_net \<Rightarrow> bool" where
  "answers_ok s \<longleftrightarrow> (\<forall>callee caller sdp a. (callee, caller, sdp, a) \<in> cn_answered s \<longrightarrow>
     (caller, callee, sdp) \<in> cn_offered s)"

definition results_ok :: "central_net \<Rightarrow> bool" where
  "results_ok s \<longleftrightarrow> (\<forall>caller callee a. (caller, callee, a) \<in> cn_results s \<longrightarrow>
     (\<exists>sdp. (callee, caller, sdp, a) \<in> cn_answered s))"

definition central_ok :: "central_net \<Rightarrow> bool" where
  "central_ok s \<longleftrightarrow>
     (\<forall>k c. sv_peers (cn_server s) k = Some c \<longrightarrow> client_hex s c = Some k)
     \<and> (\<forall>c st. cn_client s c = Some st \<longrightarrow> c < sv_next (cn_server s) \<and> client_ok st)
     \<and> (\<forall>c m. m \<in> set (cn_up s c) \<longrightarrow> up_ok s c m)
     \<and> (\<forall>t m. (t, m) \<in> set (sv_forwards (cn_server s)) \<longrightarrow> forward_ok s t m)
     \<and> (\<forall>c m. m \<in> set (cn_down s c) \<longrightarrow> down_ok s c m)
     \<and> (\<forall>j \<in> cn_jobs s. job_ok s j) \<and> (\<forall>x \<in> cn_calls s. call_ok s x)
     \<and> offers_ok s \<and> answers_ok s \<and> results_ok s"

declare job_ok.simps [simp del] call_ok.simps [simp del]

lemma central_okD:
  assumes "central_ok s"
  shows "sv_peers (cn_server s) k = Some c \<Longrightarrow> client_hex s c = Some k"
    and "cn_client s c = Some st \<Longrightarrow> c < sv_next (cn_server s)"
    and "cn_client s c = Some st \<Longrightarrow> client_ok st"
    and "m \<in> set (cn_up s c) \<Longrightarrow> up_ok s c m"
    and "(t, m) \<in> set (sv_forwards (cn_server s)) \<Longrightarrow> forward_ok s t m"
    and "m \<in> set (cn_down s c) \<Longrightarrow> down_ok s c m"
    and "j \<in> cn_jobs s \<Longrightarrow> job_ok s j" and "x \<in> cn_calls s \<Longrightarrow> call_ok s x"
    and "offers_ok s" and "answers_ok s" and "results_ok s"
  using assms unfolding central_ok_def by blast+

end
