(* ===== verification/Central_Invariant.thy ===== *)
theory Central_Invariant
  imports Central_Network
begin

text \<open>Every step of the network of nodes and signal server keeps \<open>central_ok\<close>.\<close>

section \<open>What a step may do\<close>

text \<open>Clients stay, offers and answers are not forgotten.\<close>

definition grows :: "central_net \<Rightarrow> central_net \<Rightarrow> bool" where
  "grows s t \<longleftrightarrow> (\<forall>c k. client_hex s c = Some k \<longrightarrow> client_hex t c = Some k)
     \<and> cn_offered s \<subseteq> cn_offered t \<and> cn_answered s \<subseteq> cn_answered t"

lemma msg_ok_grows: "grows s t \<Longrightarrow> msg_ok s m \<Longrightarrow> msg_ok t m"
  unfolding msg_ok_def grows_def by blast

lemma up_ok_grows: "grows s t \<Longrightarrow> up_ok s c m \<Longrightarrow> up_ok t c m"
  using msg_ok_grows unfolding up_ok_def grows_def by blast

lemma forward_ok_grows: "grows s t \<Longrightarrow> forward_ok s k m \<Longrightarrow> forward_ok t k m"
  using msg_ok_grows unfolding forward_ok_def by blast

lemma down_ok_grows: "grows s t \<Longrightarrow> down_ok s c m \<Longrightarrow> down_ok t c m"
  using msg_ok_grows unfolding down_ok_def grows_def by blast

lemma job_ok_grows: "grows s t \<Longrightarrow> job_ok s j \<Longrightarrow> job_ok t j"
  by (cases j) (auto simp: grows_def job_ok.simps)

lemma call_ok_grows: "cn_client t = cn_client s \<Longrightarrow> grows s t \<Longrightarrow> call_ok s x \<Longrightarrow> call_ok t x"
  by (cases x) (fastforce simp: grows_def call_ok.simps)

text \<open>A step keeps the invariant when what is new in each part satisfies it.\<close>

lemma central_ok_step:
  assumes s: "central_ok s" and g: "grows s t"
    and "\<And>k c. sv_peers (cn_server t) k = Some c \<Longrightarrow>
      sv_peers (cn_server s) k = Some c \<or> client_hex t c = Some k"
    and "\<And>c st. cn_client t c = Some st \<Longrightarrow> c < sv_next (cn_server t) \<and> client_ok st"
    and "\<And>c m. m \<in> set (cn_up t c) \<Longrightarrow> m \<in> set (cn_up s c) \<or> up_ok t c m"
    and "\<And>k m. (k, m) \<in> set (sv_forwards (cn_server t)) \<Longrightarrow>
      (k, m) \<in> set (sv_forwards (cn_server s)) \<or> forward_ok t k m"
    and "\<And>c m. m \<in> set (cn_down t c) \<Longrightarrow> m \<in> set (cn_down s c) \<or> down_ok t c m"
    and "\<And>j. j \<in> cn_jobs t \<Longrightarrow> j \<in> cn_jobs s \<or> job_ok t j"
    and "\<And>x. x \<in> cn_calls t \<Longrightarrow> call_ok t x"
    and "offers_ok t" and "answers_ok t" and "results_ok t"
  shows "central_ok t"
proof -
  note parts = central_okD [OF s]
  have "client_hex t c = Some k" if "sv_peers (cn_server t) k = Some c" for k c
    using assms(3) [OF that] parts(1) g unfolding grows_def by blast
  moreover have "up_ok t c m" if "m \<in> set (cn_up t c)" for c m
    using assms(5) [OF that] parts(4) up_ok_grows [OF g] by blast
  moreover have "forward_ok t k m" if "(k, m) \<in> set (sv_forwards (cn_server t))" for k m
    using assms(6) [OF that] parts(5) forward_ok_grows [OF g] by blast
  moreover have "down_ok t c m" if "m \<in> set (cn_down t c)" for c m
    using assms(7) [OF that] parts(6) down_ok_grows [OF g] by blast
  moreover have "job_ok t j" if "j \<in> cn_jobs t" for j
    using assms(8) [OF that] parts(7) job_ok_grows [OF g] by blast
  ultimately show ?thesis
    using assms(4,9-12) unfolding central_ok_def by blast
qed

text \<open>The parts that most steps leave alone.\<close>

lemma offers_ok_grows: "cn_offered t = cn_offered s \<Longrightarrow> grows s t \<Longrightarrow> offers_ok s \<Longrightarrow> offers_ok t"
  unfolding offers_ok_def grows_def by fastforce

lemma answers_ok_grows: "cn_answered t = cn_answered s \<Longrightarrow> grows s t \<Longrightarrow> answers_ok s \<Longrightarrow> answers_ok t"
  unfolding answers_ok_def grows_def by fastforce

lemma results_ok_grows: "cn_results t = cn_results s \<Longrightarrow> grows s t \<Longrightarrow> results_ok s \<Longrightarrow> results_ok t"
  unfolding results_ok_def grows_def by fastforce

text \<open>A step of the server or of the network, which leaves clients, calls and ghosts alone.\<close>

lemma grows_frame:
  "cn_client t = cn_client s \<Longrightarrow> cn_offered t = cn_offered s \<Longrightarrow> cn_answered t = cn_answered s \<Longrightarrow> grows s t"
  by (simp add: grows_def client_hex_def)

lemma central_ok_frame:
  assumes s: "central_ok s"
    and same: "cn_client t = cn_client s" "cn_calls t = cn_calls s" "cn_offered t = cn_offered s"
      "cn_answered t = cn_answered s" "cn_results t = cn_results s" "cn_jobs t = cn_jobs s"
      "sv_next (cn_server t) = sv_next (cn_server s)"
    and "\<And>k c. sv_peers (cn_server t) k = Some c \<Longrightarrow>
      sv_peers (cn_server s) k = Some c \<or> client_hex t c = Some k"
    and "\<And>c m. m \<in> set (cn_up t c) \<Longrightarrow> m \<in> set (cn_up s c) \<or> up_ok t c m"
    and "\<And>k m. (k, m) \<in> set (sv_forwards (cn_server t)) \<Longrightarrow>
      (k, m) \<in> set (sv_forwards (cn_server s)) \<or> forward_ok t k m"
    and "\<And>c m. m \<in> set (cn_down t c) \<Longrightarrow> m \<in> set (cn_down s c) \<or> down_ok t c m"
  shows "central_ok t"
proof -
  note g = grows_frame [OF same(1,3,4)] and parts = central_okD [OF s]
  show ?thesis
  proof (rule central_ok_step [OF s g assms(9)])
    show "c < sv_next (cn_server t) \<and> client_ok st" if "cn_client t c = Some st" for c st
      using that parts(2,3) by (simp add: same)
    show "call_ok t x" if "x \<in> cn_calls t" for x
      using that parts(8) call_ok_grows [OF same(1) g] by (simp add: same)
    show "offers_ok t" by (rule offers_ok_grows [OF same(3) g parts(9)])
    show "answers_ok t" by (rule answers_ok_grows [OF same(4) g parts(10)])
    show "results_ok t" by (rule results_ok_grows [OF same(5) g parts(11)])
  qed (use assms(10-12) same in auto)
qed

lemma net_serve_ok:
  assumes s: "central_ok s" and up: "cn_up s c = m # r"
  shows "central_ok (net_serve c m r s)"
proof -
  let ?t = "net_serve c m r s"
  have g: "grows s ?t" by (rule grows_frame) (simp_all add: net_serve_def)
  have m: "up_ok ?t c m" using central_okD(4) [OF s, of m c] up up_ok_grows [OF g] by simp
  show ?thesis
  proof (rule central_ok_frame [OF s])
    fix k d assume "sv_peers (cn_server ?t) k = Some d"
    then show "sv_peers (cn_server s) k = Some d \<or> client_hex ?t d = Some k"
      using m by (auto simp: net_serve_def serve_msg_def up_ok_def split: if_splits)
  next
    fix k m' assume "(k, m') \<in> set (sv_forwards (cn_server ?t))"
    then show "(k, m') \<in> set (sv_forwards (cn_server s)) \<or> forward_ok ?t k m'"
      using m by (auto simp: net_serve_def serve_msg_def up_ok_def forward_ok_def split: if_splits)
  qed (auto simp: net_serve_def up split: if_splits)
qed

lemma net_forward_ok:
  assumes s: "central_ok s" and i: "i < length (sv_forwards (cn_server s))"
  shows "central_ok (net_forward i s)"
proof -
  let ?t = "net_forward i s"
  obtain target m where tm: "sv_forwards (cn_server s) ! i = (target, m)" by (rule prod.exhaust)
  have g: "grows s ?t"
    by (rule grows_frame) (simp_all add: net_forward_def tm Let_def split: option.splits)
  have "(target, m) \<in> set (sv_forwards (cn_server s))" using i tm nth_mem by metis
  then have m: "forward_ok ?t target m" using central_okD(5) [OF s] forward_ok_grows [OF g] by blast
  have hex: "client_hex ?t c = Some target" if "sv_peers (cn_server s) target = Some c" for c
    using central_okD(1) [OF s that] g by (simp add: grows_def)
  show ?thesis
  proof (rule central_ok_frame [OF s])
    fix c m' assume "m' \<in> set (cn_down ?t c)"
    then have "m' \<in> set (cn_down s c) \<or> m' = m \<and> sv_peers (cn_server s) target = Some c"
      by (auto simp: net_forward_def tm Let_def doForward_def split: option.splits if_splits)
    then show "m' \<in> set (cn_down s c) \<or> down_ok ?t c m'"
      using m hex by (auto simp: forward_ok_def down_ok_def)
  qed (auto simp: net_forward_def tm Let_def split: option.splits dest: set_remove_nth_subset [THEN subsetD])
qed

lemma net_gone_ok: "central_ok s \<Longrightarrow> central_ok (net_gone c s)"
  by (erule central_ok_frame)
    (auto simp: net_gone_def serve_end_def split: option.splits if_splits)

section \<open>Steps of a client\<close>

lemma client_hex_upd:
  "cn_client s c = Some st \<Longrightarrow> ce_local st' = ce_local st \<Longrightarrow> cn_client t = (cn_client s)(c \<mapsto> st') \<Longrightarrow>
     client_hex t = client_hex s"
  by (auto simp: client_hex_def fun_eq_iff)

lemma client_hex_Some: "cn_client s c = Some st \<Longrightarrow> client_hex s c = Some (id_hex (ce_local st))"
  by (simp add: client_hex_def)

text \<open>A step that changes one client and no message, job or ghost.\<close>

lemma central_ok_client:
  assumes s: "central_ok s" and c: "cn_client s c = Some st" and "ce_local st' = ce_local st"
    and "client_ok st'" and t: "t = s\<lparr>cn_client := (cn_client s)(c \<mapsto> st'), cn_calls := calls, cn_results := res\<rparr>"
    and "\<And>x. x \<in> calls \<Longrightarrow> call_ok t x" and "results_ok t"
  shows "central_ok t"
proof -
  note hex = client_hex_upd [OF c assms(3), of t] and parts = central_okD [OF s]
  have g: "grows s t" using hex by (simp add: grows_def t)
  show ?thesis
  proof (rule central_ok_step [OF s g])
    show "d < sv_next (cn_server t) \<and> client_ok st''" if "cn_client t d = Some st''" for d st''
      using that parts(2,3) c assms(4) by (auto simp: t split: if_splits)
    show "offers_ok t" using offers_ok_grows [OF _ g parts(9)] by (simp add: t)
    show "answers_ok t" using answers_ok_grows [OF _ g parts(10)] by (simp add: t)
  qed (use assms(6,7) in \<open>auto simp: t\<close>)
qed

lemma net_close_ok:
  assumes s: "central_ok s" and c: "cn_client s c = Some st"
  shows "central_ok (net_close c st s)"
proof -
  have "call_ok (net_close c st s) x" if "x \<in> cn_calls s" for x
    using central_okD(8) [OF s that] c
    by (cases x) (auto simp: call_ok.simps net_close_def Close_central_def split: if_splits)
  moreover have "results_ok (net_close c st s)"
    using central_okD(11) [OF s] by (simp add: results_ok_def net_close_def)
  ultimately show ?thesis
    using central_okD(3) [OF s c]
    by (intro central_ok_client [OF s c, where st' = "Close_central st" and calls = "cn_calls s"
          and res = "cn_results s"])
      (auto simp: net_close_def Close_central_def client_ok_def)
qed

lemma net_return_ok:
  assumes s: "central_ok s" and c: "cn_client s c = Some st" and x: "(c, ch, caller, target) \<in> cn_calls s"
    and a: "\<And>a. answer = Some a \<Longrightarrow> ce_chans st ch = Some a"
  shows "central_ok (net_return c st ch caller target answer s)"
proof -
  let ?t = "net_return c st ch caller target answer s"
  have "call_ok ?t y" if "y \<in> cn_calls s" for y
    using central_okD(8) [OF s that] c
    by (cases y) (auto simp: call_ok.simps net_return_def offer_end_def split: if_splits)
  moreover have "\<exists>sdp. (target, caller, sdp, a) \<in> cn_answered s" if "answer = Some a" for a
    using central_okD(8) [OF s x] c assms(4) [OF that] by (auto simp: call_ok.simps)
  then have "results_ok ?t"
    using central_okD(11) [OF s] by (auto simp: results_ok_def net_return_def split: option.splits)
  ultimately show ?thesis
    using central_okD(3) [OF s c]
    by (intro central_ok_client [OF s c, where st' = "offer_end caller target st"
          and calls = "cn_calls s - {(c, ch, caller, target)}" and res = "cn_results ?t"])
      (auto simp: net_return_def offer_end_def client_ok_def)
qed

text \<open>Reading: the message leaves the queue, then starts a job or goes to its channel.\<close>

lemma take_down_ok:
  assumes "central_ok s" and "cn_down s c = m # r"
  shows "central_ok (s\<lparr>cn_down := (cn_down s)(c := r)\<rparr>)"
  by (rule central_ok_frame [OF assms(1)]) (auto simp: assms(2) split: if_splits)

lemma start_job_ok:
  assumes s: "central_ok s" and m: "down_ok s c m" and "sm_type m = ''offer''" and c: "cn_client s c = Some st"
  shows "central_ok (s\<lparr>cn_client := (cn_client s)(c \<mapsto> st),
    cn_jobs := insert (c, \<lparr>sp_caller = nodeIDFromHex (sm_caller m), sp_sdp = sm_sdp m\<rparr>, sm_caller m) (cn_jobs s)\<rparr>)"
    (is "central_ok ?t")
proof -
  note parts = central_okD [OF s]
  have same: "cn_client ?t = cn_client s" using c by auto
  then have g: "grows s ?t" by (intro grows_frame) simp_all
  have "job_ok ?t (c, \<lparr>sp_caller = nodeIDFromHex (sm_caller m), sp_sdp = sm_sdp m\<rparr>, sm_caller m)"
    using m assms(3) same unfolding down_ok_def msg_ok_def client_hex_def job_ok.simps by auto
  then show ?thesis
  proof (intro central_ok_step [OF s g])
    show "d < sv_next (cn_server ?t) \<and> client_ok st''" if "cn_client ?t d = Some st''" for d st''
      using that parts(2,3) unfolding same by simp
    show "call_ok ?t x" if "x \<in> cn_calls ?t" for x
      using call_ok_grows [OF same g parts(8)] that by simp
    show "offers_ok ?t" by (rule offers_ok_grows [OF _ g parts(9)]) simp
    show "answers_ok ?t" by (rule answers_ok_grows [OF _ g parts(10)]) simp
    show "results_ok ?t" by (rule results_ok_grows [OF _ g parts(11)]) simp
  qed auto
qed

lemma deliver_ok:
  assumes s: "central_ok s" and m: "msg_ok s m" and "sm_type m = ''answer''" and c: "cn_client s c = Some st"
  shows "central_ok (s\<lparr>cn_client := (cn_client s)(c \<mapsto> deliver_answer m st)\<rparr>)" (is "central_ok ?t")
proof -
  obtain caller callee sdp where ids: "sm_caller m = id_hex caller" "sm_callee m = id_hex callee"
    "(callee, caller, sdp, sm_sdp m) \<in> cn_answered s"
    using m assms(3) unfolding msg_ok_def by auto
  have ok: "client_ok st" by (rule central_okD(3) [OF s c])
  have "call_ok ?t x" if x: "x \<in> cn_calls s" for x
  proof (cases x)
    case (fields d ch from_id to_id)
    show ?thesis
    proof (cases "d = c")
      case False
      then show ?thesis using central_okD(8) [OF s x] by (simp add: fields call_ok.simps)
    next
      case True
      with central_okD(8) [OF s x] c have old: "ch < ce_next st"
        "\<And>k. ce_pending st k = Some ch \<Longrightarrow> k = pair_key (id_hex from_id) (id_hex to_id)"
        "\<And>a. ce_chans st ch = Some a \<Longrightarrow> \<exists>sdp. (to_id, from_id, sdp, a) \<in> cn_answered s"
        by (auto simp: fields call_ok.simps)
      have "\<exists>sdp. (to_id, from_id, sdp, a) \<in> cn_answered s"
        if a: "ce_chans (deliver_answer m st) ch = Some a" for a
      proof (cases "ce_chans st ch")
        case None
        with a have "ce_pending st (pair_key (id_hex caller) (id_hex callee)) = Some ch" "a = sm_sdp m"
          by (auto simp: deliver_answer_def ids split: option.splits if_splits)
        with old(2) ids(3) show ?thesis by fastforce
      next
        case (Some b)
        with a have "a = b" by (auto simp: deliver_answer_def split: option.splits if_splits)
        with Some old(3) show ?thesis by simp
      qed
      with True old(1,2) show ?thesis by (simp add: fields call_ok.simps)
    qed
  qed
  moreover have "results_ok ?t" using central_okD(11) [OF s] by (simp add: results_ok_def)
  moreover have "client_ok (deliver_answer m st)"
    using ok by (auto simp: client_ok_def deliver_answer_def split: option.splits dest: leD)
  ultimately show ?thesis
    by (intro central_ok_client [OF s c, where st' = "deliver_answer m st" and calls = "cn_calls s"
          and res = "cn_results s"]) simp_all
qed

lemma net_read_ok:
  assumes s: "central_ok s" and c: "cn_client s c = Some st" and d: "cn_down s c = m # r"
  shows "central_ok (net_read c st m r s)"
proof -
  let ?s = "s\<lparr>cn_down := (cn_down s)(c := r)\<rparr>"
  have ok: "central_ok ?s" by (rule take_down_ok [OF s d])
  have "down_ok s c m" using central_okD(6) [OF s] d by simp
  then have m: "down_ok ?s c m" by (simp add: down_ok_def msg_ok_def client_hex_def)
  have c': "cn_client ?s c = Some st" using c by simp
  have same: "?s\<lparr>cn_client := (cn_client ?s)(c \<mapsto> st)\<rparr> = ?s" using c by (simp add: fun_upd_idem)
  consider "sm_type m = ''offer''" | "sm_type m = ''answer''"
    | "sm_type m \<noteq> ''offer''" "sm_type m \<noteq> ''answer''" by blast
  then show ?thesis
  proof cases
    case 1
    with start_job_ok [OF ok m _ c'] show ?thesis by (simp add: net_read_def readLoop_msg_def)
  next
    case 2
    with deliver_ok [OF ok _ _ c'] m show ?thesis
      by (simp add: net_read_def readLoop_msg_def down_ok_def)
  next
    case 3
    with ok same show ?thesis by (simp add: net_read_def readLoop_msg_def)
  qed
qed

text \<open>A handler returns: its answer is recorded and sent.\<close>

lemma net_handled_ok:
  assumes s: "central_ok s" and c: "cn_client s c = Some st" and job: "(c, job) \<in> cn_jobs s"
  shows "central_ok (net_handled c st job result s)"
proof (cases result)
  case (Inl err)
  with s show ?thesis by (simp add: net_handled_def offer_handled_def)
next
  case (Inr answer)
  obtain p caller where pc: "job = (p, caller)" by (rule prod.exhaust)
  have caller: "caller = id_hex (sp_caller p)" and offer: "(sp_caller p, ce_local st, sp_sdp p) \<in> cn_offered s"
    using central_okD(7) [OF s job] c by (auto simp: pc job_ok.simps client_hex_def)
  define m where "m = answer_msg caller (ce_local st) answer"
  define a where "a = (ce_local st, sp_caller p, sp_sdp p, answer)"
  let ?t = "s\<lparr>cn_answered := insert a (cn_answered s),
      cn_up := (cn_up s)(c := cn_up s c @ (if ce_conn st then [m] else []))\<rparr>"
  have t: "net_handled c st job result s = ?t"
    by (auto simp: net_handled_def offer_handled_def Inr pc m_def a_def)
  have g: "grows s ?t" by (auto simp: grows_def client_hex_def)
  have m: "up_ok ?t c m" by (auto simp: up_ok_def msg_ok_def m_def answer_msg_def a_def caller)
  note parts = central_okD [OF s]
  show ?thesis unfolding t
  proof (rule central_ok_step [OF s g])
    show "d < sv_next (cn_server ?t) \<and> client_ok st'" if "cn_client ?t d = Some st'" for d st'
      using that parts(2,3) by simp
    show "m' \<in> set (cn_up s d) \<or> up_ok ?t d m'" if "m' \<in> set (cn_up ?t d)" for d m'
      using that m by (auto split: if_splits)
    show "call_ok ?t x" if "x \<in> cn_calls ?t" for x
      using call_ok_grows [OF _ g parts(8)] that by simp
    show "offers_ok ?t" by (rule offers_ok_grows [OF _ g parts(9)]) simp
    show "answers_ok ?t" using parts(10) offer by (auto simp: answers_ok_def a_def)
    show "results_ok ?t" by (rule results_ok_grows [OF _ g parts(11)]) simp
  qed auto
qed

text \<open>A call is made: its channel is new.\<close>

lemma net_offer_ok:
  assumes s: "central_ok s" and c: "cn_client s c = Some st"
  shows "central_ok (net_offer c st target sdp s)"
proof -
  define ch where "ch = ce_next st"
  define st' where "st' = snd (offer_begin (ce_local st) target st)"
  define m where "m = offer_msg (ce_local st) target sdp"
  define t where "t = net_offer c st target sdp s"
  have t: "t = s\<lparr>cn_client := (cn_client s)(c \<mapsto> st'), cn_up := (cn_up s)(c := cn_up s c @ [m]),
      cn_calls := insert (c, ch, ce_local st, target) (cn_calls s),
      cn_offered := insert (ce_local st, target, sdp) (cn_offered s)\<rparr>"
    by (simp add: t_def net_offer_def offer_begin_def ch_def st'_def m_def)
  have st': "ce_local st' = ce_local st" "ce_chans st' = ce_chans st" "ce_next st' = Suc ch"
    "ce_pending st' = (ce_pending st)(pair_key (id_hex (ce_local st)) (id_hex target) \<mapsto> ch)"
    by (simp_all add: st'_def offer_begin_def ch_def)
  note parts = central_okD [OF s]
  have ok: "client_ok st" by (rule parts(3) [OF c])
  have hex: "client_hex t = client_hex s" by (rule client_hex_upd [OF c st'(1)]) (simp add: t)
  have g: "grows s t" unfolding grows_def hex by (auto simp: t)
  have m: "up_ok t c m" by (auto simp: up_ok_def msg_ok_def m_def offer_msg_def t)
  have fresh: "ce_pending st k \<noteq> Some ch" "ce_chans st ch = None" for k
    using ok by (auto simp: client_ok_def ch_def)
  have "client_ok st'" using ok by (auto simp: client_ok_def st' ch_def less_Suc_eq)
  moreover have "call_ok t (c, ch, ce_local st, target)"
    using fresh by (simp add: call_ok.simps t st')
  moreover have "call_ok t x" if x: "x \<in> cn_calls s" for x
  proof (cases x)
    case (fields d ch' from_id to_id)
    with parts(8) [OF x] c show ?thesis by (auto simp: call_ok.simps t st' ch_def)
  qed
  moreover have "offers_ok t"
    using parts(9) client_hex_Some [OF c] unfolding offers_ok_def hex by (auto simp: t)
  moreover have "answers_ok t" using parts(10) by (auto simp: answers_ok_def t)
  moreover have "results_ok t" by (rule results_ok_grows [OF _ g parts(11)]) (simp add: t)
  ultimately have "central_ok t"
    using parts(2,3) parts(2) [OF c] m
    by (intro central_ok_step [OF s g]) (auto simp: t split: if_splits)
  then show ?thesis by (simp add: t_def)
qed

text \<open>A node joins: its connection is new.\<close>

lemma net_listen_ok:
  assumes s: "central_ok s"
  shows "central_ok (net_listen local_id s)"
proof -
  define c where "c = sv_next (cn_server s)"
  define st where "st = (NewCentralSignaler local_id)\<lparr>ce_conn := True\<rparr>"
  define m where "m = register_msg local_id"
  define t where "t = net_listen local_id s"
  have t: "t = s\<lparr>cn_server := serve_open (cn_server s), cn_client := (cn_client s)(c \<mapsto> st),
      cn_up := (cn_up s)(c := [m]), cn_down := (cn_down s)(c := [])\<rparr>"
    by (simp add: t_def net_listen_def ListenOffers_central_def c_def st_def m_def NewCentralSignaler_def
        Let_def)
  note parts = central_okD [OF s]
  have new: "cn_client s c = None" using parts(2) [of c] by (cases "cn_client s c") (auto simp: c_def)
  have g: "grows s t" using new by (auto simp: grows_def client_hex_def t)
  have "client_ok st" by (simp add: client_ok_def st_def NewCentralSignaler_def)
  moreover have "up_ok t c m"
    by (simp add: up_ok_def msg_ok_def m_def register_msg_def client_hex_def t st_def NewCentralSignaler_def)
  moreover have "call_ok t x" if x: "x \<in> cn_calls s" for x
    using parts(8) [OF x] new by (cases x) (auto simp: call_ok.simps t)
  moreover have "offers_ok t" by (rule offers_ok_grows [OF _ g parts(9)]) (simp add: t)
  moreover have "answers_ok t" by (rule answers_ok_grows [OF _ g parts(10)]) (simp add: t)
  moreover have "results_ok t" by (rule results_ok_grows [OF _ g parts(11)]) (simp add: t)
  moreover have "d < Suc c \<and> client_ok st'" if "cn_client s d = Some st'" for d st'
    using parts(2,3) [OF that] by (simp add: c_def)
  ultimately have "central_ok t"
    by (intro central_ok_step [OF s g]) (auto simp: t c_def split: if_splits)
  then show ?thesis by (simp add: t_def)
qed

section \<open>All steps\<close>

lemma central_ok_start: "central_ok central_start"
  by (simp add: central_ok_def central_start_def newServer_def offers_ok_def answers_ok_def results_ok_def)

lemma central_step_ok: "central_step s t \<Longrightarrow> central_ok s \<Longrightarrow> central_ok t"
  by (induction rule: central_step.induct)
    (auto intro: net_listen_ok net_serve_ok net_forward_ok net_read_ok net_handled_ok net_offer_ok
      net_return_ok net_gone_ok net_close_ok)

interpretation central: state_machine central_start central_step central_ok
  by unfold_locales (auto intro: central_ok_start central_step_ok)

end
