(* ===== verification/Central_Guarantees.thy ===== *)
theory Central_Guarantees
  imports Central_Invariant Samples
begin

text \<open>
  What the central signaler and its server guarantee: that an answer comes from the node that
  was called, what one call returns, and how exact the server's table of nodes is.
\<close>

section \<open>Runs\<close>

text \<open>Steps by name, to build runs: an action that is not enabled does nothing.\<close>

datatype central_action =
    Listen dht_key
  | Serve nat
  | Forward
  | Read nat
  | Handle nat offer_job string
  | Offer nat dht_key string
  | Answered nat nat dht_key dht_key

fun central_exec :: "central_net \<Rightarrow> central_action \<Rightarrow> central_net" where
  "central_exec s (Listen k) = net_listen k s"
| "central_exec s (Serve c) =
     (case cn_up s c of
        m # r \<Rightarrow> if sv_conns (cn_server s) c \<noteq> None then net_serve c m r s else s
      | [] \<Rightarrow> s)"
| "central_exec s Forward = (if sv_forwards (cn_server s) \<noteq> [] then net_forward 0 s else s)"
| "central_exec s (Read c) =
     (case (cn_client s c, cn_down s c) of (Some st, m # r) \<Rightarrow> net_read c st m r s | _ \<Rightarrow> s)"
| "central_exec s (Handle c job answer) =
     (case cn_client s c of
        Some st \<Rightarrow> if (c, job) \<in> cn_jobs s then net_handled c st job (Inr answer) s else s
      | None \<Rightarrow> s)"
| "central_exec s (Offer c target sdp) =
     (case cn_client s c of Some st \<Rightarrow> if ce_conn st then net_offer c st target sdp s else s | None \<Rightarrow> s)"
| "central_exec s (Answered c ch caller target) =
     (case cn_client s c of
        Some st \<Rightarrow>
          (case ce_chans st ch of
             Some a \<Rightarrow> if (c, ch, caller, target) \<in> cn_calls s
                        then net_return c st ch caller target (Some a) s else s
           | None \<Rightarrow> s)
      | None \<Rightarrow> s)"

lemma central_exec_step: "central_step\<^sup>*\<^sup>* s (central_exec s a)"
  by (cases a) (auto intro: central_step.intros split: option.splits list.splits)

lemma central_run_steps: "central_step\<^sup>*\<^sup>* s (foldl central_exec s as)"
proof (induction as arbitrary: s)
  case (Cons a as)
  then show ?case using central_exec_step [of s a] by (auto intro: rtranclp_trans)
qed simp

text \<open>A call from \<open>a\<close> to \<open>b\<close> that is answered.\<close>

definition call_script :: "dht_key \<Rightarrow> dht_key \<Rightarrow> string \<Rightarrow> string \<Rightarrow> central_action list" where
  "call_script a b sdp answer =
     [Listen a, Listen b, Serve 0, Serve 1, Offer 0 b sdp, Serve 0, Forward, Read 1,
      Handle 1 (\<lparr>sp_caller = a, sp_sdp = sdp\<rparr>, id_hex a) answer, Serve 1, Forward, Read 0,
      Answered 0 0 a b]"

lemmas net_defs = net_listen_def net_serve_def net_forward_def net_read_def net_handled_def
  net_offer_def net_return_def ListenOffers_central_def NewCentralSignaler_def register_msg_def
  serve_open_def serve_msg_def doForward_def readLoop_msg_def deliver_answer_def offer_handled_def
  answer_msg_def offer_msg_def offer_begin_def offer_end_def empty_signal_msg_def

lemma call_script_answered:
  assumes "a \<noteq> b"
  shows "cn_results (foldl central_exec central_start (call_script a b sdp answer)) = {(a, b, answer)}"
  using assms
  by (simp add: call_script_def central_start_def newServer_def net_defs Let_def)

section \<open>Whose answer it is\<close>

text \<open>C32: with nodes that follow the protocol, an answer that \<open>SendOffer\<close> returns for a caller and a
  callee is one that the handler of the callee gave to an offer which names that caller and
  which the caller made to this callee, whatever calls run at once, however connections break
  and whatever the server forwards late.\<close>

theorem central_agreement:
  assumes "central_step\<^sup>*\<^sup>* central_start s" and "(caller, callee, answer) \<in> cn_results s"
  shows "\<exists>sdp. (callee, caller, sdp, answer) \<in> cn_answered s \<and> (caller, callee, sdp) \<in> cn_offered s
     \<and> (\<exists>c st. cn_client s c = Some st \<and> ce_local st = caller)"
proof -
  note ok = central_okD [OF central.reachable_ok [OF assms(1)]]
  from ok(11) assms(2) obtain sdp where a: "(callee, caller, sdp, answer) \<in> cn_answered s"
    unfolding results_ok_def by blast
  with ok(10) have o: "(caller, callee, sdp) \<in> cn_offered s" unfolding answers_ok_def by blast
  with ok(9) obtain c where "client_hex s c = Some (id_hex caller)" unfolding offers_ok_def by blast
  then have "\<exists>st. cn_client s c = Some st \<and> ce_local st = caller" by (auto simp: client_hex_def)
  with a o show ?thesis by blast
qed

lemma central_agreement_witness:
  "\<exists>sdp. (nn_id (peer 2 0), nn_id (peer 1 0), sdp, ''answer'')
     \<in> cn_answered (foldl central_exec central_start
          (call_script (nn_id (peer 1 0)) (nn_id (peer 2 0)) ''offer'' ''answer''))"
proof -
  let ?as = "call_script (nn_id (peer 1 0)) (nn_id (peer 2 0)) ''offer'' ''answer''"
  have "(nn_id (peer 1 0), nn_id (peer 2 0), ''answer'') \<in> cn_results (foldl central_exec central_start ?as)"
    using call_script_answered [of "nn_id (peer 1 0)" "nn_id (peer 2 0)"] by simp
  from central_agreement [OF central_run_steps this] show ?thesis by blast
qed

section \<open>One call\<close>

text \<open>C33: \<open>SendOffer\<close> on a connected signaler returns the first answer that arrives for its pair of
  ids, ignoring the answers of all other calls, and an error only if there was none; its entry
  in the table of pending calls is removed and the entries of the other pairs stay.\<close>

theorem central_call_result:
  assumes "ce_conn st" and "client_ok st"
  shows "\<exists>st'. SendOffer_central target payload None arrivals ctx st =
       ((case answers_for (sp_caller payload) target arrivals of
           a # r \<Rightarrow> Inr a
         | [] \<Rightarrow> Inl (case ctx of Some err \<Rightarrow> err | None \<Rightarrow> answer_timeout target)), st')
     \<and> ce_pending st' = (ce_pending st)(pair_key (id_hex (sp_caller payload)) (id_hex target) := None)"
proof -
  let ?caller = "sp_caller payload" and ?st = "snd (offer_begin (sp_caller payload) target st)"
  let ?after = "fold (\<lambda>m st. snd (readLoop_msg m st)) arrivals ?st"
  have fresh: "ce_pending st k \<noteq> Some (ce_next st)" "ce_chans st (ce_next st) = None" for k
    using assms(2) by (auto simp: client_ok_def)
  have chan: "ce_chans ?after (ce_next st) =
      (case answers_for ?caller target arrivals of [] \<Rightarrow> None | a # r \<Rightarrow> Some a)"
    using fresh
    by (subst fold_readLoop_chan [where caller = ?caller and target = target])
      (auto simp: offer_begin_def split: if_splits)
  have "ce_conn ?st" using assms(1) by (simp add: offer_begin_def)
  then have "SendOffer_central target payload None arrivals ctx st =
      (case ce_chans ?after (ce_next st) of
         Some a \<Rightarrow> Inr a
       | None \<Rightarrow> Inl (case ctx of Some err \<Rightarrow> err | None \<Rightarrow> answer_timeout target),
       offer_end ?caller target ?after)"
    by (simp add: SendOffer_central_def offer_begin_def Let_def)
  moreover have "ce_pending (offer_end ?caller target ?after)
      = (ce_pending st)(pair_key (id_hex ?caller) (id_hex target) := None)"
    by (auto simp: offer_end_def offer_begin_def)
  ultimately show ?thesis
    unfolding chan by (auto split: list.splits)
qed

lemma central_call_result_witness:
  "fst (SendOffer_central (nn_id (peer 2 0)) \<lparr>sp_caller = nn_id (peer 1 0), sp_sdp = ''o''\<rparr> None
     [answer_msg (id_hex (nn_id (peer 1 0))) (nn_id (peer 3 0)) ''other'',
      answer_msg (id_hex (nn_id (peer 1 0))) (nn_id (peer 2 0)) ''mine''] None
     ((NewCentralSignaler (nn_id (peer 1 0)))\<lparr>ce_conn := True\<rparr>)) = Inr ''mine''"
proof -
  let ?st = "(NewCentralSignaler (nn_id (peer 1 0)))\<lparr>ce_conn := True\<rparr>"
  have "ce_conn ?st" "client_ok ?st" by (simp_all add: NewCentralSignaler_def client_ok_def)
  from central_call_result [OF this, of "nn_id (peer 2 0)" "\<lparr>sp_caller = nn_id (peer 1 0), sp_sdp = ''o''\<rparr>"
      "[answer_msg (id_hex (nn_id (peer 1 0))) (nn_id (peer 3 0)) ''other'',
        answer_msg (id_hex (nn_id (peer 1 0))) (nn_id (peer 2 0)) ''mine'']" None]
  show ?thesis by (auto simp: answers_for_def answer_msg_def)
qed

section \<open>The server's table\<close>

text \<open>C34: whatever its clients send, the server writes a message for an id to the open connection
  that was the last to register under this id, and to nobody if a connection of that id ended
  since, if that connection is closed, or if there was no registration; and what it forwards are
  the offers and answers that it read, each for the id the message names. When, besides, every
  connection registers at most once and under an id that no open connection has, then the
  connection is the open one that is registered under the id, and there is none only if no open
  connection is.\<close>

theorem server_forwards_exactly:
  shows "(doForward (server_after es) k = Some c \<longleftrightarrow>
            sv_conns (server_after es) c \<noteq> None
            \<and> (\<exists>before e after. es = before @ e # after \<and> registers (server_after before) k e = Some c
                 \<and> quiet (server_after (before @ [e])) k after))
     \<and> ((t, m) \<in> set (sv_forwards (server_after es)) \<longrightarrow>
            (\<exists>conn. Got conn m \<in> set es)
            \<and> (sm_type m = ''offer'' \<and> t = sm_callee m \<or> sm_type m = ''answer'' \<and> t = sm_caller m))
     \<and> (polite newServer es \<longrightarrow>
            (doForward (server_after es) k = Some c \<longleftrightarrow> sv_conns (server_after es) c = Some k \<and> k \<noteq> [])
            \<and> (doForward (server_after es) k = None \<longleftrightarrow> k = [] \<or> k \<notin> ran (sv_conns (server_after es))))"
proof (intro conjI impI)
  show "doForward (server_after es) k = Some c \<longleftrightarrow>
            sv_conns (server_after es) c \<noteq> None
            \<and> (\<exists>before e after. es = before @ e # after \<and> registers (server_after before) k e = Some c
                 \<and> quiet (server_after (before @ [e])) k after)"
    using peers_last [of newServer es k c]
    by (auto simp: doForward_def newServer_def [THEN arg_cong [where f = sv_peers]] split: option.splits)
next
  assume "(t, m) \<in> set (sv_forwards (server_after es))"
  from server_forwards [OF this] show "\<exists>conn. Got conn m \<in> set es"
    and "sm_type m = ''offer'' \<and> t = sm_callee m \<or> sm_type m = ''answer'' \<and> t = sm_caller m"
    by (auto simp: newServer_def)
next
  assume "polite newServer es"
  then have ok: "registry_exact (server_after es)" by (intro registry.reachable_ok polite_steps)
  from exact_forward [OF this] show "doForward (server_after es) k = Some c \<longleftrightarrow> sv_conns (server_after es) c = Some k \<and> k \<noteq> []"
    and "doForward (server_after es) k = None \<longleftrightarrow> k = [] \<or> k \<notin> ran (sv_conns (server_after es))" by blast+
qed

lemma server_forwards_exactly_witness:
  "doForward (server_after [Accepted, Got 0 (register_msg zero_key)]) (id_hex zero_key) = Some 0"
proof -
  let ?es = "[Accepted, Got 0 (register_msg zero_key)]"
  have "polite newServer ?es"
    by (simp add: server_do_def serve_open_def newServer_def register_msg_def empty_signal_msg_def ran_def
        id_hex_nonempty [symmetric])
  moreover have "sv_conns (server_after ?es) 0 = Some (id_hex zero_key)"
    by (simp add: server_do_def serve_open_def newServer_def register_msg_def empty_signal_msg_def serve_msg_def)
  moreover have "id_hex zero_key \<noteq> []" by (simp add: id_hex_nonempty [symmetric])
  ultimately show ?thesis
    using server_forwards_exactly [of ?es "id_hex zero_key" 0] by blast
qed

text \<open>A client that registers under a second id, or under that of another, gets the messages.\<close>

theorem last_registration_wins:
  assumes "sv_conns s conn \<noteq> None" and "sm_type m = ''register''"
  shows "doForward (server_do s (Got conn m)) (sm_id m) = Some conn"
  using assms by (auto simp: server_do_def serve_msg_def doForward_def)

text \<open>
  The politeness is needed for the last part: a node that connects again before the server has noticed the end of
  its old connection is removed from the table when it does, and cannot be reached.
\<close>

theorem reconnected_node_lost:
  assumes "sv_conns s old = Some k" and "k \<noteq> []" and "old < sv_next s" and "sm_type m = ''register''"
    and "sm_id m = k"
  shows "sv_conns (serve_end old (serve_msg (sv_next s) m (serve_open s))) (sv_next s) = Some k
     \<and> doForward (serve_end old (serve_msg (sv_next s) m (serve_open s))) k = None"
  using assms by (simp add: serve_msg_def serve_open_def serve_end_def doForward_def)

section \<open>Node ids\<close>

text \<open>\<open>nodeIDFromHex\<close> inverts the hexadecimal form of an id, and on any text that is valid
  hexadecimal it agrees with \<open>hex.DecodeString\<close>, cut or filled with zeros to 20 bytes.\<close>

theorem nodeIDFromHex_decodes:
  "nodeIDFromHex (id_hex k) = k \<and> (hex_decode h = (bs, None) \<longrightarrow> nodeIDFromHex h = key_of_slice bs)"
proof -
  have "copy_into 20 (take 20 bs) = copy_into 20 bs" by (auto simp: copy_into_def min_def)
  then have "hex_decode h = (bs, None) \<longrightarrow> nodeIDFromHex h = key_of_slice bs"
    using scan_bytes_decode [of h bs 20] by (auto simp: nodeIDFromHex_def key_of_slice_eq_iff)
  then show ?thesis by simp
qed

lemma nodeIDFromHex_decodes_witness: "nodeIDFromHex ''ff0A'' = key_of_slice [255, 10]"
proof -
  have "hex_decode ''ff0A'' = ([255, 10], None)" by (simp add: hex_val_def Let_def)
  with nodeIDFromHex_decodes [of zero_key "''ff0A''" "[255, 10]"] show ?thesis by (elim conjE impE)
qed

end
