(* ===== verification/Lookup.thy ===== *)
theory Lookup
  imports Node
begin

text \<open>
  \<open>dht/logic.go\<close>: the iterative lookup and the operations built on it. A lookup queries the
  \<open>Alpha\<close> nearest contacts it has not asked, each in its own goroutine, until it has asked all
  it keeps. The interleaving of the goroutines with each other and with the loop that
  launches them is decided by the environment.
\<close>

definition Alpha :: nat where "Alpha = 3"
definition StoreK :: nat where "StoreK = 3"

text \<open>
  The environment: \<open>ctx.Err()\<close> as a reading of the world, the choices of the scheduler, and
  the order in which the unstable \<open>sort.Slice\<close> leaves equal elements.
\<close>

record 'w env =
  ctx_err :: "'w \<Rightarrow> go_error option"
  sched :: "'w \<Rightarrow> nat \<times> 'w"
  sort_ties :: "'w \<Rightarrow> nat list"

text \<open>A goroutine that panics takes the process with it.\<close>

datatype 'a outcome = Crash | Done 'a

fun and_then :: "'a outcome \<Rightarrow> ('a \<Rightarrow> 'b outcome) \<Rightarrow> 'b outcome" where
  "and_then Crash f = Crash"
| "and_then (Done x) f = f x"

lemma and_then_cong [fundef_cong]:
  "m = m' \<Longrightarrow> (\<And>x. m' = Done x \<Longrightarrow> f x = f' x) \<Longrightarrow> and_then m f = and_then m' f'"
  by (cases m') simp_all

lemma and_then_Done [simp]: "and_then m f = Done y \<longleftrightarrow> (\<exists>x. m = Done x \<and> f x = Done y)"
  by (cases m) simp_all

section \<open>One goroutine\<close>

text \<open>
  The state of a round: the node and the world, the visited set, the contacts learned, the
  value found, and (a ghost) the answers received so far, in order.
\<close>

type_synonym answer = "go_error + found"

record 'w round =
  rd_state :: "'w node \<times> 'w"
  rd_visited :: "dht_key set"
  rd_new :: "network_node list"
  rd_found :: "value_meta option"
  rd_log :: "(network_node \<times> answer) list"

definition query ::
  "bool \<Rightarrow> 'w transport \<Rightarrow> network_node \<Rightarrow> dht_key \<Rightarrow> 'w \<Rightarrow> answer \<times> 'w" where
  "query isFindValue tr n target w =
     (if isFindValue then tr_find_value tr n target w
      else
        let (res, w') = tr_find_node tr n target w in
        (case res of Inl e \<Rightarrow> Inl e | Inr nodes \<Rightarrow> Inr (None, nodes), w'))"

text \<open>The loop over the answer, under the mutex of the round; a nil contact is dereferenced.\<close>

fun absorb_nodes :: "network_node option list \<Rightarrow> 'w round \<Rightarrow> 'w round outcome" where
  "absorb_nodes [] rd = Done rd"
| "absorb_nodes (None # rs) rd = Crash"
| "absorb_nodes (Some r # rs) rd =
     (if nn_id r = nn_id (node_self (fst (rd_state rd))) then absorb_nodes rs rd
      else
        absorb_nodes rs
          (rd\<lparr>rd_state := add_contact r (rd_state rd),
              rd_new := (if nn_id r \<in> rd_visited rd then rd_new rd else rd_new rd @ [r])\<rparr>))"

definition absorb :: "answer \<Rightarrow> 'w round \<Rightarrow> 'w round outcome" where
  "absorb ans rd =
     (case ans of
        Inl err \<Rightarrow> Done rd
      | Inr (val, res) \<Rightarrow>
          (case val of
             Some v \<Rightarrow> Done (rd\<lparr>rd_found := Some v\<rparr>)
           | None \<Rightarrow> absorb_nodes res rd))"

section \<open>One round\<close>

text \<open>
  A launched goroutine makes its call, then takes the mutex and absorbs the answer. In each
  step the scheduler lets the loop launch the next goroutine (marking its contact visited)
  or moves one of the launched goroutines; the round ends with \<open>wg.Wait\<close>.
\<close>

datatype flight = Calling network_node | Answered answer

definition launch_next :: "network_node \<Rightarrow> 'w round \<Rightarrow> 'w round" where
  "launch_next n rd = rd\<lparr>rd_visited := insert (nn_id n) (rd_visited rd)\<rparr>"

definition do_call :: "bool \<Rightarrow> dht_key \<Rightarrow> network_node \<Rightarrow> 'w round \<Rightarrow> (answer \<times> 'w round) outcome" where
  "do_call isFindValue target n rd =
     (case node_transport (fst (rd_state rd)) of
        None \<Rightarrow> Crash
      | Some tr \<Rightarrow>
          let (ans, w') = query isFindValue tr n target (snd (rd_state rd)) in
          Done (ans, rd\<lparr>rd_state := (fst (rd_state rd), w'), rd_log := rd_log rd @ [(n, ans)]\<rparr>))"

definition draw :: "'w env \<Rightarrow> 'w round \<Rightarrow> nat \<times> 'w round" where
  "draw env rd =
     (let (i, w') = sched env (snd (rd_state rd)) in
      (i, rd\<lparr>rd_state := (fst (rd_state rd), w')\<rparr>))"

fun flight_weight :: "flight \<Rightarrow> nat" where
  "flight_weight (Calling n) = 2"
| "flight_weight (Answered a) = 1"

function run_round ::
  "'w env \<Rightarrow> bool \<Rightarrow> dht_key \<Rightarrow> network_node list \<Rightarrow> flight list \<Rightarrow> 'w round \<Rightarrow> 'w round outcome"
where
  "run_round env fv target todo fl rd =
     (if todo = [] \<and> fl = [] then Done rd
      else
        let (i, rd) = draw env rd; j = i mod (length fl + (if todo = [] then 0 else 1)) in
        if j = length fl then
          run_round env fv target (tl todo) (fl @ [Calling (hd todo)]) (launch_next (hd todo) rd)
        else
          (case fl ! j of
             Calling n \<Rightarrow>
               and_then (do_call fv target n rd)
                 (\<lambda>(ans, rd). run_round env fv target todo (fl[j := Answered ans]) rd)
           | Answered ans \<Rightarrow>
               and_then (absorb ans rd) (run_round env fv target todo (remove_nth j fl))))"
  by pat_completeness auto

lemma sum_list_remove_nth:
  fixes f :: "'a \<Rightarrow> nat"
  assumes "j < length xs"
  shows "sum_list (map f (remove_nth j xs)) + f (xs ! j) = sum_list (map f xs)"
  using mset_remove_nth [OF assms] unfolding sum_mset_sum_list [symmetric] mset_map by simp

definition round_work :: "network_node list \<Rightarrow> flight list \<Rightarrow> nat" where
  "round_work todo fl = 3 * length todo + sum_list (map flight_weight fl)"

lemma round_work_launch:
  "todo \<noteq> [] \<Longrightarrow> round_work (tl todo) (fl @ [Calling n]) < round_work todo fl"
  by (cases todo) (simp_all add: round_work_def)

lemma round_work_call:
  "j < length fl \<Longrightarrow> fl ! j = Calling n \<Longrightarrow> round_work todo (fl[j := Answered a]) < round_work todo fl"
  using sum_list_replace [of j fl flight_weight "Answered a"] by (simp add: round_work_def)

lemma round_work_absorb:
  "j < length fl \<Longrightarrow> fl ! j = Answered a \<Longrightarrow> round_work todo (remove_nth j fl) < round_work todo fl"
  using sum_list_remove_nth [of j fl flight_weight] by (simp add: round_work_def)

lemma pick_bounds:
  assumes "\<not> (todo = [] \<and> fl = [])" and "j = i mod (length fl + (if todo = [] then 0 else 1))"
  shows "j = length fl \<Longrightarrow> todo \<noteq> []" and "j \<noteq> length fl \<Longrightarrow> j < length fl"
proof -
  have "j < length fl + (if todo = [] then 0 else 1)"
    using assms by (auto intro: mod_less_divisor)
  then show "j = length fl \<Longrightarrow> todo \<noteq> []" "j \<noteq> length fl \<Longrightarrow> j < length fl"
    by (auto split: if_splits)
qed

termination run_round
proof (relation "measure (\<lambda>(env, fv, target, todo, fl, rd). round_work todo fl)", goal_cases)
  case 1
  show ?case by simp
next
  case (2 env fv target todo fl rd x i rd' j)
  with pick_bounds(1) [OF 2(1) 2(4)] show ?case by (simp add: round_work_launch)
next
  case (3 env fv target todo fl rd x i rd' j)
  with pick_bounds(2) [OF 3(1) 3(4)] show ?case by (auto intro: round_work_call)
next
  case (4 env fv target todo fl rd x i rd' j)
  with pick_bounds(2) [OF 4(1) 4(4)] show ?case by (auto intro: round_work_absorb)
qed


section \<open>What a round does\<close>

declare run_round.simps [simp del]

text \<open>
  The principle all proofs about a round use: what holds at the start and is kept by the
  environment's draw and by the three kinds of step holds at the end.
\<close>

lemma run_round_invariant [consumes 1, case_names start draw launch call absorb]:
  assumes "run_round env fv target todo fl rd = Done rd'" and "P todo fl rd"
    and draw: "\<And>todo fl rd. P todo fl rd \<Longrightarrow> P todo fl (snd (draw env rd))"
    and launch: "\<And>n todo fl rd. P (n # todo) fl rd \<Longrightarrow> P todo (fl @ [Calling n]) (launch_next n rd)"
    and call: "\<And>todo fl rd j n ans rd'. P todo fl rd \<Longrightarrow> j < length fl \<Longrightarrow> fl ! j = Calling n \<Longrightarrow>
      do_call fv target n rd = Done (ans, rd') \<Longrightarrow> P todo (fl[j := Answered ans]) rd'"
    and absorb: "\<And>todo fl rd j ans rd'. P todo fl rd \<Longrightarrow> j < length fl \<Longrightarrow> fl ! j = Answered ans \<Longrightarrow>
      absorb ans rd = Done rd' \<Longrightarrow> P todo (remove_nth j fl) rd'"
  shows "P [] [] rd'"
  using assms
proof (induction env fv target todo fl rd rule: run_round.induct)
  case (1 env fv target todo fl rd)
  note run = 1(4) and P = 1(5) and rules = 1(6-9)
  show ?case
  proof (cases "todo = [] \<and> fl = []")
    case True
    with run P show ?thesis by (simp add: run_round.simps)
  next
    case False
    obtain i rd1 where d: "draw env rd = (i, rd1)" by fastforce
    then have P1: "P todo fl rd1" using rules(1) [OF P] by simp
    define j where "j = i mod (length fl + (if todo = [] then 0 else 1))"
    note b = pick_bounds [OF False j_def] and IH = 1(1-3) [OF False d [symmetric] refl j_def]
    show ?thesis
    proof (cases "j = length fl")
      case True
      then have "P (tl todo) (fl @ [Calling (hd todo)]) (launch_next (hd todo) rd1)"
        using rules(2) P1 b(1) by (metis list.collapse)
      moreover have "run_round env fv target (tl todo) (fl @ [Calling (hd todo)])
          (launch_next (hd todo) rd1) = Done rd'"
        using run False True by (simp add: run_round.simps [of env fv target todo] d j_def [symmetric])
      ultimately show ?thesis using IH(1) [OF True] rules by blast
    next
      case j: False
      show ?thesis
      proof (cases "fl ! j")
        case (Calling n)
        with run False j obtain ans rd2 where c: "do_call fv target n rd1 = Done (ans, rd2)"
          and r: "run_round env fv target todo (fl[j := Answered ans]) rd2 = Done rd'"
          by (auto simp: run_round.simps [of env fv target todo fl] d j_def [symmetric])
        from IH(2) [OF j Calling c refl r rules(3) [OF P1 b(2) [OF j] Calling c]] rules
        show ?thesis by blast
      next
        case (Answered ans)
        with run False j obtain rd2 where c: "absorb ans rd1 = Done rd2"
          and r: "run_round env fv target todo (remove_nth j fl) rd2 = Done rd'"
          by (auto simp: run_round.simps [of env fv target todo fl] d j_def [symmetric])
        from IH(3) [OF j Answered c r rules(4) [OF P1 b(2) [OF j] Answered c]] rules
        show ?thesis by blast
      qed
    qed
  qed
qed


section \<open>What an answer adds\<close>

text \<open>The contacts of an answer that are not the node itself.\<close>

definition learned :: "dht_key \<Rightarrow> network_node option list \<Rightarrow> network_node list" where
  "learned self res = filter (\<lambda>r. nn_id r \<noteq> self) (List.map_filter (\<lambda>r. r) res)"

lemma learned_simps [simp]:
  "learned self [] = []"
  "learned self (None # rs) = learned self rs"
  "learned self (Some r # rs) = (if nn_id r = self then learned self rs else r # learned self rs)"
  by (simp_all add: learned_def)

lemma set_learned [simp]: "n \<in> set (learned self res) \<longleftrightarrow> Some n \<in> set res \<and> nn_id n \<noteq> self"
  by (induction res) (auto simp: learned_def map_filter_simps split: option.splits)

lemma add_contacts_self [simp]: "node_self (fst (fold add_contact ns s)) = node_self (fst s)"
  by (induction ns arbitrary: s) simp_all

lemma absorb_nodes_eq:
  "absorb_nodes rs rd =
     (if None \<in> set rs then Crash
      else
        let l = learned (nn_id (node_self (fst (rd_state rd)))) rs in
        Done (rd\<lparr>rd_state := fold add_contact l (rd_state rd),
                 rd_new := rd_new rd @ filter (\<lambda>n. nn_id n \<notin> rd_visited rd) l\<rparr>))"
  by (induction rs rd rule: absorb_nodes.induct) (simp_all add: Let_def)

lemma absorb_cases:
  "absorb ans rd =
     (case ans of
        Inl err \<Rightarrow> Done rd
      | Inr (Some v, res) \<Rightarrow> Done (rd\<lparr>rd_found := Some v\<rparr>)
      | Inr (None, res) \<Rightarrow>
          if None \<in> set res then Crash
          else
            let l = learned (nn_id (node_self (fst (rd_state rd)))) res in
            Done (rd\<lparr>rd_state := fold add_contact l (rd_state rd),
                     rd_new := rd_new rd @ filter (\<lambda>n. nn_id n \<notin> rd_visited rd) l\<rparr>))"
  by (auto simp: absorb_def absorb_nodes_eq split: sum.splits option.splits prod.splits)

text \<open>
  How a node may change while it looks something up: its routing table goes through a
  sequence of \<open>Add\<close>s, and nothing else changes.
\<close>

definition evolves :: "'w node \<Rightarrow> 'w node \<Rightarrow> bool" where
  "evolves node node' \<longleftrightarrow>
     node_self node' = node_self node \<and> node_storage node' = node_storage node
     \<and> node_transport node' = node_transport node
     \<and> rt.add_step\<^sup>*\<^sup>* (node_rt node) (node_rt node')"

lemma evolves_refl [simp, intro]: "evolves node node"
  by (simp add: evolves_def)

lemma evolves_trans [trans]: "evolves a b \<Longrightarrow> evolves b c \<Longrightarrow> evolves a c"
  unfolding evolves_def by (auto intro: rtranclp_trans)

lemma evolves_add_contact: "evolves (fst s) (fst (add_contact n s))"
  by (simp add: evolves_def rt.add_steps_one)

lemma evolves_add_contacts: "evolves (fst s) (fst (fold add_contact ns s))"
proof (induction ns arbitrary: s)
  case (Cons n ns)
  from evolves_trans [OF evolves_add_contact Cons [of "add_contact n s"]] show ?case by simp
qed simp

lemma evolves_inv: "evolves node node' \<Longrightarrow> node_inv sha node \<Longrightarrow> node_inv sha node'"
  using rt.add_steps_keep by (auto simp: evolves_def node_inv_def)

lemma evolves_fields:
  "evolves node node' \<Longrightarrow> node_self node' = node_self node"
  "evolves node node' \<Longrightarrow> node_storage node' = node_storage node"
  "evolves node node' \<Longrightarrow> node_transport node' = node_transport node"
  by (simp_all add: evolves_def)

section \<open>Invariants of a round\<close>

lemma draw_simps [simp]:
  "fst (rd_state (snd (draw env rd))) = fst (rd_state rd)"
  "rd_visited (snd (draw env rd)) = rd_visited rd"
  "rd_new (snd (draw env rd)) = rd_new rd"
  "rd_found (snd (draw env rd)) = rd_found rd"
  "rd_log (snd (draw env rd)) = rd_log rd"
  by (simp_all add: draw_def split: prod.splits)

lemma launch_next_simps [simp]:
  "rd_state (launch_next n rd) = rd_state rd"
  "rd_visited (launch_next n rd) = insert (nn_id n) (rd_visited rd)"
  "rd_new (launch_next n rd) = rd_new rd"
  "rd_found (launch_next n rd) = rd_found rd"
  "rd_log (launch_next n rd) = rd_log rd"
  by (simp_all add: launch_next_def)

lemma do_call_Done:
  assumes "do_call fv target n rd = Done (ans, rd')"
  shows "fst (rd_state rd') = fst (rd_state rd)" "rd_visited rd' = rd_visited rd"
    "rd_new rd' = rd_new rd" "rd_found rd' = rd_found rd" "rd_log rd' = rd_log rd @ [(n, ans)]"
  using assms by (auto simp: do_call_def Let_def split: option.splits prod.splits)

lemma absorb_Done:
  assumes "absorb ans rd = Done rd'"
  shows "evolves (fst (rd_state rd)) (fst (rd_state rd'))" "rd_visited rd' = rd_visited rd"
    "rd_log rd' = rd_log rd"
  using assms
  by (auto intro: evolves_add_contacts simp: absorb_cases Let_def split: sum.splits option.splits prod.splits if_splits)

lemma run_round_evolves:
  assumes "run_round env fv target todo fl rd = Done rd'"
  shows "evolves (fst (rd_state rd)) (fst (rd_state rd'))"
  using assms
  by (induction rule: run_round_invariant [where P = "\<lambda>_ _ r. evolves (fst (rd_state rd)) (fst (rd_state r))"])
    (auto simp: do_call_Done intro: evolves_trans absorb_Done(1))


text \<open>Every contact of the round is called exactly once, and marked visited when launched.\<close>

fun calling :: "flight \<Rightarrow> network_node multiset" where
  "calling (Calling n) = {#n#}"
| "calling (Answered a) = {#}"

definition in_flight :: "flight list \<Rightarrow> network_node multiset" where
  "in_flight fl = sum_mset (image_mset calling (mset fl))"

lemma in_flight_call:
  assumes "j < length fl" and "fl ! j = Calling n"
  shows "in_flight fl = add_mset n (in_flight (fl[j := Answered a]))"
proof -
  have "mset fl = add_mset (Calling n) (mset (remove_nth j fl))"
    using mset_remove_nth [OF assms(1)] assms(2) by simp
  moreover from this assms have "mset (fl[j := Answered a]) = add_mset (Answered a) (mset (remove_nth j fl))"
    by (simp add: mset_update)
  ultimately show ?thesis by (simp add: in_flight_def)
qed

lemma in_flight_absorb:
  "j < length fl \<Longrightarrow> fl ! j = Answered a \<Longrightarrow> in_flight (remove_nth j fl) = in_flight fl"
  using mset_remove_nth [of j fl] by (simp add: in_flight_def)

lemma in_flight_simps [simp]:
  "in_flight [] = {#}" "in_flight (fl @ [Calling n]) = add_mset n (in_flight fl)"
  by (simp_all add: in_flight_def)

lemma run_round_log:
  assumes "run_round env fv target todo [] rd = Done rd'"
  shows "mset (map fst (rd_log rd')) = mset (map fst (rd_log rd)) + mset todo
     \<and> rd_visited rd' = rd_visited rd \<union> set (ids todo)"
proof -
  have "mset (map fst (rd_log rd')) + in_flight [] + mset ([] :: network_node list)
        = mset (map fst (rd_log rd)) + mset todo
      \<and> rd_visited rd' \<union> set (ids []) = rd_visited rd \<union> set (ids todo)"
    using assms
  proof (induction rule: run_round_invariant [where P = "\<lambda>todo' fl r.
      mset (map fst (rd_log r)) + in_flight fl + mset todo' = mset (map fst (rd_log rd)) + mset todo
      \<and> rd_visited r \<union> set (ids todo') = rd_visited rd \<union> set (ids todo)"])
    case (call todo' fl r j n ans r')
    then show ?case by (simp add: do_call_Done in_flight_call [of j fl n ans])
  next
    case (absorb todo' fl r j ans r')
    then show ?case by (simp add: absorb_Done in_flight_absorb)
  qed simp_all
  then show ?thesis by simp
qed

text \<open>\<open>absorbed\<close>: the round has taken account of an answer.\<close>

definition absorbed :: "dht_key \<Rightarrow> 'w round \<Rightarrow> answer \<Rightarrow> bool" where
  "absorbed self rd ans \<longleftrightarrow>
     (case ans of
        Inl e \<Rightarrow> True
      | Inr (Some v, res) \<Rightarrow> rd_found rd \<noteq> None
      | Inr (None, res) \<Rightarrow>
          (\<forall>n \<in> set (learned self res). nn_id n \<in> rd_visited rd \<union> set (ids (rd_new rd))))"

definition round_le :: "'w round \<Rightarrow> 'w round \<Rightarrow> bool" where
  "round_le r r' \<longleftrightarrow> rd_visited r \<subseteq> rd_visited r' \<and> set (rd_new r) \<subseteq> set (rd_new r')
     \<and> (rd_found r \<noteq> None \<longrightarrow> rd_found r' \<noteq> None)"

lemma absorbed_mono: "absorbed self r a \<Longrightarrow> round_le r r' \<Longrightarrow> absorbed self r' a"
  by (cases a rule: sum.exhaust; fastforce simp: absorbed_def round_le_def split: option.splits)

lemma absorb_absorbed:
  "absorb ans rd = Done rd' \<Longrightarrow> absorbed (nn_id (node_self (fst (rd_state rd)))) rd' ans"
  by (auto simp: absorb_cases absorbed_def Let_def split: sum.splits option.splits prod.splits if_splits)

lemma absorb_le: "absorb ans rd = Done rd' \<Longrightarrow> round_le rd rd'"
  by (auto simp: absorb_cases round_le_def Let_def split: sum.splits option.splits prod.splits if_splits)


lemma run_round_absorbed:
  assumes "run_round env fv target todo [] rd = Done rd'"
    and "ma \<in> set (rd_log rd')" and "ma \<notin> set (rd_log rd)"
  shows "absorbed (nn_id (node_self (fst (rd_state rd)))) rd' (snd ma)"
proof -
  let ?me = "node_self (fst (rd_state rd))"
  let ?P = "\<lambda>fl r. node_self (fst (rd_state r)) = ?me
      \<and> (\<forall>ma \<in> set (rd_log r). ma \<in> set (rd_log rd) \<or> Answered (snd ma) \<in> set fl
           \<or> absorbed (nn_id ?me) r (snd ma))"
  have "?P [] rd'"
    using assms(1)
  proof (induction rule: run_round_invariant [where P = "\<lambda>_. ?P"])
    case (draw todo fl r)
    then show ?case
      by (auto intro: absorbed_mono simp: round_le_def)
  next
    case (launch n todo fl r)
    have "round_le r (launch_next n r)" by (auto simp: round_le_def)
    with launch show ?case by (auto intro: absorbed_mono)
  next
    case (call todo fl r j n ans r')
    have "Answered a \<in> set (fl[j := Answered ans])" if "Answered a \<in> set fl" for a
    proof -
      from that obtain i where "i < length fl" "fl ! i = Answered a" by (metis in_set_conv_nth)
      with call(3) have "fl[j := Answered ans] ! i = Answered a" by (cases "i = j") simp_all
      with \<open>i < length fl\<close> show ?thesis by (metis length_list_update nth_mem)
    qed
    moreover have "Answered ans \<in> set (fl[j := Answered ans])"
      using call(2) by (rule set_update_memI)
    moreover have "round_le r r'" using do_call_Done [OF call(4)] by (simp add: round_le_def)
    ultimately show ?case
      using call(1) do_call_Done [OF call(4)] by (auto intro: absorbed_mono)
  next
    case (absorb todo fl r j ans r')
    have "Answered a \<in> set (remove_nth j fl) \<or> a = ans" if "Answered a \<in> set fl" for a
      using that set_remove_nth [OF absorb(2)] absorb(3) by auto
    note left = this
    have me: "node_self (fst (rd_state r)) = ?me" using absorb(1) by blast
    show ?case
    proof (intro conjI ballI)
      show "node_self (fst (rd_state r')) = ?me"
        using evolves_fields(1) [OF absorb_Done(1) [OF absorb(4)]] me by simp
      fix ma assume "ma \<in> set (rd_log r')"
      then have "ma \<in> set (rd_log r)" by (simp add: absorb_Done(3) [OF absorb(4)])
      then consider "ma \<in> set (rd_log rd)" | "Answered (snd ma) \<in> set (remove_nth j fl)"
        | "snd ma = ans" | "absorbed (nn_id ?me) r (snd ma)"
        using absorb(1) left by blast
      then show "ma \<in> set (rd_log rd) \<or> Answered (snd ma) \<in> set (remove_nth j fl)
          \<or> absorbed (nn_id ?me) r' (snd ma)"
        using absorb_absorbed [OF absorb(4)] absorbed_mono [OF _ absorb_le [OF absorb(4)]]
        by cases (simp_all add: me)
    qed
  qed simp
  with assms(2,3) show ?thesis by auto
qed

text \<open>Where the contacts and the value of a round come from.\<close>

definition told_node :: "dht_key \<Rightarrow> (network_node \<times> answer) list \<Rightarrow> network_node \<Rightarrow> bool" where
  "told_node self log n \<longleftrightarrow> nn_id n \<noteq> self \<and> (\<exists>m res. (m, Inr (None, res)) \<in> set log \<and> Some n \<in> set res)"

definition told_value :: "(network_node \<times> answer) list \<Rightarrow> value_meta \<Rightarrow> bool" where
  "told_value log v \<longleftrightarrow> (\<exists>m res. (m, Inr (Some v, res)) \<in> set log)"

lemma told_nodeI:
  "(m, Inr (None, res)) \<in> set log \<Longrightarrow> Some n \<in> set res \<Longrightarrow> nn_id n \<noteq> self \<Longrightarrow> told_node self log n"
  by (auto simp: told_node_def)

lemma told_valueI: "(m, Inr (Some v, res)) \<in> set log \<Longrightarrow> told_value log v"
  by (auto simp: told_value_def)

lemma absorb_sources:
  assumes "absorb ans rd = Done rd'" and "(m, ans) \<in> set (rd_log rd)"
  shows "n \<in> set (rd_new rd') \<Longrightarrow> n \<in> set (rd_new rd) \<or>
      told_node (nn_id (node_self (fst (rd_state rd)))) (rd_log rd) n"
    and "rd_found rd' = Some v \<Longrightarrow> rd_found rd = Some v \<or> told_value (rd_log rd) v"
  using assms
  by (auto simp: absorb_cases Let_def intro: told_nodeI told_valueI
      split: sum.splits option.splits prod.splits if_splits)

lemma told_append:
  "told_node self log n \<Longrightarrow> told_node self (log @ log') n"
  "told_value log v \<Longrightarrow> told_value (log @ log') v"
  by (auto simp: told_node_def told_value_def)

lemma run_round_sources:
  assumes "run_round env fv target todo [] rd = Done rd'"
  shows "n \<in> set (rd_new rd') \<Longrightarrow> n \<in> set (rd_new rd) \<or>
      told_node (nn_id (node_self (fst (rd_state rd)))) (rd_log rd') n"
    and "rd_found rd' = Some v \<Longrightarrow> rd_found rd = Some v \<or> told_value (rd_log rd') v"
proof -
  let ?me = "node_self (fst (rd_state rd))"
  let ?P = "\<lambda>fl r. node_self (fst (rd_state r)) = ?me
      \<and> (\<forall>a. Answered a \<in> set fl \<longrightarrow> a \<in> snd ` set (rd_log r))
      \<and> (\<forall>n \<in> set (rd_new r). n \<in> set (rd_new rd) \<or> told_node (nn_id ?me) (rd_log r) n)
      \<and> (\<forall>v. rd_found r = Some v \<longrightarrow> rd_found rd = Some v \<or> told_value (rd_log r) v)"
  have "?P [] rd'"
    using assms
  proof (induction rule: run_round_invariant [where P = "\<lambda>_. ?P"])
    case (call todo fl r j n ans r')
    have "Answered a \<in> set fl \<or> a = ans" if "Answered a \<in> set (fl[j := Answered ans])" for a
      using that set_update_subset_insert [of fl j "Answered ans"] by auto
    with call(1) show ?case
      by (fastforce simp: do_call_Done [OF call(4)] intro: told_append)
  next
    case (absorb todo fl r j ans r')
    have "Answered ans \<in> set fl" using absorb(2,3) by (metis nth_mem)
    then obtain m where m: "(m, ans) \<in> set (rd_log r)" using absorb(1) by force
    have me: "node_self (fst (rd_state r)) = ?me" using absorb(1) by blast
    note src = absorb_sources [OF absorb(4) m, unfolded me] and log = absorb_Done(3) [OF absorb(4)]
    show ?case
    proof (intro conjI allI ballI impI)
      show "node_self (fst (rd_state r')) = ?me"
        using evolves_fields(1) [OF absorb_Done(1) [OF absorb(4)]] me by simp
      show "a \<in> snd ` set (rd_log r')" if "Answered a \<in> set (remove_nth j fl)" for a
        using that set_remove_nth_subset [of j fl] absorb(1) log by auto
      show "n \<in> set (rd_new rd) \<or> told_node (nn_id ?me) (rd_log r') n" if "n \<in> set (rd_new r')" for n
        using src(1) [OF that] absorb(1) log by auto
      show "rd_found rd = Some v \<or> told_value (rd_log r') v" if "rd_found r' = Some v" for v
        using src(2) [OF that] absorb(1) log by auto
    qed
  qed auto
  then show "n \<in> set (rd_new rd') \<Longrightarrow> n \<in> set (rd_new rd) \<or>
      told_node (nn_id (node_self (fst (rd_state rd)))) (rd_log rd') n"
    "rd_found rd' = Some v \<Longrightarrow> rd_found rd = Some v \<or> told_value (rd_log rd') v"
    by auto
qed


section \<open>The search\<close>

text \<open>
  \<open>sort.Slice\<close> leaves elements with equal keys in any order: a stable sort of some
  rearrangement of the list, which the environment picks.
\<close>

fun pick_order :: "nat list \<Rightarrow> 'a list \<Rightarrow> 'a list" where
  "pick_order [] xs = xs"
| "pick_order (i # is) xs =
     (if xs = [] then []
      else xs ! (i mod length xs) # pick_order is (remove_nth (i mod length xs) xs))"

lemma mset_pick_order [simp]: "mset (pick_order is xs) = mset xs"
proof (induction "is" xs rule: pick_order.induct)
  case (2 i "is" xs)
  then show ?case
    using mset_remove_nth [of "i mod length xs" xs] by simp
qed simp

definition sort_nodes :: "nat list \<Rightarrow> dht_key \<Rightarrow> network_node list \<Rightarrow> network_node list" where
  "sort_nodes ties target ns =
     sort_slice (\<lambda>n. GetKeyDistance (nn_id n) target) (pick_order ties ns)"

definition to_query :: "dht_key set \<Rightarrow> network_node list \<Rightarrow> network_node list" where
  "to_query visited closest = take Alpha (filter (\<lambda>n. nn_id n \<notin> visited) closest)"

definition merge_closest ::
  "nat list \<Rightarrow> dht_key \<Rightarrow> network_node list \<Rightarrow> network_node list \<Rightarrow> network_node list" where
  "merge_closest ties target closest newNodes =
     (let closest = sort_nodes ties target (closest @ newNodes) in
      if K < length closest then take K closest else closest)"

type_synonym search_result = "network_node list \<times> value_meta option \<times> go_error option"

type_synonym query_log = "(network_node \<times> answer) list"

function search_loop ::
  "'w env \<Rightarrow> bool \<Rightarrow> dht_key \<Rightarrow> network_node list \<Rightarrow> dht_key set \<Rightarrow> query_log \<Rightarrow> 'w node \<times> 'w \<Rightarrow>
     (search_result \<times> query_log \<times> 'w node \<times> 'w) outcome"
where
  "search_loop env isFindValue target closest visited log s =
     (case ctx_err env (snd s) of
        Some err \<Rightarrow> Done ((closest, None, Some err), log, s)
      | None \<Rightarrow>
          let toQuery = to_query visited closest in
          if toQuery = [] then
            Done ((closest, None, if isFindValue then Some ErrNotFound else None), log, s)
          else
            and_then
              (run_round env isFindValue target toQuery []
                 \<lparr>rd_state = s, rd_visited = visited, rd_new = [], rd_found = None, rd_log = log\<rparr>)
              (\<lambda>rd. case rd_found rd of
                 Some v \<Rightarrow> Done (([], Some v, None), rd_log rd, rd_state rd)
               | None \<Rightarrow>
                   search_loop env isFindValue target
                     (merge_closest (sort_ties env (snd (rd_state rd))) target closest (rd_new rd))
                     (rd_visited rd) (rd_log rd) (rd_state rd)))"
  by pat_completeness auto

text \<open>There are finitely many keys, and every round visits one more.\<close>

lemma to_query_unvisited: "n \<in> set (to_query visited closest) \<Longrightarrow> n \<in> set closest \<and> nn_id n \<notin> visited"
  unfolding to_query_def by (auto dest: in_set_takeD)

termination search_loop
proof (relation "measure (\<lambda>(env, fv, target, closest, visited, log, s). card (UNIV - visited))", goal_cases)
  case 1
  show ?case by simp
next
  case (2 env fv target closest visited log s toQuery rd)
  then have "rd_visited rd = visited \<union> set (ids toQuery)"
    using run_round_log by fastforce
  moreover obtain n where "n \<in> set toQuery" using 2(3) by (cases toQuery) auto
  moreover from this have "nn_id n \<notin> visited" using to_query_unvisited 2(2) by blast
  ultimately have "UNIV - rd_visited rd \<subset> UNIV - visited" by auto
  then show ?case by (simp add: psubset_card_mono)
qed

declare search_loop.simps [simp del]

definition iterativeSearch ::
  "'w env \<Rightarrow> dht_key \<Rightarrow> bool \<Rightarrow> 'w node \<times> 'w \<Rightarrow>
     (search_result \<times> query_log \<times> 'w node \<times> 'w) outcome"
where
  "iterativeSearch env target isFindValue s =
     (let closest = FindClosest (node_rt (fst s)) target K;
          empty_table = Done (([], None, Some (ErrText ''routing table is empty'')), [], s)
      in if closest = [] then empty_table
         else
           let closest = filter (\<lambda>n. nn_id n \<noteq> nn_id (node_self (fst s))) closest in
           if closest = [] then empty_table
           else search_loop env isFindValue target closest {} [] s)"


section \<open>The list of closest contacts\<close>

text \<open>
  \<open>covered t c k\<close>: key \<open>k\<close> is in the list, or the list is full of contacts at least as near to
  the target. Merging keeps what is covered and covers what is merged.
\<close>

definition covered :: "dht_key \<Rightarrow> network_node list \<Rightarrow> dht_key \<Rightarrow> bool" where
  "covered target closest k \<longleftrightarrow>
     k \<in> set (ids closest)
     \<or> (K \<le> length closest \<and>
        (\<forall>m \<in> set closest. GetKeyDistance (nn_id m) target \<le> GetKeyDistance k target))"

lemma sort_nodes_simps [simp]:
  "mset (sort_nodes ties t ns) = mset ns" "set (sort_nodes ties t ns) = set ns"
  "length (sort_nodes ties t ns) = length ns"
  "sorted (map (\<lambda>n. GetKeyDistance (nn_id n) t) (sort_nodes ties t ns))"
proof -
  show m: "mset (sort_nodes ties t ns) = mset ns" by (simp add: sort_nodes_def)
  show "set (sort_nodes ties t ns) = set ns" using mset_eq_setD [OF m] .
  show "length (sort_nodes ties t ns) = length ns" using mset_eq_length [OF m] .
qed (simp add: sort_nodes_def)

lemma merge_closest_eq: "merge_closest ties t c new = take K (sort_nodes ties t (c @ new))"
  by (simp add: merge_closest_def Let_def)

lemma merge_closest_simps [simp]:
  "length (merge_closest ties t c new) = min K (length c + length new)"
  "sorted (map (\<lambda>n. GetKeyDistance (nn_id n) t) (merge_closest ties t c new))"
  by (simp_all add: merge_closest_eq sorted_take_key min.commute)

lemma set_merge_closest: "set (merge_closest ties t c new) \<subseteq> set c \<union> set new"
  using set_take_subset [of K "sort_nodes ties t (c @ new)"] by (simp add: merge_closest_eq)

lemma covered_take_sorted:
  assumes "sorted (map (\<lambda>n. GetKeyDistance (nn_id n) t) L)" and "k \<in> set (ids L)"
  shows "covered t (take K L) k"
proof (cases "k \<in> set (ids (take K L))")
  case False
  from assms(2) obtain n where n: "n \<in> set L" "nn_id n = k" by auto
  with False have d: "n \<in> set (drop K L)"
    by (metis UnE append_take_drop_id image_eqI list.set_map set_append)
  then have "K \<le> length (take K L)" by (cases "K \<le> length L") auto
  moreover have "GetKeyDistance (nn_id m) t \<le> GetKeyDistance k t" if "m \<in> set (take K L)" for m
    using sorted_take_le_drop [OF assms(1) that d] n(2) by simp
  ultimately show ?thesis by (simp add: covered_def)
qed (simp add: covered_def)

lemma take_sorted_below:
  assumes "sorted (map f L)" and "K \<le> length (filter (\<lambda>n. f n \<le> d) L)" and "m \<in> set (take K L)"
  shows "f m \<le> (d :: nat)"
proof (rule ccontr)
  assume "\<not> f m \<le> d"
  then have "f n > d" if "n \<in> set (drop K L)" for n
    using sorted_take_le_drop [OF assms(1,3) that] by simp
  then have "filter (\<lambda>n. f n \<le> d) (drop K L) = []" by (simp add: filter_empty_conv not_le)
  then have "filter (\<lambda>n. f n \<le> d) L = filter (\<lambda>n. f n \<le> d) (take K L)"
    by (metis append_Nil2 append_take_drop_id filter_append)
  moreover have "length (filter (\<lambda>n. f n \<le> d) (take K L)) < length (take K L)"
    using assms(3) \<open>\<not> f m \<le> d\<close> by (intro length_filter_less [of m]) auto
  ultimately show False using assms(2) by simp
qed

lemma covered_merge:
  assumes "covered t c k \<or> k \<in> set (ids new)"
  shows "covered t (merge_closest ties t c new) k"
proof (cases "k \<in> set (ids (c @ new))")
  case True
  then show ?thesis unfolding merge_closest_eq
    by (intro covered_take_sorted) (simp_all add: image_Un)
next
  case False
  let ?f = "\<lambda>n. GetKeyDistance (nn_id n) t" and ?L = "sort_nodes ties t (c @ new)"
  from False assms have c: "K \<le> length c" "\<And>m. m \<in> set c \<Longrightarrow> ?f m \<le> GetKeyDistance k t"
    by (auto simp: covered_def)
  have "mset (filter (\<lambda>n. ?f n \<le> GetKeyDistance k t) ?L)
      = mset (filter (\<lambda>n. ?f n \<le> GetKeyDistance k t) (c @ new))"
    by (simp only: mset_filter sort_nodes_simps)
  then have "length (filter (\<lambda>n. ?f n \<le> GetKeyDistance k t) ?L)
      = length (filter (\<lambda>n. ?f n \<le> GetKeyDistance k t) (c @ new))"
    by (rule mset_eq_length)
  moreover have "filter (\<lambda>n. ?f n \<le> GetKeyDistance k t) c = c" using c(2) by simp
  ultimately have "K \<le> length (filter (\<lambda>n. ?f n \<le> GetKeyDistance k t) ?L)"
    using c(1) by simp
  then have "?f m \<le> GetKeyDistance k t" if "m \<in> set (take K ?L)" for m
    using take_sorted_below [OF sort_nodes_simps(4) _ that] by blast
  with c(1) show ?thesis by (simp add: covered_def merge_closest_eq)
qed

end
