(* ===== verification/Search.thy ===== *)
theory Search
  imports Lookup
begin

text \<open>
  What the iterative search of \<open>dht/logic.go\<close> guarantees, for every interleaving of its
  goroutines and every behaviour of the peers it asks.
\<close>

section \<open>The invariant of the search loop\<close>

text \<open>
  \<open>known\<close> are the contacts the search started from. The list is sorted, has at most \<open>K\<close>
  contacts, each of them known or told by an asked peer, and it covers every contact that is
  known or was told. The visited ids are those of the peers asked; none gave a value so far.
\<close>

definition heard :: "dht_key \<Rightarrow> network_node set \<Rightarrow> query_log \<Rightarrow> network_node set" where
  "heard self known log = known \<union> {n. told_node self log n}"

definition search_inv ::
  "dht_key \<Rightarrow> network_node set \<Rightarrow> dht_key \<Rightarrow> network_node list \<Rightarrow> dht_key set \<Rightarrow> query_log \<Rightarrow> bool"
where
  "search_inv self known target closest visited log \<longleftrightarrow>
     sorted (map (\<lambda>n. GetKeyDistance (nn_id n) target) closest) \<and> length closest \<le> K
     \<and> set closest \<subseteq> heard self known log
     \<and> (\<forall>n \<in> heard self known log. covered target closest (nn_id n))
     \<and> visited = nn_id ` fst ` set log \<and> visited \<subseteq> nn_id ` heard self known log
     \<and> (\<forall>v. \<not> told_value log v)"

lemma told_node_mono: "told_node self log n \<Longrightarrow> set log \<subseteq> set log' \<Longrightarrow> told_node self log' n"
  unfolding told_node_def by blast

lemma heard_mono: "set log \<subseteq> set log' \<Longrightarrow> heard self known log \<subseteq> heard self known log'"
  using told_node_mono unfolding heard_def by blast

lemma told_node_learned:
  "told_node self log n \<longleftrightarrow> (\<exists>m res. (m, Inr (None, res)) \<in> set log \<and> n \<in> set (learned self res))"
  unfolding told_node_def by auto

lemma run_round_log_mono:
  assumes "run_round env fv target todo fl rd = Done rd'"
  shows "set (rd_log rd) \<subseteq> set (rd_log rd')"
  using assms
  by (induction rule: run_round_invariant [where P = "\<lambda>_ _ r. set (rd_log rd) \<subseteq> set (rd_log r)"])
    (auto simp: do_call_Done absorb_Done)

text \<open>The state a round starts in.\<close>

definition round_start :: "'w node \<times> 'w \<Rightarrow> dht_key set \<Rightarrow> query_log \<Rightarrow> 'w round" where
  "round_start s visited log =
     \<lparr>rd_state = s, rd_visited = visited, rd_new = [], rd_found = None, rd_log = log\<rparr>"

lemma round_start_simps [simp]:
  "rd_state (round_start s vis log) = s" "rd_visited (round_start s vis log) = vis"
  "rd_new (round_start s vis log) = []" "rd_found (round_start s vis log) = None"
  "rd_log (round_start s vis log) = log"
  by (simp_all add: round_start_def)

lemma round_covers:
  assumes inv: "search_inv self known target closest visited log"
    and self: "self = nn_id (node_self (fst s))"
    and run: "run_round env fv target todo [] (round_start s visited log) = Done rd"
    and todo: "set todo \<subseteq> set closest" and none: "rd_found rd = None"
    and n: "n \<in> heard self known (rd_log rd)"
  shows "covered target closest (nn_id n) \<or> nn_id n \<in> set (ids (rd_new rd))"
proof (cases "n \<in> heard self known log")
  case True
  with inv show ?thesis by (simp add: search_inv_def)
next
  case False
  with n have "told_node self (rd_log rd) n" "\<not> told_node self log n" by (auto simp: heard_def)
  then obtain m res where mem: "(m, Inr (None, res)) \<in> set (rd_log rd)" "n \<in> set (learned self res)"
    and "(m, Inr (None, res)) \<notin> set log"
    unfolding told_node_learned by blast
  with run_round_absorbed [OF run mem(1)]
  have "\<forall>n \<in> set (learned self res). nn_id n \<in> rd_visited rd \<union> set (ids (rd_new rd))"
    by (simp add: absorbed_def self del: set_learned)
  with mem(2) consider "nn_id n \<in> rd_visited rd" | "nn_id n \<in> set (ids (rd_new rd))" by blast
  then show ?thesis
  proof cases
    case 1
    then consider "nn_id n \<in> visited" | "nn_id n \<in> set (ids todo)"
      using run_round_log [OF run] by auto
    then show ?thesis
    proof cases
      case 1
      with inv obtain m where "m \<in> heard self known log" "nn_id m = nn_id n"
        unfolding search_inv_def by (metis imageE subsetD)
      with inv show ?thesis unfolding search_inv_def by metis
    next
      case 2
      with todo have "nn_id n \<in> set (ids closest)" by auto
      then show ?thesis by (simp add: covered_def)
    qed
  qed simp
qed

lemma round_no_value:
  assumes inv: "search_inv self known target closest visited log"
    and run: "run_round env fv target todo [] (round_start s visited log) = Done rd"
    and none: "rd_found rd = None"
  shows "\<not> told_value (rd_log rd) v"
proof
  assume "told_value (rd_log rd) v"
  then obtain m res where mem: "(m, Inr (Some v, res)) \<in> set (rd_log rd)" by (auto simp: told_value_def)
  have "(m, Inr (Some v, res)) \<notin> set log" using inv unfolding search_inv_def told_value_def by blast
  with run_round_absorbed [OF run mem] none show False by (simp add: absorbed_def)
qed

lemma search_inv_round:
  assumes inv: "search_inv self known target closest visited log"
    and self: "self = nn_id (node_self (fst s))"
    and run: "run_round env fv target todo [] (round_start s visited log) = Done rd"
    and todo: "set todo \<subseteq> set closest" and none: "rd_found rd = None"
  shows "search_inv self known target (merge_closest ties target closest (rd_new rd))
           (rd_visited rd) (rd_log rd)"
proof -
  have mono: "heard self known log \<subseteq> heard self known (rd_log rd)"
    using run_round_log_mono [OF run] by (intro heard_mono) simp
  have old: "set closest \<subseteq> heard self known log" using inv by (simp add: search_inv_def)
  have new: "set (rd_new rd) \<subseteq> heard self known (rd_log rd)"
    using run_round_sources(1) [OF run] by (auto simp: heard_def self)
  have log: "mset (map fst (rd_log rd)) = mset (map fst log) + mset todo"
    "rd_visited rd = visited \<union> set (ids todo)"
    using run_round_log [OF run] by simp_all
  have asked: "fst ` set (rd_log rd) = fst ` set log \<union> set todo"
    using arg_cong [OF log(1), of set_mset] by simp
  show ?thesis
    unfolding search_inv_def
  proof (intro conjI ballI allI)
    show "set (merge_closest ties target closest (rd_new rd)) \<subseteq> heard self known (rd_log rd)"
      using set_merge_closest [of ties target closest "rd_new rd"] old new mono by blast
    show "covered target (merge_closest ties target closest (rd_new rd)) (nn_id n)"
      if "n \<in> heard self known (rd_log rd)" for n
      by (rule covered_merge) (rule round_covers [OF inv self run todo none that])
    show "rd_visited rd = nn_id ` fst ` set (rd_log rd)"
      using inv by (simp add: log(2) asked search_inv_def image_Un)
    show "rd_visited rd \<subseteq> nn_id ` heard self known (rd_log rd)"
    proof -
      have "visited \<subseteq> nn_id ` heard self known log"
        using inv unfolding search_inv_def by (elim conjE)
      also have "\<dots> \<subseteq> nn_id ` heard self known (rd_log rd)" by (rule image_mono [OF mono])
      finally have "visited \<subseteq> nn_id ` heard self known (rd_log rd)" .
      moreover have "set (ids todo) \<subseteq> nn_id ` heard self known (rd_log rd)"
        unfolding set_map using todo old mono by (intro image_mono) blast
      ultimately show ?thesis by (simp add: log(2))
    qed
    show "\<not> told_value (rd_log rd) v" for v by (rule round_no_value [OF inv run none])
  qed simp_all
qed

section \<open>The search loop\<close>

lemma set_to_query: "set (to_query visited closest) \<subseteq> set closest"
  using to_query_unvisited by blast

lemma to_query_empty: "to_query visited closest = [] \<longleftrightarrow> set (ids closest) \<subseteq> visited"
  by (auto simp: to_query_def filter_empty_conv Alpha_def)

text \<open>How the search can end.\<close>

definition search_ends ::
  "'w env \<Rightarrow> bool \<Rightarrow> dht_key \<Rightarrow> network_node set \<Rightarrow> dht_key \<Rightarrow> search_result \<Rightarrow> query_log \<Rightarrow> 'w \<Rightarrow> bool"
where
  "search_ends env fv self known target result log w \<longleftrightarrow>
     (case result of (nodes, val, err) \<Rightarrow>
        (\<exists>v. val = Some v \<and> nodes = [] \<and> err = None \<and> told_value log v)
        \<or> val = None \<and> search_inv self known target nodes (nn_id ` fst ` set log) log
          \<and> (err \<noteq> None \<and> err = ctx_err env w
             \<or> err = (if fv then Some ErrNotFound else None)
               \<and> set (ids nodes) \<subseteq> nn_id ` fst ` set log))"

lemma search_loop_ends:
  assumes "search_loop env fv target closest visited log s = Done (result, log', s')"
    and "search_inv self known target closest visited log"
    and "self = nn_id (node_self (fst s))"
  shows "evolves (fst s) (fst s') \<and> search_ends env fv self known target result log' (snd s')"
  using assms
proof (induction env fv target closest visited log s rule: search_loop.induct)
  case (1 env fv target closest visited log s)
  note inv = 1(3) and self = 1(4)
  let ?todo = "to_query visited closest"
  show ?case
  proof (cases "ctx_err env (snd s)")
    case (Some e)
    with 1(2) inv show ?thesis by (auto simp: search_loop.simps search_ends_def search_inv_def)
  next
    case None
    show ?thesis
    proof (cases "?todo = []")
      case True
      with 1(2) None inv show ?thesis
        by (auto simp: search_loop.simps search_ends_def search_inv_def to_query_empty)
    next
      case False
      with 1(2) None obtain rd
        where run: "run_round env fv target ?todo [] (round_start s visited log) = Done rd"
          and rest: "(case rd_found rd of
                 Some v \<Rightarrow> Done (([], Some v, None), rd_log rd, rd_state rd)
               | None \<Rightarrow> search_loop env fv target
                   (merge_closest (sort_ties env (snd (rd_state rd))) target closest (rd_new rd))
                   (rd_visited rd) (rd_log rd) (rd_state rd)) = Done (result, log', s')"
        by (auto simp: search_loop.simps [of env fv target] round_start_def Let_def)
      have ev: "evolves (fst s) (fst (rd_state rd))" using run_round_evolves [OF run] by simp
      show ?thesis
      proof (cases "rd_found rd")
        case (Some v)
        with rest run_round_sources(2) [OF run, of v] ev show ?thesis
          by (auto simp: search_ends_def)
      next
        case none: None
        with rest have r: "search_loop env fv target
                   (merge_closest (sort_ties env (snd (rd_state rd))) target closest (rd_new rd))
                   (rd_visited rd) (rd_log rd) (rd_state rd) = Done (result, log', s')" by simp
        have "self = nn_id (node_self (fst (rd_state rd)))"
          using self evolves_fields(1) [OF ev] by simp
        from 1(1) [OF None refl False _ none r search_inv_round [OF inv self run set_to_query none] this]
          run ev
        show ?thesis by (auto simp: round_start_def intro: evolves_trans)
      qed
    qed
  qed
qed


section \<open>From the routing table\<close>

lemma FindClosest_covers:
  assumes "n \<in> set (contacts t)"
  shows "covered target (FindClosest t target K) (nn_id n)"
proof (cases "n \<in> set (FindClosest t target K)")
  case False
  then have "length (contacts t) > K"
    using assms set_take_subset unfolding FindClosest_def
    by (metis length_sort_slice linorder_not_less set_sort_slice take_all)
  then have "K \<le> length (FindClosest t target K)" by (simp add: length_FindClosest)
  with FindClosest_best [OF assms False] show ?thesis by (simp add: covered_def)
qed (simp add: covered_def)

lemma told_node_Nil [simp]: "\<not> told_node self [] n" "\<not> told_value [] v"
  by (simp_all add: told_node_def told_value_def)

lemma search_inv_start:
  "search_inv self (set (contacts t)) target (FindClosest t target K) {} []"
  using set_FindClosest [of t target K] sorted_FindClosest [of target t K]
  by (auto simp: search_inv_def heard_def length_FindClosest intro: FindClosest_covers)

lemma filter_self_FindClosest:
  assumes "node_inv sha node"
  shows "filter (\<lambda>n. nn_id n \<noteq> nn_id (node_self node)) (FindClosest (node_rt node) target K)
       = FindClosest (node_rt node) target K"
proof -
  from assms have "wf_rt (node_rt node)" and "nodeId (node_rt node) = nn_id (node_self node)"
    by (simp_all add: node_inv_def)
  with rt.closest_not_owner [of "node_rt node"] show ?thesis by (auto simp: filter_id_conv)
qed

lemma FindClosest_Nil: "FindClosest t target K = [] \<longleftrightarrow> contacts t = []"
  using length_FindClosest [of t target K] by (cases "contacts t") (auto simp: K_def)

definition empty_table_error :: go_error where
  "empty_table_error = ErrText ''routing table is empty''"

lemma iterativeSearch_eq:
  assumes "node_inv sha (fst s)"
  shows "iterativeSearch env target fv s =
     (if contacts (node_rt (fst s)) = [] then Done (([], None, Some empty_table_error), [], s)
      else search_loop env fv target (FindClosest (node_rt (fst s)) target K) {} [] s)"
  by (simp add: iterativeSearch_def Let_def filter_self_FindClosest [OF assms] FindClosest_Nil
      empty_table_error_def)

lemma iterativeSearch_ends:
  assumes "node_inv sha (fst s)" and "contacts (node_rt (fst s)) \<noteq> []"
    and "iterativeSearch env target fv s = Done (result, log, s')"
  shows "evolves (fst s) (fst s')
     \<and> search_ends env fv (nn_id (node_self (fst s))) (set (contacts (node_rt (fst s)))) target
         result log (snd s')"
  using assms(2,3) search_loop_ends [OF _ search_inv_start refl]
  by (simp add: iterativeSearch_eq [OF assms(1)])

lemma iterativeSearch_evolves:
  assumes "node_inv sha (fst s)" and "iterativeSearch env target fv s = Done (result, log, s')"
  shows "evolves (fst s) (fst s')"
  using assms iterativeSearch_ends [OF assms(1) _ assms(2)]
  by (cases "contacts (node_rt (fst s)) = []") (auto simp: iterativeSearch_eq [OF assms(1)])

text \<open>With no fault of the peers, that is no nil contact in an answer, no goroutine panics.\<close>

definition no_nil :: "answer \<Rightarrow> bool" where
  "no_nil ans = (case ans of Inr (None, res) \<Rightarrow> None \<notin> set res | _ \<Rightarrow> True)"

definition well_behaved :: "'w transport \<Rightarrow> bool" where
  "well_behaved tr \<longleftrightarrow> (\<forall>fv n target w. no_nil (fst (query fv tr n target w)))"


definition calls_ok :: "'w node \<Rightarrow> bool" where
  "calls_ok node \<longleftrightarrow> (\<exists>tr. node_transport node = Some tr \<and> well_behaved tr)"

lemma do_call_ok:
  assumes "calls_ok (fst (rd_state rd))"
  obtains ans rd' where "do_call fv target n rd = Done (ans, rd')" and "no_nil ans"
    and "fst (rd_state rd') = fst (rd_state rd)"
proof -
  from assms obtain tr where tr: "node_transport (fst (rd_state rd)) = Some tr" "well_behaved tr"
    by (auto simp: calls_ok_def)
  obtain ans w where q: "query fv tr n target (snd (rd_state rd)) = (ans, w)" by fastforce
  then have "no_nil ans" using tr(2) unfolding well_behaved_def by (metis fst_conv)
  with that tr(1) q show thesis by (auto simp: do_call_def)
qed

lemma absorb_ok: "no_nil ans \<Longrightarrow> \<exists>rd'. absorb ans rd = Done rd'"
  by (auto simp: absorb_cases no_nil_def Let_def split: sum.splits option.splits prod.splits)

lemma run_round_Done:
  assumes "calls_ok (fst (rd_state rd))" and "\<forall>a. Answered a \<in> set fl \<longrightarrow> no_nil a"
  shows "\<exists>rd'. run_round env fv target todo fl rd = Done rd'"
  using assms
proof (induction env fv target todo fl rd rule: run_round.induct)
  case (1 env fv target todo fl rd)
  show ?case
  proof (cases "todo = [] \<and> fl = []")
    case False
    obtain i rd1 where d: "draw env rd = (i, rd1)" by fastforce
    then have node: "fst (rd_state rd1) = fst (rd_state rd)" by (metis draw_simps(1) snd_conv)
    define j where "j = i mod (length fl + (if todo = [] then 0 else 1))"
    note b = pick_bounds [OF False j_def] and IH = 1(1-3) [OF False d [symmetric] refl j_def]
    note step = run_round.simps [of env fv target todo fl rd] d j_def [symmetric] False
    show ?thesis
    proof (cases "j = length fl")
      case True
      with IH(1) [OF True] 1(4,5) show ?thesis
        by (simp add: step node split del: if_split)
    next
      case j: False
      show ?thesis
      proof (cases "fl ! j")
        case (Calling n)
        obtain ans rd2 where c: "do_call fv target n rd1 = Done (ans, rd2)" "no_nil ans"
          "fst (rd_state rd2) = fst (rd_state rd1)"
          using do_call_ok [of rd1 fv target n] 1(4) node by metis
        have "\<forall>a. Answered a \<in> set (fl[j := Answered ans]) \<longrightarrow> no_nil a"
          using 1(5) c(2) set_update_subset_insert [of fl j "Answered ans"] by blast
        with IH(2) [OF j Calling c(1) refl] 1(4) c(3) node have
          "\<exists>rd'. run_round env fv target todo (fl[j := Answered ans]) rd2 = Done rd'" by simp
        with j Calling c(1) show ?thesis by (simp add: step)
      next
        case (Answered ans)
        then have "no_nil ans" using 1(5) b(2) [OF j] by (metis nth_mem)
        then obtain rd2 where c: "absorb ans rd1 = Done rd2" using absorb_ok by blast
        have "calls_ok (fst (rd_state rd2))"
          using 1(4) node evolves_fields(3) [OF absorb_Done(1) [OF c]] by (simp add: calls_ok_def)
        moreover have "\<forall>a. Answered a \<in> set (remove_nth j fl) \<longrightarrow> no_nil a"
          using 1(5) set_remove_nth_subset by fast
        ultimately have "\<exists>rd'. run_round env fv target todo (remove_nth j fl) rd2 = Done rd'"
          using IH(3) [OF j Answered c] by blast
        with j Answered c show ?thesis by (simp add: step)
      qed
    qed
  qed (simp add: run_round.simps)
qed

lemma search_loop_Done:
  assumes "calls_ok (fst s)"
  shows "\<exists>r. search_loop env fv target closest visited log s = Done r"
  using assms
proof (induction env fv target closest visited log s rule: search_loop.induct)
  case (1 env fv target closest visited log s)
  obtain rd where run: "run_round env fv target (to_query visited closest) []
      (round_start s visited log) = Done rd"
    using run_round_Done [of "round_start s visited log" "[]" env fv target "to_query visited closest"]
      1(2) by auto
  have "calls_ok (fst (rd_state rd))"
    using 1(2) evolves_fields(3) [OF run_round_evolves [OF run]] by (simp add: calls_ok_def)
  note IH = 1(1) [OF _ refl _ run [unfolded round_start_def] _ this]
  show ?case
  proof (cases "ctx_err env (snd s) = None \<and> to_query visited closest \<noteq> [] \<and> rd_found rd = None")
    case True
    with IH run show ?thesis
      by (simp add: search_loop.simps [of env fv target closest] round_start_def Let_def)
  next
    case False
    with run show ?thesis
      by (auto simp: search_loop.simps [of env fv target closest] round_start_def Let_def
          simp del: and_then_Done split: option.splits)
  qed
qed

end
