(* ===== verification/Operations.thy ===== *)
theory Operations
  imports Search
begin

text \<open>
  The operations of \<open>dht/logic.go\<close> that a user of a node calls: joining the network, looking
  up nodes, storing and finding values and blobs.
\<close>

definition LookupNode ::
  "'w env \<Rightarrow> dht_key \<Rightarrow> 'w node \<times> 'w \<Rightarrow>
     ((network_node list \<times> go_error option) \<times> query_log \<times> 'w node \<times> 'w) outcome"
where
  "LookupNode env target s =
     and_then (iterativeSearch env target False s)
       (\<lambda>((nodes, val, err), log, s). Done ((nodes, err), log, s))"

definition Bootstrap ::
  "'w env \<Rightarrow> network_node list \<Rightarrow> 'w node \<times> 'w \<Rightarrow> (go_error option \<times> 'w node \<times> 'w) outcome"
where
  "Bootstrap env bootstrapNodes s =
     (if bootstrapNodes = [] then Done (Some (ErrText ''no bootstrap nodes provided''), s)
      else
        let s = fold add_contact bootstrapNodes s in
        and_then (LookupNode env (nn_id (node_self (fst s))) s)
          (\<lambda>((nodes, err), log, s). Done (err, s)))"

text \<open>
  The replicas are written by one goroutine each, which the environment runs in some order;
  their errors are dropped. The calls made are returned as a ghost.
\<close>

type_synonym store_log = "(network_node \<times> go_error option) list"

function store_all ::
  "'w env \<Rightarrow> 'w transport \<Rightarrow> dht_key \<Rightarrow> value_meta \<Rightarrow> network_node list \<Rightarrow> store_log \<Rightarrow> 'w \<Rightarrow>
     store_log \<times> 'w"
where
  "store_all env tr key data targets sent w =
     (if targets = [] then (sent, w)
      else
        let (i, w) = sched env w; j = i mod length targets;
            (err, w) = tr_store tr (targets ! j) key data w
        in store_all env tr key data (remove_nth j targets) (sent @ [(targets ! j, err)]) w)"
  by pat_completeness auto

termination store_all
  by (relation "measure (\<lambda>(env, tr, key, data, targets, sent, w). length targets)") auto

declare store_all.simps [simp del]

definition StoreValue ::
  "'w env \<Rightarrow> dht_key \<Rightarrow> value_meta \<Rightarrow> 'w node \<times> 'w \<Rightarrow>
     (go_error option \<times> store_log \<times> 'w node \<times> 'w) outcome"
where
  "StoreValue env key data s =
     and_then (LookupNode env key s)
       (\<lambda>((nodes, err), log, s).
          if err \<noteq> None \<and> nodes = [] then Done (err, [], s)
          else
            let nodes = (if StoreK < length nodes then take StoreK nodes else nodes) in
            if nodes = [] then Done (None, [], s)
            else
              (case node_transport (fst s) of
                 None \<Rightarrow> Crash
               | Some tr \<Rightarrow>
                   let (sent, w) = store_all env tr key data nodes [] (snd s) in
                   Done (None, sent, fst s, w)))"

definition blob_meta :: "string \<Rightarrow> dht_key \<Rightarrow> bytes \<Rightarrow> string \<Rightarrow> value_meta" where
  "blob_meta ref self data mimeType =
     \<lparr>Inline = False, Data = None, BlobRef = ref, BlobNode = self,
      Size = of_nat (length data), MimeType = mimeType\<rparr>"

definition StoreBlob ::
  "(bytes \<Rightarrow> bytes) \<Rightarrow> 'w env \<Rightarrow> dht_key \<Rightarrow> bytes \<Rightarrow> string \<Rightarrow> 'w node \<times> 'w \<Rightarrow>
     (go_error option \<times> store_log \<times> 'w node \<times> 'w) outcome"
where
  "StoreBlob sha256 env key data mimeType s =
     (case blobStore (fst s) of
        None \<Rightarrow> Done (Some (ErrText ''storage does not implement BlobStore; use DiskStorage''), [], s)
      | Some bs \<Rightarrow>
          let (res, bs) = PutBlob sha256 bs data;
              s = ((fst s)\<lparr>node_storage := Disk bs\<rparr>, snd s)
          in case res of
               Inl err \<Rightarrow> Done (Some (ErrWrap ''store blob locally'' err), [], s)
             | Inr ref \<Rightarrow>
                 StoreValue env key (blob_meta ref (nn_id (node_self (fst s))) data mimeType) s)"

definition FindValue ::
  "'w env \<Rightarrow> dht_key \<Rightarrow> 'w node \<times> 'w \<Rightarrow>
     ((value_meta option \<times> go_error option) \<times> query_log \<times> 'w node \<times> 'w) outcome"
where
  "FindValue env key s =
     (let (val, st) = storage_get (node_storage (fst s)) key;
          s = ((fst s)\<lparr>node_storage := st\<rparr>, snd s)
      in case val of
           Some v \<Rightarrow> Done ((Some v, None), [], s)
         | None \<Rightarrow>
             and_then (iterativeSearch env key True s)
               (\<lambda>((nodes, val, err), log, s). Done ((val, err), log, s)))"

text \<open>\<open>meta\<close> is a pointer; the data of an inline value may be a nil slice.\<close>

definition FetchBlob ::
  "value_meta option \<Rightarrow> 'w node \<times> 'w \<Rightarrow> ((go_error + bytes option) \<times> 'w) outcome"
where
  "FetchBlob meta s =
     (case meta of
        None \<Rightarrow> Done (Inl (ErrText ''meta is nil''), snd s)
      | Some m \<Rightarrow>
          if Inline m then Done (Inr (Data m), snd s)
          else if BlobRef m = [] then Done (Inl (ErrText ''blob ref is empty''), snd s)
          else
            (case map_option (\<lambda>bs. GetBlob bs (BlobRef m)) (blobStore (fst s)) of
               Some (Inr data) \<Rightarrow> Done (Inr (Some data), snd s)
             | _ \<Rightarrow>
                 let peers = FindClosest (node_rt (fst s)) (BlobNode m) 1 in
                 if peers = [] \<or> nn_id (hd peers) \<noteq> BlobNode m then
                   Done (Inl (ErrText (''blob node '' @ hex_encode (key_bytes (BlobNode m))
                                       @ '' not found in routing table'')), snd s)
                 else
                   (case node_transport (fst s) of
                      None \<Rightarrow> Crash
                    | Some tr \<Rightarrow>
                        let (r, w) = tr_fetch_blob tr (hd peers) (BlobRef m) (snd s) in
                        Done (map_sum id Some r, w))))"

section \<open>Looking up nodes\<close>

lemma LookupNode_Done:
  "LookupNode env target s = Done ((nodes, err), log, s') \<longleftrightarrow>
     (\<exists>val. iterativeSearch env target False s = Done ((nodes, val, err), log, s'))"
  by (cases s') (auto simp: LookupNode_def)

lemma LookupNode_evolves:
  "node_inv sha (fst s) \<Longrightarrow> LookupNode env target s = Done (r, log, s') \<Longrightarrow> evolves (fst s) (fst s')"
  using iterativeSearch_evolves unfolding LookupNode_def by fastforce

text \<open>FIND_NODE answers carry no values.\<close>

definition nodes_only :: "query_log \<Rightarrow> bool" where
  "nodes_only log \<longleftrightarrow> (\<forall>v. \<not> told_value log v)"

lemma do_call_nodes_only:
  "do_call False target n rd = Done (ans, rd') \<Longrightarrow> nodes_only (rd_log rd) \<Longrightarrow> nodes_only (rd_log rd')"
  by (auto simp: do_call_def query_def nodes_only_def told_value_def Let_def
      split: option.splits prod.splits sum.splits)

lemma run_round_nodes_only:
  assumes "run_round env False target todo fl rd = Done rd'"
  shows "nodes_only (rd_log rd) \<longrightarrow> nodes_only (rd_log rd')"
  using assms
  by (induction rule: run_round_invariant [where P = "\<lambda>_ _ r. nodes_only (rd_log rd) \<longrightarrow> nodes_only (rd_log r)"])
    (auto simp: absorb_Done do_call_nodes_only)

lemma search_loop_nodes_only:
  assumes "search_loop env False target closest visited log s = Done (result, log', s')"
    and "nodes_only log"
  shows "nodes_only log'"
proof -
  have "nodes_only log'"
    if "search_loop env fv target closest visited log s = Done (result, log', s')"
      "nodes_only log" "fv = False" for fv
    using that
  proof (induction env fv target closest visited log s rule: search_loop.induct)
    case (1 env fv target closest visited log s)
    show ?case
    proof (cases "ctx_err env (snd s) = None \<and> to_query visited closest \<noteq> []")
      case True
      with 1(2) obtain rd where run: "run_round env fv target (to_query visited closest) []
          \<lparr>rd_state = s, rd_visited = visited, rd_new = [], rd_found = None, rd_log = log\<rparr> = Done rd"
        and rest: "(case rd_found rd of
                 Some v \<Rightarrow> Done (([], Some v, None), rd_log rd, rd_state rd)
               | None \<Rightarrow> search_loop env fv target
                   (merge_closest (sort_ties env (snd (rd_state rd))) target closest (rd_new rd))
                   (rd_visited rd) (rd_log rd) (rd_state rd)) = Done (result, log', s')"
        by (auto simp: search_loop.simps [of env fv target] Let_def)
      have "nodes_only (rd_log rd)" using run_round_nodes_only run 1(3,4) by fastforce
      with 1(1) [OF conjunct1 [OF True] refl conjunct2 [OF True] run] rest 1(4) show ?thesis
        by (cases "rd_found rd") auto
    next
      case False
      with 1(2,3) show ?thesis
        by (auto simp: search_loop.simps [of env fv target] Let_def split: option.splits)
    qed
  qed
  with assms show ?thesis by blast
qed

text \<open>The guarantee of a node lookup.\<close>

lemma LookupNode_ends:
  assumes "node_inv sha (fst s)" and "LookupNode env target s = Done ((nodes, err), log, s')"
    and "contacts (node_rt (fst s)) \<noteq> []"
  shows "search_inv (nn_id (node_self (fst s))) (set (contacts (node_rt (fst s)))) target nodes
      (nn_id ` fst ` set log) log"
    and "err = None \<Longrightarrow> set (ids nodes) \<subseteq> nn_id ` fst ` set log"
    and "err \<noteq> None \<Longrightarrow> err = ctx_err env (snd s')"
proof -
  from assms(2) obtain val where
    i: "iterativeSearch env target False s = Done ((nodes, val, err), log, s')"
    by (auto simp: LookupNode_Done)
  have "nodes_only log"
    using i assms(3) search_loop_nodes_only
    by (fastforce simp: iterativeSearch_eq [OF assms(1)] nodes_only_def)
  with iterativeSearch_ends [OF assms(1,3) i] show
    "search_inv (nn_id (node_self (fst s))) (set (contacts (node_rt (fst s)))) target nodes
      (nn_id ` fst ` set log) log"
    "err = None \<Longrightarrow> set (ids nodes) \<subseteq> nn_id ` fst ` set log"
    "err \<noteq> None \<Longrightarrow> err = ctx_err env (snd s')"
    by (auto simp: search_ends_def nodes_only_def)
qed

end
