(* ===== verification/Dht_Signal.thy ===== *)
theory Dht_Signal
  imports Operations Signal_Message
begin

text \<open>
  \<open>DHTSignaler\<close> of \<open>transport/webrtc/signaling.go\<close>: offers, answers and a doorbell as values of
  the DHT itself. SHA-1 and the clock are arguments.
\<close>

section \<open>The signaler\<close>

text \<open>Whether a node is attached, and whether the poll loop runs or has been cancelled.\<close>

datatype poll_loop = Polling | Cancelled

record dht_signaler =
  da_attached :: bool
  da_loop :: "poll_loop option"

definition NewDHTSignaler :: dht_signaler where
  "NewDHTSignaler = \<lparr>da_attached = False, da_loop = None\<rparr>"

definition Attach :: "dht_signaler \<Rightarrow> dht_signaler" where
  "Attach d = d\<lparr>da_attached := True\<rparr>"

definition ListenOffers_dht :: "dht_signaler \<Rightarrow> dht_signaler" where
  "ListenOffers_dht d = d\<lparr>da_loop := Some Polling\<rparr>"

definition Close_dht :: "dht_signaler \<Rightarrow> go_error option \<times> dht_signaler" where
  "Close_dht d = (None, if da_loop d \<noteq> None then d\<lparr>da_loop := Some Cancelled\<rparr> else d)"

section \<open>The keys\<close>

definition dhtOfferKey :: "(bytes \<Rightarrow> bytes) \<Rightarrow> dht_key \<Rightarrow> dht_key \<Rightarrow> dht_key" where
  "dhtOfferKey sha1 callerID calleeID =
     KeyFromBytes sha1 (bytes_of_string ''rtcof:'' @ key_bytes callerID @ key_bytes calleeID)"

definition dhtAnswerKey :: "(bytes \<Rightarrow> bytes) \<Rightarrow> dht_key \<Rightarrow> dht_key \<Rightarrow> dht_key" where
  "dhtAnswerKey sha1 callerID calleeID =
     KeyFromBytes sha1 (bytes_of_string ''rtcan:'' @ key_bytes callerID @ key_bytes calleeID)"

definition dhtDoorbellKey :: "(bytes \<Rightarrow> bytes) \<Rightarrow> dht_key \<Rightarrow> dht_key" where
  "dhtDoorbellKey sha1 calleeID =
     KeyFromBytes sha1 (bytes_of_string ''rtcbell:'' @ key_bytes calleeID)"

section \<open>SendOffer\<close>

text \<open>\<open>ValueMeta{Inline: true, Data: d}\<close>.\<close>

definition inline_value :: "bytes option \<Rightarrow> value_meta" where
  "inline_value d = zero_meta\<lparr>Inline := True, Data := d\<rparr>"

lemma inline_value_simps [simp]: "Inline (inline_value d)" "Data (inline_value d) = d"
  by (simp_all add: inline_value_def)

text \<open>The answer a value holds, if it is one.\<close>

definition answer_of :: "value_meta option \<times> go_error option \<Rightarrow> string option" where
  "answer_of r =
     (case r of
        (Some m, None) \<Rightarrow>
          if Inline m \<and> 0 < length (slice_bytes (Data m)) then Some (string_of_bytes (slice_bytes (Data m)))
          else None
      | _ \<Rightarrow> None)"

text \<open>The offer and the doorbell are stored.\<close>

definition offer_entry :: "signal_payload \<Rightarrow> 64 word \<Rightarrow> dht_offer_entry" where
  "offer_entry payload now = \<lparr>oe_payload = payload, oe_ts = now\<rparr>"

definition store_offer ::
  "(bytes \<Rightarrow> bytes) \<Rightarrow> 'w env \<Rightarrow> dht_key \<Rightarrow> signal_payload \<Rightarrow> 64 word \<Rightarrow> 'w node \<times> 'w \<Rightarrow>
     (go_error option \<times> 'w node \<times> 'w) outcome"
where
  "store_offer sha1 env target payload now s =
     (let data = entry_bytes (offer_entry payload now); caller = sp_caller payload in
      and_then (StoreValue env (dhtOfferKey sha1 caller target) (inline_value (Some data)) s)
        (\<lambda>(err, sent, s).
           case err of
             Some e \<Rightarrow> Done (Some (ErrWrap ''store offer'' e), s)
           | None \<Rightarrow>
               and_then (StoreValue env (dhtDoorbellKey sha1 target)
                           (inline_value (Some (key_bytes caller))) s)
                 (\<lambda>(err, sent, s). Done (map_option (ErrWrap ''doorbell'') err, s))))"

text \<open>One look at the answer key.\<close>

definition check_answer ::
  "'w env \<Rightarrow> dht_key \<Rightarrow> 'w node \<times> 'w \<Rightarrow> (string option \<times> 'w node \<times> 'w) outcome" where
  "check_answer env answerKey s =
     and_then (FindValue env answerKey s) (\<lambda>(r, log, s). Done (answer_of r, s))"

text \<open>
  The loop that waits for the answer. \<open>select\<close> is the \<open>select\<close> statement and what happens until one
  of its cases is taken, to the node, which goes on serving requests, and to the rest of the
  world: \<open>Some e\<close> is \<open>ctx.Done\<close> with \<open>ctx.Err() = e\<close>, and \<open>None\<close> is the timer. A loop that never ends
  has no value.
\<close>

type_synonym 'w select = "'w node \<times> 'w \<Rightarrow> (go_error option \<times> 'w node \<times> 'w) outcome"

partial_function (option) await_answer ::
  "'w env \<Rightarrow> 'w select \<Rightarrow> dht_key \<Rightarrow> 'w node \<times> 'w \<Rightarrow> ((go_error + string) \<times> 'w node \<times> 'w) outcome option"
where
  "await_answer env select answerKey s =
     (case select s of
        Crash \<Rightarrow> Some Crash
      | Done (ctx, s) \<Rightarrow>
          (case ctx of
             Some e \<Rightarrow> Some (Done (Inl (ErrWrap ''signaling'' e), s))
           | None \<Rightarrow>
               (case check_answer env answerKey s of
                  Crash \<Rightarrow> Some Crash
                | Done (found, s) \<Rightarrow>
                    (case found of
                       Some answer \<Rightarrow> Some (Done (Inr answer, s))
                     | None \<Rightarrow> await_answer env select answerKey s))))"

declare await_answer.simps [code]

definition SendOffer_dht ::
  "(bytes \<Rightarrow> bytes) \<Rightarrow> 'w env \<Rightarrow> 'w select \<Rightarrow> bool \<Rightarrow> dht_key \<Rightarrow> signal_payload \<Rightarrow> 64 word \<Rightarrow> 'w node \<times> 'w \<Rightarrow>
     ((go_error + string) \<times> 'w node \<times> 'w) outcome option"
where
  "SendOffer_dht sha1 env select attached target payload now s =
     (if \<not> attached then Some (Done (Inl (ErrText ''DHTSignaler: node not attached''), s))
      else
        (case store_offer sha1 env target payload now s of
           Crash \<Rightarrow> Some Crash
         | Done (err, s) \<Rightarrow>
             (case err of
                Some e \<Rightarrow> Some (Done (Inl e, s))
              | None \<Rightarrow> await_answer env select (dhtAnswerKey sha1 (sp_caller payload) target) s)))"

section \<open>pollOffers\<close>

text \<open>
  The caller at the doorbell, and its offer unless that is older than 30 seconds; the wrap-around
  of \<open>time.Unix\<close> for seconds near the ends of int64 is left out.
\<close>

definition bell_caller :: "value_meta option \<times> go_error option \<Rightarrow> dht_key option" where
  "bell_caller r =
     (case r of
        (Some m, None) \<Rightarrow>
          if Inline m \<and> length (slice_bytes (Data m)) = 20 then Some (key_of_slice (slice_bytes (Data m)))
          else None
      | _ \<Rightarrow> None)"

definition nano :: int where "nano = 1000000000"

definition poll_offer :: "int \<Rightarrow> value_meta option \<times> go_error option \<Rightarrow> dht_offer_entry option" where
  "poll_offer now_ns r =
     (case r of
        (Some m, None) \<Rightarrow>
          if \<not> Inline m then None
          else
            (case read_entry (slice_bytes (Data m)) of
               Inl err \<Rightarrow> None
             | Inr entry \<Rightarrow> if 30 * nano < now_ns - sint (oe_ts entry) * nano then None else Some entry)
      | _ \<Rightarrow> None)"

text \<open>
  The local state of the loop: the set \<open>processing\<close>, the caller whose offer is being looked up,
  and the goroutines that have an offer to handle.
\<close>

record poll_state =
  po_processing :: "dht_key set"
  po_caller :: "dht_key option"
  po_running :: "(dht_key \<times> dht_offer_entry) list"

definition poll_start :: poll_state where
  "poll_start = \<lparr>po_processing = {}, po_caller = None, po_running = []\<rparr>"

definition poll_claim :: "dht_key \<Rightarrow> poll_state \<Rightarrow> poll_state" where
  "poll_claim caller ps =
     ps\<lparr>po_processing := insert caller (po_processing ps), po_caller := Some caller\<rparr>"

definition poll_decide :: "dht_key \<Rightarrow> dht_offer_entry option \<Rightarrow> poll_state \<Rightarrow> poll_state" where
  "poll_decide caller offer ps =
     (case offer of
        None \<Rightarrow> ps\<lparr>po_processing := po_processing ps - {caller}, po_caller := None\<rparr>
      | Some entry \<Rightarrow> ps\<lparr>po_running := po_running ps @ [(caller, entry)], po_caller := None\<rparr>)"

text \<open>One tick of the loop.\<close>

definition poll_tick ::
  "(bytes \<Rightarrow> bytes) \<Rightarrow> 'w env \<Rightarrow> bool \<Rightarrow> dht_key \<Rightarrow> int \<Rightarrow> poll_state \<times> 'w node \<times> 'w \<Rightarrow>
     (poll_state \<times> 'w node \<times> 'w) outcome"
where
  "poll_tick sha1 env attached local_id now_ns st =
     (let (ps, s) = st in
      if \<not> attached then Done (ps, s)
      else
        and_then (FindValue env (dhtDoorbellKey sha1 local_id) s)
          (\<lambda>(r, log, s).
             case bell_caller r of
               None \<Rightarrow> Done (ps, s)
             | Some caller \<Rightarrow>
                 if caller \<in> po_processing ps then Done (ps, s)
                 else
                   and_then (FindValue env (dhtOfferKey sha1 caller local_id) s)
                     (\<lambda>(r, log, s).
                        Done (poll_decide caller (poll_offer now_ns r) (poll_claim caller ps), s))))"

text \<open>
  The goroutine of an offer: the answer of the handler is stored and the doorbell is cleared,
  then the caller is no longer being processed.
\<close>

definition poll_finish :: "nat \<Rightarrow> poll_state \<Rightarrow> poll_state" where
  "poll_finish i ps =
     ps\<lparr>po_processing := po_processing ps - {fst (po_running ps ! i)},
        po_running := remove_nth i (po_running ps)\<rparr>"

definition answer_offer ::
  "(bytes \<Rightarrow> bytes) \<Rightarrow> 'w env \<Rightarrow> dht_key \<Rightarrow> dht_key \<Rightarrow> go_error + string \<Rightarrow> 'w node \<times> 'w \<Rightarrow> ('w node \<times> 'w) outcome"
where
  "answer_offer sha1 env local_id callerID result s =
     (case result of
        Inl err \<Rightarrow> Done s
      | Inr answer \<Rightarrow>
          and_then (StoreValue env (dhtAnswerKey sha1 callerID local_id)
                      (inline_value (Some (bytes_of_string answer))) s)
            (\<lambda>(err, sent, s).
               and_then (StoreValue env (dhtDoorbellKey sha1 local_id) (inline_value None) s)
                 (\<lambda>(err, sent, s). Done s)))"

section \<open>The loop and its goroutines\<close>

text \<open>Every interleaving of the loop with the goroutines it starts.\<close>

inductive poll_step :: "poll_state \<Rightarrow> poll_state \<Rightarrow> bool" where
  claim: "po_caller ps = None \<Longrightarrow> caller \<notin> po_processing ps \<Longrightarrow> poll_step ps (poll_claim caller ps)"
| decide: "po_caller ps = Some caller \<Longrightarrow> poll_step ps (poll_decide caller offer ps)"
| finish: "i < length (po_running ps) \<Longrightarrow> poll_step ps (poll_finish i ps)"

text \<open>Each caller that is being processed is looked up or handled exactly once.\<close>

definition poll_ok :: "poll_state \<Rightarrow> bool" where
  "poll_ok ps \<longleftrightarrow> distinct (map fst (po_running ps))
     \<and> po_processing ps = set (map fst (po_running ps)) \<union> set_option (po_caller ps)
     \<and> (\<forall>c. po_caller ps = Some c \<longrightarrow> c \<notin> set (map fst (po_running ps)))"

lemma set_remove_nth_distinct:
  "distinct xs \<Longrightarrow> i < length xs \<Longrightarrow> set (remove_nth i xs) = set xs - {xs ! i}"
  using set_remove_nth [of i xs] nth_notin_remove_nth [of xs i] by auto

lemma poll_step_ok: "poll_step ps qs \<Longrightarrow> poll_ok ps \<Longrightarrow> poll_ok qs"
proof (induction rule: poll_step.induct)
  case (claim ps caller)
  then show ?case by (auto simp: poll_ok_def poll_claim_def)
next
  case (decide ps caller offer)
  then show ?case by (auto simp: poll_ok_def poll_decide_def split: option.split)
next
  case (finish i ps)
  let ?ids = "map fst (po_running ps)"
  have i: "?ids ! i = fst (po_running ps ! i)" "i < length ?ids" using finish.hyps by simp_all
  have "set (remove_nth i ?ids) = set ?ids - {fst (po_running ps ! i)}"
    using set_remove_nth_distinct [of ?ids i] finish.prems i by (simp add: poll_ok_def)
  moreover have "fst (po_running ps ! i) \<in> set ?ids" using i by (metis nth_mem)
  ultimately show ?case
    using finish.prems unfolding poll_ok_def poll_finish_def
    by (auto simp del: set_map simp: map_remove_nth distinct_remove_nth)
qed

interpretation poll: state_machine poll_start poll_step poll_ok
  by unfold_locales (auto intro: poll_step_ok, simp add: poll_ok_def poll_start_def)

end
