(* ===== verification/Direct_Signal.thy ===== *)
theory Direct_Signal
  imports Central Dht_Signal
begin

text \<open>
  \<open>DirectSignaler\<close> and \<open>HybridSignaler\<close> of \<open>transport/webrtc/signaling.go\<close>: offers by an HTTP
  request to the callee, whose port is in its metadata, or over the DHT if it has none; and
  what \<open>Transport.Listen\<close> does for each kind of signaler.
\<close>

section \<open>The server side\<close>

text \<open>
  \<open>ds_server\<close> is nil, or an HTTP server that serves or has been shut down. \<open>ListenOffers\<close> writes
  \<open>local.Meta["sig_port"]\<close> of the local node, which every contact later carries along.
\<close>

datatype http_server = Serving | ShutDown

record direct_signaler =
  ds_port :: int
  ds_server :: "http_server option"

definition NewDirectSignaler :: "int \<Rightarrow> direct_signaler" where
  "NewDirectSignaler port = \<lparr>ds_port = port, ds_server = None\<rparr>"

definition set_sig_port :: "int \<Rightarrow> network_node \<Rightarrow> network_node" where
  "set_sig_port port local_node =
     local_node\<lparr>nn_meta :=
       Some ((case nn_meta local_node of None \<Rightarrow> Map.empty | Some m \<Rightarrow> m)(''sig_port'' \<mapsto> int_text port))\<rparr>"

definition ListenOffers_direct ::
  "direct_signaler \<Rightarrow> network_node \<Rightarrow> direct_signaler \<times> network_node" where
  "ListenOffers_direct ds local_node =
     (ds\<lparr>ds_server := Some Serving\<rparr>, set_sig_port (ds_port ds) local_node)"

definition Close_direct :: "go_error option \<Rightarrow> direct_signaler \<Rightarrow> go_error option \<times> direct_signaler" where
  "Close_direct shutdown ds =
     (case ds_server ds of
        None \<Rightarrow> (None, ds)
      | Some srv \<Rightarrow> (shutdown, ds\<lparr>ds_server := Some ShutDown\<rparr>))"

text \<open>
  The handler of \<open>/offer\<close>: status and body of the response. \<open>Decode\<close> reads the first JSON value
  of the body; \<open>http.Error\<close> ends its text with a line feed.
\<close>

definition decode_first :: "string \<Rightarrow> json option" where
  "decode_first s = map_option fst (parse_value (Suc (length s)) s)"

definition http_error :: "go_error \<Rightarrow> nat \<Rightarrow> nat \<times> string" where
  "http_error err status = (status, err_text err @ [CHR 0x0A])"

definition serve_offer ::
  "(signal_payload \<Rightarrow> 's \<Rightarrow> (go_error + string) \<times> 's) \<Rightarrow> string \<Rightarrow> 's \<Rightarrow> (nat \<times> string) \<times> 's"
where
  "serve_offer handler body s =
     (case (case decode_first body of None \<Rightarrow> Inl syntax_error | Some j \<Rightarrow> payload_of_json j) of
        Inl err \<Rightarrow> (http_error err 400, s)
      | Inr p \<Rightarrow>
          (case handler p s of
             (Inl err, s) \<Rightarrow> (http_error err 500, s)
           | (Inr answer, s) \<Rightarrow> ((200, answer), s)))"

lemma decode_first_print [simp]: "decode_first (print_json j) = Some j"
  using parse_value_printed [of j "Suc (length (print_json j))" "[]"] by (simp add: decode_first_def)

section \<open>The client side\<close>

text \<open>
  The exchange is the HTTP client: the request fails, or it gives a status and what was read of
  the body, with the error that ended the reading. \<open>ip_text\<close> is \<open>net.IP.String\<close>.
\<close>

type_synonym http_response = "nat \<times> string \<times> go_error option"

definition offer_url :: "(bytes option \<Rightarrow> string) \<Rightarrow> network_node \<Rightarrow> string" where
  "offer_url ip_text target =
     ''http://'' @ ip_text (nn_address target) @ '':'' @ meta_get target ''sig_port'' @ ''/offer''"

definition SendOffer_direct ::
  "(bytes option \<Rightarrow> string) \<Rightarrow>
   (string \<Rightarrow> string \<Rightarrow> 'w \<Rightarrow> (go_error + http_response) \<times> 'w) \<Rightarrow>
   network_node \<Rightarrow> signal_payload \<Rightarrow> 'w \<Rightarrow> (go_error + string) \<times> 'w"
where
  "SendOffer_direct ip_text exchange target payload w =
     (if meta_get target ''sig_port'' = [] then
        (Inl (ErrText (''DirectSignaler: target '' @ id_hex (nn_id target) @ '' has no sig_port in Meta'')), w)
      else
        (case exchange (offer_url ip_text target) (print_json (payload_to_json payload)) w of
           (Inl err, w) \<Rightarrow> (Inl (ErrWrap ''DirectSignaler'' err), w)
         | (Inr (status, body, read_err), w) \<Rightarrow>
             if status \<noteq> 200 then
               (Inl (ErrText (''DirectSignaler: status '' @ nat_digits status @ '': '' @ body)), w)
             else (case read_err of Some err \<Rightarrow> Inl err | None \<Rightarrow> Inr body, w)))"

section \<open>The hybrid\<close>

text \<open>The world of the DHT is shared: the node that the DHT signaler is attached to, and the network.\<close>

definition SendOffer_hybrid ::
  "(bytes option \<Rightarrow> string) \<Rightarrow>
   (string \<Rightarrow> string \<Rightarrow> 'w \<Rightarrow> (go_error + http_response) \<times> 'w) \<Rightarrow>
   (bytes \<Rightarrow> bytes) \<Rightarrow> 'w env \<Rightarrow> 'w select \<Rightarrow> bool \<Rightarrow> 64 word \<Rightarrow>
   network_node \<Rightarrow> signal_payload \<Rightarrow> 'w node \<times> 'w \<Rightarrow> ((go_error + string) \<times> 'w node \<times> 'w) outcome option"
where
  "SendOffer_hybrid ip_text exchange sha1 env select attached now target payload s =
     (if meta_get target ''sig_port'' \<noteq> [] then
        let (r, w) = SendOffer_direct ip_text exchange target payload (snd s) in Some (Done (r, fst s, w))
      else SendOffer_dht sha1 env select attached (nn_id target) payload now s)"

text \<open>\<open>ListenOffers\<close> of the hybrid starts both; \<open>Close\<close> closes both and reports the first error.\<close>

record hybrid_signaler =
  hs_direct :: direct_signaler
  hs_dht :: dht_signaler

definition NewHybridSignaler :: "int \<Rightarrow> hybrid_signaler" where
  "NewHybridSignaler directPort =
     \<lparr>hs_direct = NewDirectSignaler directPort, hs_dht = NewDHTSignaler\<rparr>"

definition ListenOffers_hybrid ::
  "hybrid_signaler \<Rightarrow> network_node \<Rightarrow> hybrid_signaler \<times> network_node" where
  "ListenOffers_hybrid h local_node =
     (let (direct, local_node) = ListenOffers_direct (hs_direct h) local_node in
      (\<lparr>hs_direct = direct, hs_dht = ListenOffers_dht (hs_dht h)\<rparr>, local_node))"

definition Close_hybrid :: "go_error option \<Rightarrow> hybrid_signaler \<Rightarrow> go_error option \<times> hybrid_signaler" where
  "Close_hybrid shutdown h =
     (let (err1, direct) = Close_direct shutdown (hs_direct h); (err2, dht) = Close_dht (hs_dht h) in
      (if err1 \<noteq> None then err1 else err2, \<lparr>hs_direct = direct, hs_dht = dht\<rparr>))"

section \<open>Transport.Listen\<close>

text \<open>
  The DHT signaler and the hybrid get the handler's node if they have none and the handler is a
  node; then the signaler listens, with the outcomes of the dial and the registration for the
  central one.
\<close>

datatype signaler = Central central | Direct direct_signaler | DHT dht_signaler | Hybrid hybrid_signaler

definition attach_node :: "bool \<Rightarrow> signaler \<Rightarrow> signaler" where
  "attach_node hasDHTNode sig =
     (case sig of
        DHT d \<Rightarrow> DHT (if hasDHTNode \<and> \<not> da_attached d then Attach d else d)
      | Hybrid h \<Rightarrow>
          Hybrid (if hasDHTNode \<and> \<not> da_attached (hs_dht h) then h\<lparr>hs_dht := Attach (hs_dht h)\<rparr> else h)
      | _ \<Rightarrow> sig)"

definition Listen_rtc ::
  "bool \<Rightarrow> go_error option \<Rightarrow> go_error option \<Rightarrow> signaler \<Rightarrow> network_node \<Rightarrow>
     go_error option \<times> signaler \<times> network_node"
where
  "Listen_rtc hasDHTNode dial write sig local_node =
     (case attach_node hasDHTNode sig of
        Central st \<Rightarrow>
          (case ListenOffers_central dial write (st\<lparr>ce_local := nn_id local_node\<rparr>) of
             (Inl err, st) \<Rightarrow> (Some err, Central st, local_node)
           | (Inr m, st) \<Rightarrow> (None, Central st, local_node))
      | Direct d \<Rightarrow> let (d, local_node) = ListenOffers_direct d local_node in (None, Direct d, local_node)
      | DHT d \<Rightarrow> (None, DHT (ListenOffers_dht d), local_node)
      | Hybrid h \<Rightarrow> let (h, local_node) = ListenOffers_hybrid h local_node in (None, Hybrid h, local_node))"

lemma sig_port_listening [simp]:
  "meta_get (set_sig_port port n) ''sig_port'' = int_text port"
  "nn_id (set_sig_port port n) = nn_id n"
  by (simp_all add: set_sig_port_def meta_get_def)

lemma int_text_nonempty [simp]: "int_text i \<noteq> []"
  by (simp add: int_text_def)

text \<open>The exchange with a network where one server listens, at a URL; other requests fail.\<close>

definition http_link ::
  "string \<Rightarrow> (signal_payload \<Rightarrow> 's \<Rightarrow> (go_error + string) \<times> 's) \<Rightarrow> string \<Rightarrow> string \<Rightarrow> 's \<Rightarrow>
     (go_error + http_response) \<times> 's"
where
  "http_link listens handler url body s =
     (if url \<noteq> listens then (Inl (ErrText ''connection refused''), s)
      else (case serve_offer handler body s of ((status, text), s) \<Rightarrow> (Inr (status, text, None), s)))"

lemma serve_offer_payload:
  "serve_offer handler (print_json (payload_to_json p)) s =
     (case handler p s of
        (Inl err, s) \<Rightarrow> (http_error err 500, s)
      | (Inr answer, s) \<Rightarrow> ((200, answer), s))"
  by (simp add: serve_offer_def)

end
