(* ===== verification/Demo_Network.thy ===== *)
theory Demo_Network
  imports Operations Samples
begin

text \<open>
  A network small enough to run the lookup on: the node with the zero key knows two peers, and
  both tell it about a third, the target. The peers' ids start with a set bit, so that all of
  them belong to one bucket.
\<close>

section \<open>The peers\<close>

definition peer_a :: network_node where "peer_a = peer 128 0"
definition peer_b :: network_node where "peer_b = peer 129 0"
definition peer_c :: network_node where "peer_c = peer 131 0"

lemma peer_ids [simp]:
  "nn_id peer_a = key_of_slice [128, 0]" "nn_id peer_b = key_of_slice [129, 0]"
  "nn_id peer_c = key_of_slice [131, 0]"
  by (simp_all add: peer_a_def peer_b_def peer_c_def)

lemma distances_to_c:
  "GetKeyDistance (key_of_slice [128, 0]) (key_of_slice [131, 0]) = 3 * 256 ^ 19"
  "GetKeyDistance (key_of_slice [129, 0]) (key_of_slice [131, 0]) = 2 * 256 ^ 19"
  "GetKeyDistance (key_of_slice [131, 0]) (key_of_slice [131, 0]) = 0"
  by (simp_all add: GetKeyDistance_def copy_into_def set_bytes_Cons)

section \<open>The transport\<close>

text \<open>The two peers answer with the third, which knows nobody; nothing fails.\<close>

definition demo_answer :: "network_node \<Rightarrow> network_node option list" where
  "demo_answer n = (if nn_id n = nn_id peer_c then [] else [Some peer_c])"

definition demo_transport :: "nat transport" where
  "demo_transport =
     \<lparr>tr_ping = (\<lambda>n w. (None, w)), tr_store = (\<lambda>n k v w. (None, w)),
      tr_find_node = (\<lambda>n k w. (Inr (demo_answer n), w)),
      tr_find_value = (\<lambda>n k w. (Inr (None, demo_answer n), w)),
      tr_fetch_blob = (\<lambda>n r w. (Inl ErrNotFound, w)),
      tr_listen = (\<lambda>w. (None, w)), tr_close = (\<lambda>w. (None, w))\<rparr>"

definition demo_env :: "nat env" where
  "demo_env = \<lparr>ctx_err = (\<lambda>w. None), sched = (\<lambda>w. (0, w)), sort_ties = (\<lambda>w. [])\<rparr>"

definition demo_node :: "nat node" where
  "demo_node =
     \<lparr>node_self = peer 0 0, node_storage = new_memory, node_transport = Some demo_transport,
      node_rt = last_bucket [peer_a, peer_b]\<rparr>"

lemma demo_simps [simp]:
  "ctx_err demo_env = (\<lambda>w. None)" "sched demo_env = (\<lambda>w. (0, w))" "sort_ties demo_env = (\<lambda>w. [])"
  "node_self demo_node = peer 0 0" "node_storage demo_node = new_memory"
  "node_transport demo_node = Some demo_transport" "node_rt demo_node = last_bucket [peer_a, peer_b]"
  "tr_find_node demo_transport n k w = (Inr (demo_answer n), w)"
  "tr_find_value demo_transport n k w = (Inr (None, demo_answer n), w)"
  "tr_store demo_transport n k v w = (None, w)"
  by (simp_all add: demo_env_def demo_node_def demo_transport_def)

lemma demo_answers [simp]:
  "demo_answer peer_a = [Some peer_c]" "demo_answer peer_b = [Some peer_c]" "demo_answer peer_c = []"
  by (simp_all add: demo_answer_def)

lemma key_of_slice_zeros: "key_of_slice [0, 0] = zero_key"
  by simp

lemma demo_node_inv: "node_inv sha demo_node"
proof -
  have "wf_rt (last_bucket [peer_a, peer_b] :: nat routing_table)"
    unfolding last_bucket_def
    by (rule set_bucket_wf [OF NewRoutingTable_wf])
      (auto simp: bucket_placed_def K_def dist_index_zero_key NewRoutingTable_def)
  then show ?thesis by (simp add: node_inv_def key_of_slice_zeros)
qed


section \<open>A run\<close>

lemma demo_add_c [simp]:
  "Add (last_bucket [peer_a, peer_b]) peer_c w = (last_bucket [peer_a, peer_b, peer_c], w)"
  "Add (last_bucket [peer_a, peer_b, peer_c]) peer_c w = (last_bucket [peer_a, peer_b, peer_c], w)"
  by (simp_all add: Add_def peer_c_def K_def peer_a_def peer_b_def add_begin_last_bucket)

lemmas sort_eval = sort_slice_def sort_key_def sort_nodes_def

lemma demo_closest [simp]:
  "FindClosest (last_bucket [peer_a, peer_b]) (key_of_slice [131, 0]) K = [peer_b, peer_a]"
  by (simp add: FindClosest_def sort_eval distances_to_c K_def)

abbreviation demo_node_c :: "nat node" where
  "demo_node_c \<equiv> demo_node\<lparr>node_rt := last_bucket [peer_a, peer_b, peer_c]\<rparr>"

lemma demo_round_1:
  "run_round demo_env fv (nn_id peer_c) [peer_b, peer_a] [] (round_start (demo_node, 0) {} []) =
     Done \<lparr>rd_state = (demo_node_c, 0), rd_visited = {nn_id peer_a, nn_id peer_b},
       rd_new = [peer_c, peer_c], rd_found = None,
       rd_log = [(peer_b, Inr (None, [Some peer_c])), (peer_a, Inr (None, [Some peer_c]))]\<rparr>"
  by (simp add: run_round.simps draw_def launch_next_def do_call_def absorb_def query_def
      round_start_def add_contact_def Let_def)


abbreviation demo_log :: query_log where
  "demo_log \<equiv> [(peer_b, Inr (None, [Some peer_c])), (peer_a, Inr (None, [Some peer_c])),
     (peer_c, Inr (None, [])), (peer_c, Inr (None, []))]"

lemma demo_round_2:
  "run_round demo_env fv (nn_id peer_c) [peer_c, peer_c] []
     (round_start (demo_node_c, 0) {nn_id peer_a, nn_id peer_b} (take 2 demo_log)) =
     Done \<lparr>rd_state = (demo_node_c, 0), rd_visited = {nn_id peer_c, nn_id peer_a, nn_id peer_b},
       rd_new = [], rd_found = None, rd_log = demo_log\<rparr>"
  by (simp add: run_round.simps draw_def launch_next_def do_call_def absorb_def query_def
      round_start_def Let_def)

lemma demo_merge:
  "merge_closest [] (nn_id peer_c) [peer_b, peer_a] [peer_c, peer_c] = [peer_c, peer_c, peer_b, peer_a]"
  "merge_closest [] (nn_id peer_c) [peer_c, peer_c, peer_b, peer_a] [] = [peer_c, peer_c, peer_b, peer_a]"
  by (simp_all add: merge_closest_def sort_eval distances_to_c K_def)

lemma demo_search:
  "iterativeSearch demo_env (nn_id peer_c) fv (demo_node, 0) =
     Done (([peer_c, peer_c, peer_b, peer_a], None, if fv then Some ErrNotFound else None),
           demo_log, demo_node_c, 0)"
proof -
  note step = search_loop.simps to_query_def Alpha_def
  have "search_loop demo_env fv (nn_id peer_c) [peer_b, peer_a] {} [] (demo_node, 0) =
     Done (([peer_c, peer_c, peer_b, peer_a], None, if fv then Some ErrNotFound else None),
           demo_log, demo_node_c, 0)"
    using demo_round_1 demo_round_2 demo_merge by (simp add: step round_start_def)
  then show ?thesis
    using iterativeSearch_eq [of "\<lambda>b. b" "(demo_node, 0)"] demo_node_inv by simp
qed

end
