(* ===== verification/Lookup_Guarantees.thy ===== *)
theory Lookup_Guarantees
  imports Demo_Network Component_Guarantees
begin

text \<open>
  What the operations of \<open>dht/logic.go\<close> guarantee, stated for every environment: every
  scheduling of the goroutines, every answer of the peers. The witnesses run the small
  network of \<open>Demo_Network\<close>.
\<close>

section \<open>Looking up nodes\<close>

lemma LookupNode_empty_table:
  assumes "node_inv sha (fst s)" and "contacts (node_rt (fst s)) = []"
  shows "LookupNode env target s = Done (([], Some empty_table_error), [], s)"
  by (simp add: LookupNode_def iterativeSearch_eq [OF assms(1)] assms(2))

lemma heard_iff:
  "n \<in> heard self known log \<longleftrightarrow>
     n \<in> known \<or> nn_id n \<noteq> self \<and> (\<exists>m res. (m, Inr (None, res)) \<in> set log \<and> Some n \<in> set res)"
  by (simp add: heard_def told_node_def)

lemma heard_not_self:
  assumes "node_inv sha node" and "n \<in> heard (nn_id (node_self node)) (set (contacts (node_rt node))) log"
  shows "nn_id n \<noteq> nn_id (node_self node)"
  using assms wf_rt_contacts [of "node_rt node" n]
  by (auto simp: heard_def told_node_def node_inv_def)

text \<open>C3: the result of a node lookup is sorted by the distance to the target, holds at most K
  contacts, never the node itself, and only contacts of the routing table or of an answer
  received during the lookup.\<close>

theorem lookup_result_sound:
  assumes "node_inv sha (fst s)" and "LookupNode env target s = Done ((nodes, err), log, s')"
  shows "sorted (map (\<lambda>n. GetKeyDistance (nn_id n) target) nodes) \<and> length nodes \<le> K
     \<and> (\<forall>n \<in> set nodes. nn_id n \<noteq> nn_id (node_self (fst s))
          \<and> (n \<in> set (contacts (node_rt (fst s)))
             \<or> (\<exists>m res. (m, Inr (None, res)) \<in> set log \<and> Some n \<in> set res)))"
proof (cases "contacts (node_rt (fst s)) = []")
  case True
  with assms LookupNode_empty_table show ?thesis by fastforce
next
  case False
  note inv = LookupNode_ends(1) [OF assms False, unfolded search_inv_def]
  have "nn_id n \<noteq> nn_id (node_self (fst s)) \<and> (n \<in> set (contacts (node_rt (fst s)))
      \<or> (\<exists>m res. (m, Inr (None, res)) \<in> set log \<and> Some n \<in> set res))" if "n \<in> set nodes" for n
  proof -
    have "n \<in> heard (nn_id (node_self (fst s))) (set (contacts (node_rt (fst s)))) log"
      using inv that by (elim conjE) (rule subsetD)
    with heard_not_self [OF assms(1)] show ?thesis unfolding heard_iff by blast
  qed
  moreover note inv [THEN conjunct1] inv [THEN conjunct2, THEN conjunct1]
  ultimately show ?thesis by blast
qed

lemma demo_LookupNode:
  "LookupNode demo_env (nn_id peer_c) (demo_node, 0) =
     Done (([peer_c, peer_c, peer_b, peer_a], None), demo_log, demo_node_c, 0)"
  by (simp only: LookupNode_def demo_search) simp

lemma lookup_result_sound_witness:
  "length [peer_c, peer_c, peer_b, peer_a] \<le> K"
  using lookup_result_sound [OF _ demo_LookupNode, of "\<lambda>b. b"] demo_node_inv by simp

text \<open>C1: a node lookup that ends without an error has asked every contact it returns, and
  leaves out a contact it heard of, from the routing table or from an answer, only when it
  returns K entries that are all at least as near to the target.\<close>

theorem lookup_nearest:
  assumes "node_inv sha (fst s)" and "LookupNode env target s = Done ((nodes, None), log, s')"
  shows "set (ids nodes) \<subseteq> nn_id ` fst ` set log
     \<and> (\<forall>n. n \<in> set (contacts (node_rt (fst s)))
             \<or> nn_id n \<noteq> nn_id (node_self (fst s))
               \<and> (\<exists>m res. (m, Inr (None, res)) \<in> set log \<and> Some n \<in> set res) \<longrightarrow>
          nn_id n \<in> set (ids nodes)
          \<or> length nodes = K
            \<and> (\<forall>m \<in> set nodes. GetKeyDistance (nn_id m) target \<le> GetKeyDistance (nn_id n) target))"
proof -
  have ne: "contacts (node_rt (fst s)) \<noteq> []"
    using assms LookupNode_empty_table [OF assms(1), of env target] by auto
  note ends = LookupNode_ends [OF assms ne]
  have "length nodes \<le> K" using ends(1) by (simp add: search_inv_def)
  then have "nn_id n \<in> set (ids nodes) \<or> length nodes = K
      \<and> (\<forall>m \<in> set nodes. GetKeyDistance (nn_id m) target \<le> GetKeyDistance (nn_id n) target)"
    if "n \<in> heard (nn_id (node_self (fst s))) (set (contacts (node_rt (fst s)))) log" for n
    using ends(1) that by (auto simp: search_inv_def covered_def)
  then show ?thesis
    using ends(2) [OF refl] unfolding heard_iff by blast
qed

lemma lookup_nearest_witness:
  "nn_id peer_a \<in> set (ids [peer_c, peer_c, peer_b, peer_a])"
  using lookup_nearest [OF _ demo_LookupNode, of "\<lambda>b. b"] demo_node_inv by simp

section \<open>The operations return\<close>

lemma iterativeSearch_returns:
  "calls_ok (fst s) \<Longrightarrow> \<exists>nodes val err log s'. iterativeSearch env t fv s = Done ((nodes, val, err), log, s')"
  using search_loop_Done [of s env fv t] by (cases s) (force simp: iterativeSearch_def Let_def)

lemma LookupNode_returns:
  "calls_ok (fst s) \<Longrightarrow> \<exists>nodes err log s'. LookupNode env t s = Done ((nodes, err), log, s')"
  using iterativeSearch_returns [of s env t False] by (fastforce simp: LookupNode_Done)

lemma calls_ok_evolves: "evolves node node' \<Longrightarrow> calls_ok node \<Longrightarrow> calls_ok node'"
  by (simp add: calls_ok_def evolves_def)

lemma StoreValue_returns:
  assumes "node_inv sha (fst s)" and "calls_ok (fst s)"
  shows "\<exists>err sent s'. StoreValue env key data s = Done (err, sent, s')"
proof -
  obtain nodes err log s' where l: "LookupNode env key s = Done ((nodes, err), log, s')"
    using LookupNode_returns [OF assms(2)] by blast
  from calls_ok_evolves [OF LookupNode_evolves [OF assms(1) l] assms(2)]
  obtain tr where "node_transport (fst s') = Some tr" by (auto simp: calls_ok_def)
  with l show ?thesis
    by (cases s') (auto simp: StoreValue_def Let_def simp del: and_then_Done split: prod.splits)
qed

lemma FindValue_returns:
  assumes "calls_ok (fst s)"
  shows "\<exists>val err log s'. FindValue env key s = Done ((val, err), log, s')"
proof -
  obtain val st where g: "storage_get (node_storage (fst s)) key = (val, st)" by fastforce
  let ?s = "((fst s)\<lparr>node_storage := st\<rparr>, snd s)"
  have "calls_ok (fst ?s)" using assms by (simp add: calls_ok_def)
  from iterativeSearch_returns [OF this, of env key True]
  obtain nodes v err log s' where "iterativeSearch env key True ?s = Done ((nodes, v, err), log, s')"
    by blast
  then show ?thesis by (cases val) (simp_all add: FindValue_def g)
qed

lemma Bootstrap_returns:
  assumes "calls_ok (fst s)"
  shows "\<exists>err s'. Bootstrap env ns s = Done (err, s')"
proof -
  let ?s = "fold add_contact ns s"
  obtain nodes err log s' where "LookupNode env (nn_id (node_self (fst ?s))) ?s = Done ((nodes, err), log, s')"
    using LookupNode_returns calls_ok_evolves [OF evolves_add_contacts assms] by blast
  then show ?thesis by (simp add: Bootstrap_def Let_def split: prod.splits)
qed

text \<open>C4: the operations always return: with a transport whose answers hold no nil contact, no
  schedule and no behaviour of the peers makes a lookup, a store, a search for a value or the
  join of a network run for ever or panic.\<close>

theorem operations_return:
  assumes "node_inv sha (fst s)" and "calls_ok (fst s)"
  shows "(\<exists>nodes err log s'. LookupNode env target s = Done ((nodes, err), log, s'))
     \<and> (\<exists>err sent s'. StoreValue env target data s = Done (err, sent, s'))
     \<and> (\<exists>val err log s'. FindValue env target s = Done ((val, err), log, s'))
     \<and> (\<exists>err s'. Bootstrap env ns s = Done (err, s'))"
  using LookupNode_returns [OF assms(2)] StoreValue_returns [OF assms] FindValue_returns [OF assms(2)]
    Bootstrap_returns [OF assms(2)] by (intro conjI)

lemma demo_calls_ok: "calls_ok demo_node"
  by (auto simp: calls_ok_def well_behaved_def no_nil_def query_def demo_answer_def)

lemma operations_return_witness:
  "\<exists>val err log s'. FindValue demo_env zero_key (demo_node, 0) = Done ((val, err), log, s')"
  using operations_return [of "\<lambda>b. b" "(demo_node, 0)"] demo_node_inv demo_calls_ok by auto

section \<open>Storing and finding values\<close>

lemma store_all_sent:
  "store_all env tr key data targets sent w = (sent', w') \<Longrightarrow>
     mset (map fst sent') = mset (map fst sent) + mset targets"
proof (induction env tr key data targets sent w rule: store_all.induct)
  case (1 env tr key data targets sent w)
  show ?case
  proof (cases "targets = []")
    case False
    obtain i w1 where i: "sched env w = (i, w1)" by fastforce
    let ?j = "i mod length targets"
    obtain err w2 where e: "tr_store tr (targets ! ?j) key data w1 = (err, w2)" by fastforce
    from 1(2) False i e have
      "store_all env tr key data (remove_nth ?j targets) (sent @ [(targets ! ?j, err)]) w2 = (sent', w')"
      by (simp add: store_all.simps [of env tr key data targets] Let_def)
    from 1(1) [OF False i [symmetric] refl refl e [symmetric] refl this]
    show ?thesis using mset_remove_nth [of ?j targets] False by simp
  qed (use 1(2) in \<open>simp add: store_all.simps\<close>)
qed

lemma StoreValue_Done:
  assumes "StoreValue env key data s = Done (err, sent, s')"
  obtains nodes lerr log s1 where "LookupNode env key s = Done ((nodes, lerr), log, s1)"
    and "fst s' = fst s1" and "mset (map fst sent) = mset (take StoreK nodes)"
    and "err = (if nodes = [] then lerr else None)"
proof -
  from assms obtain nodes lerr log s1 where l: "LookupNode env key s = Done ((nodes, lerr), log, s1)"
    by (auto simp: StoreValue_def)
  show thesis
  proof (cases "nodes = []")
    case True
    with assms l that [OF l] show thesis
      by (cases lerr) (auto simp: StoreValue_def Let_def split: if_splits)
  next
    case False
    define ns where "ns = (if StoreK < length nodes then take StoreK nodes else nodes)"
    have ns: "ns = take StoreK nodes" "ns \<noteq> []" using False by (auto simp: ns_def StoreK_def)
    obtain tr where tr: "node_transport (fst s1) = Some tr"
      using assms l False ns(2)
      by (auto simp: StoreValue_def Let_def ns_def [symmetric] split: option.splits)
    obtain sent1 w where st: "store_all env tr key data ns [] (snd s1) = (sent1, w)" by fastforce
    with assms l tr False ns(2) have "err = None" "sent = sent1" "s' = (fst s1, w)"
      by (simp_all add: StoreValue_def Let_def ns_def [symmetric])
    with store_all_sent [OF st] that [OF l] ns(1) False show thesis by simp
  qed
qed

lemma sorted_take_near:
  assumes "sorted (map f xs)" and "x \<in> set xs" and "x \<notin> set (take c xs)" and "y \<in> set (take c xs)"
  shows "f y \<le> (f x :: nat)" and "length (take c xs) = c"
proof -
  have d: "x \<in> set (drop c xs)" using assms(2,3) by (metis UnE append_take_drop_id set_append)
  show "f y \<le> f x" using sorted_take_le_drop [OF assms(1,4) d] .
  show "length (take c xs) = c" using d by (cases "c \<le> length xs") auto
qed

lemma sorted_take_covers:
  assumes "sorted (map (\<lambda>n. GetKeyDistance (nn_id n) t) nodes)" and "covered t nodes k" and "c \<le> K"
  shows "k \<in> set (ids (take c nodes)) \<or> length (take c nodes) = c
     \<and> (\<forall>m \<in> set (take c nodes). GetKeyDistance (nn_id m) t \<le> GetKeyDistance k t)"
proof (cases "k \<in> set (ids nodes)")
  case True
  then obtain n where n: "n \<in> set nodes" "k = nn_id n" by auto
  show ?thesis
  proof (cases "n \<in> set (take c nodes)")
    case False
    then have "length (take c nodes) = c" using n(1) by (cases "c \<le> length nodes") auto
    with sorted_take_near(1) [OF assms(1) n(1) False] n(2) show ?thesis by auto
  qed (use n in auto)
next
  case False
  with assms(2,3) show ?thesis by (auto simp: covered_def dest: in_set_takeD)
qed

text \<open>C11: \<open>StoreValue\<close> writes to at most \<open>StoreK\<close> entries of the lookup for the key, and every
  contact the lookup heard of is one of them, or all \<open>StoreK\<close> of them are at least as near to
  the key. Once the lookup returned a node it reports success, whatever the writes answered.\<close>

theorem store_value_nearest:
  assumes "node_inv sha (fst s)" and "StoreValue env key data s = Done (err, sent, s')"
    and "contacts (node_rt (fst s)) \<noteq> []"
  shows "\<exists>nodes lerr log s1. LookupNode env key s = Done ((nodes, lerr), log, s1)
     \<and> length sent \<le> StoreK \<and> fst ` set sent \<subseteq> set nodes
     \<and> err = (if nodes = [] then lerr else None)
     \<and> (\<forall>n \<in> heard (nn_id (node_self (fst s))) (set (contacts (node_rt (fst s)))) log.
          nn_id n \<in> nn_id ` fst ` set sent
          \<or> length sent = StoreK
            \<and> (\<forall>m \<in> fst ` set sent. GetKeyDistance (nn_id m) key \<le> GetKeyDistance (nn_id n) key))"
proof -
  from assms(2) obtain nodes lerr log s1 where l: "LookupNode env key s = Done ((nodes, lerr), log, s1)"
    and m: "mset (map fst sent) = mset (take StoreK nodes)" and e: "err = (if nodes = [] then lerr else None)"
    by (rule StoreValue_Done)
  note inv = LookupNode_ends(1) [OF assms(1) l assms(3), unfolded search_inv_def]
  have set: "fst ` set sent = set (take StoreK nodes)" using mset_eq_setD [OF m] by simp
  have len: "length sent = length (take StoreK nodes)" using mset_eq_length [OF m] by simp
  have near: "nn_id n \<in> nn_id ` fst ` set sent \<or> length sent = StoreK
      \<and> (\<forall>m \<in> fst ` set sent. GetKeyDistance (nn_id m) key \<le> GetKeyDistance (nn_id n) key)"
    if "n \<in> heard (nn_id (node_self (fst s))) (set (contacts (node_rt (fst s)))) log" for n
  proof -
    have "covered key nodes (nn_id n)" using inv that by (elim conjE) (rule bspec)
    from sorted_take_covers [OF inv [THEN conjunct1] this, of StoreK]
    show ?thesis unfolding set len by (simp add: StoreK_def K_def)
  qed
  have "length sent \<le> StoreK" unfolding len by simp
  moreover have "fst ` set sent \<subseteq> set nodes" unfolding set by (rule set_take_subset)
  ultimately show ?thesis using l e near by (intro exI conjI ballI)
qed


lemma demo_store_all:
  "store_all demo_env demo_transport k v [peer_c, peer_c, peer_b] [] w =
     ([(peer_c, None), (peer_c, None), (peer_b, None)], w)"
  by (simp add: store_all.simps)

lemma demo_StoreValue:
  "StoreValue demo_env (nn_id peer_c) v (demo_node, 0) =
     Done (None, [(peer_c, None), (peer_c, None), (peer_b, None)], demo_node_c, 0)"
  by (simp only: StoreValue_def demo_LookupNode)
    (simp add: StoreK_def demo_store_all)

lemma store_value_nearest_witness:
  "\<exists>nodes lerr log s1. LookupNode demo_env (nn_id peer_c) (demo_node, 0) = Done ((nodes, lerr), log, s1)
     \<and> {peer_b, peer_c} \<subseteq> set nodes"
proof -
  have "node_inv (\<lambda>b. b) (fst (demo_node, 0 :: nat))"
    "contacts (node_rt (fst (demo_node, 0 :: nat))) \<noteq> []"
    by (simp_all add: demo_node_inv)
  from store_value_nearest [OF this(1) demo_StoreValue this(2)]
  obtain nodes lerr log s1
    where "LookupNode demo_env (nn_id peer_c) (demo_node, 0) = Done ((nodes, lerr), log, s1)"
      and "fst ` set [(peer_c, None :: go_error option), (peer_c, None), (peer_b, None)] \<subseteq> set nodes"
    by (elim exE conjE)
  then show ?thesis by - (intro exI conjI, assumption, simp)
qed

text \<open>The replicas need not be on different nodes: two asked peers that name the same
  unknown contact in one round enter it twice, and \<open>StoreValue\<close> then writes two of its three
  copies to one node and none to a known contact that has not been written to.\<close>

theorem store_value_duplicates:
  "\<exists>(env :: nat env) node key v sent s'. node_inv (\<lambda>b. b) node \<and> calls_ok node
     \<and> StoreValue env key v (node, 0) = Done (None, sent, s')
     \<and> length sent = StoreK \<and> \<not> distinct (map fst sent)
     \<and> (\<exists>n \<in> set (contacts (node_rt node)). n \<notin> fst ` set sent)"
proof -
  let ?sent = "[(peer_c, None :: go_error option), (peer_c, None), (peer_b, None)]"
  have "peer_a \<in> set (contacts (node_rt demo_node)) \<and> peer_a \<notin> fst ` set ?sent"
    by (simp add: peer_a_def peer_b_def peer_c_def)
  then have "\<exists>n \<in> set (contacts (node_rt demo_node)). n \<notin> fst ` set ?sent" by blast
  moreover have "length ?sent = StoreK" "\<not> distinct (map fst ?sent)" by (simp_all add: StoreK_def)
  ultimately show ?thesis
    using demo_node_inv demo_calls_ok demo_StoreValue by (intro exI conjI)
qed

lemma FindValue_eq:
  assumes "node_inv sha (fst s)"
  shows "\<exists>s1. node_inv sha (fst s1) \<and> node_rt (fst s1) = node_rt (fst s)
     \<and> node_self (fst s1) = node_self (fst s) \<and> node_view s1 = node_view s
     \<and> FindValue env key s =
       (case node_view s key of
          Some v \<Rightarrow> Done ((Some v, None), [], s1)
        | None \<Rightarrow> and_then (iterativeSearch env key True s1)
            (\<lambda>((nodes, val, err), log, s). Done ((val, err), log, s)))"
proof -
  note st = storage_get_spec [OF node_inv_storage_inv [OF assms], of key]
  obtain val st' where g: "storage_get (node_storage (fst s)) key = (val, st')" by fastforce
  let ?s1 = "((fst s)\<lparr>node_storage := st'\<rparr>, snd s)"
  have "node_inv sha (fst ?s1)" using node_inv_storage [OF assms] st(3) g by simp
  moreover have "node_view ?s1 = node_view s" "val = node_view s key" using st(1,2) g by simp_all
  ultimately show ?thesis
    by (intro exI [of _ ?s1]) (simp add: FindValue_def g Let_def)
qed

text \<open>C12: a value that \<open>FindValue\<close> returns is the one in the local storage, and nobody was
  asked, or it is one an asked peer answered with.\<close>

theorem find_value_sound:
  assumes "node_inv sha (fst s)" and "FindValue env key s = Done ((Some v, err), log, s')"
  shows "err = None \<and> (if node_view s key = None then \<exists>m res. (m, Inr (Some v, res)) \<in> set log
                        else node_view s key = Some v \<and> log = [])"
proof -
  from FindValue_eq [OF assms(1), of env key] obtain s1 where inv: "node_inv sha (fst s1)"
    and f: "FindValue env key s =
       (case node_view s key of
          Some v \<Rightarrow> Done ((Some v, None), [], s1)
        | None \<Rightarrow> and_then (iterativeSearch env key True s1)
            (\<lambda>((nodes, val, err), log, s). Done ((val, err), log, s)))" by blast
  show ?thesis
  proof (cases "node_view s key")
    case None
    with f assms(2) have "and_then (iterativeSearch env key True s1)
        (\<lambda>((nodes, val, err), log, s). Done ((val, err), log, s)) = Done ((Some v, err), log, s')" by simp
    then obtain nodes where i: "iterativeSearch env key True s1 = Done ((nodes, Some v, err), log, s')"
      by auto
    have "contacts (node_rt (fst s1)) \<noteq> []" using i by (auto simp: iterativeSearch_eq [OF inv])
    from iterativeSearch_ends [OF inv this i] None show ?thesis
      by (auto simp: search_ends_def told_value_def)
  qed (use f assms(2) in auto)
qed

lemma find_value_sound_witness:
  "\<exists>w. node_view (demo_node\<lparr>node_storage := storage_put new_memory zero_key zero_meta\<rparr>, 0 :: nat) zero_key = Some w"
proof -
  let ?s = "(demo_node\<lparr>node_storage := storage_put new_memory zero_key zero_meta\<rparr>, 0 :: nat)"
  have st: "storage_inv (\<lambda>b. b) (storage_put new_memory zero_key zero_meta)" by simp
  then have inv: "node_inv (\<lambda>b. b) (fst ?s)" using node_inv_storage [OF demo_node_inv] by simp
  have view: "node_view ?s zero_key = Some zero_meta"
    using storage_put_spec(1) [of "\<lambda>b. b" new_memory zero_key zero_meta] by simp
  from FindValue_eq [OF inv, of demo_env zero_key] view
  obtain s1 where "FindValue demo_env zero_key ?s = Done ((Some zero_meta, None), [], s1)" by auto
  from find_value_sound [OF inv this] view show ?thesis by auto
qed

text \<open>C13: when \<open>FindValue\<close> reports that there is no value, the local storage has none and no asked
  peer had one. The search it ran, with the node as it is after the look at its storage, ended
  with a sorted list of at most K contacts: each of them is one it had or was told of, and was
  asked; and a contact it had or was told of is left out only when the list has K entries, all at
  least as near to the key. So every contact that was not asked is one of those left out.\<close>

theorem find_value_missing:
  assumes "node_inv sha (fst s)" and "FindValue env key s = Done ((None, Some ErrNotFound), log, s')"
    and "\<And>w. ctx_err env w \<noteq> Some ErrNotFound"
  shows "node_view s key = None \<and> (\<forall>m v res. (m, Inr (Some v, res)) \<notin> set log)
     \<and> (\<exists>nodes. iterativeSearch env key True
            ((fst s)\<lparr>node_storage := snd (storage_get (node_storage (fst s)) key)\<rparr>, snd s)
            = Done ((nodes, None, Some ErrNotFound), log, s')
          \<and> length nodes \<le> K \<and> sorted (map (\<lambda>n. GetKeyDistance (nn_id n) key) nodes)
          \<and> set nodes \<subseteq> heard (nn_id (node_self (fst s))) (set (contacts (node_rt (fst s)))) log
          \<and> set (ids nodes) \<subseteq> nn_id ` fst ` set log
          \<and> (\<forall>n \<in> heard (nn_id (node_self (fst s))) (set (contacts (node_rt (fst s)))) log.
               nn_id n \<in> set (ids nodes)
               \<or> length nodes = K
                 \<and> (\<forall>m \<in> set nodes. GetKeyDistance (nn_id m) key \<le> GetKeyDistance (nn_id n) key)))"
proof -
  let ?s1 = "((fst s)\<lparr>node_storage := snd (storage_get (node_storage (fst s)) key)\<rparr>, snd s)"
  define s1 where "s1 = ?s1"
  note st = storage_get_spec [OF node_inv_storage_inv [OF assms(1)], of key]
  have inv: "node_inv sha (fst s1)" using node_inv_storage [OF assms(1) st(3)] by (simp add: s1_def)
  have same: "node_rt (fst s1) = node_rt (fst s)" "node_self (fst s1) = node_self (fst s)"
    by (simp_all add: s1_def)
  have f: "FindValue env key s =
      (case node_view s key of
         Some v \<Rightarrow> Done ((Some v, None), [], s1)
       | None \<Rightarrow> and_then (iterativeSearch env key True s1)
           (\<lambda>((nodes, val, err), log, s). Done ((val, err), log, s)))"
  proof -
    obtain val st' where g: "storage_get (node_storage (fst s)) key = (val, st')" by (rule prod.exhaust)
    with st(1) have v: "val = node_view s key" by simp
    show ?thesis by (cases "node_view s key") (simp_all add: FindValue_def s1_def g v)
  qed
  have none: "node_view s key = None" using f assms(2) by (auto split: option.splits)
  with f assms(2) have "and_then (iterativeSearch env key True s1)
      (\<lambda>((nodes, val, err), log, s). Done ((val, err), log, s))
      = Done ((None, Some ErrNotFound), log, s')" by simp
  then obtain nodes
    where i: "iterativeSearch env key True s1 = Done ((nodes, None, Some ErrNotFound), log, s')"
    by auto
  have "contacts (node_rt (fst s1)) \<noteq> []"
    using i by (auto simp: iterativeSearch_eq [OF inv] empty_table_error_def)
  from iterativeSearch_ends [OF inv this i] assms(3) [of "snd s'"]
  have inv': "search_inv (nn_id (node_self (fst s))) (set (contacts (node_rt (fst s)))) key nodes
      (nn_id ` fst ` set log) log" and asked: "set (ids nodes) \<subseteq> nn_id ` fst ` set log"
    by (auto simp: search_ends_def same)
  have "nn_id n \<in> set (ids nodes) \<or> length nodes = K
      \<and> (\<forall>m \<in> set nodes. GetKeyDistance (nn_id m) key \<le> GetKeyDistance (nn_id n) key)"
    if "n \<in> heard (nn_id (node_self (fst s))) (set (contacts (node_rt (fst s)))) log" for n
    using inv' that unfolding search_inv_def covered_def by (meson le_antisym)
  moreover have "length nodes \<le> K" "sorted (map (\<lambda>n. GetKeyDistance (nn_id n) key) nodes)"
    "set nodes \<subseteq> heard (nn_id (node_self (fst s))) (set (contacts (node_rt (fst s)))) log"
    "\<forall>m v res. (m, Inr (Some v, res)) \<notin> set log"
    using inv' by (simp_all add: search_inv_def told_value_def)
  ultimately show ?thesis using none asked i [unfolded s1_def] by blast
qed

lemma demo_FindValue:
  "\<exists>s'. FindValue demo_env (nn_id peer_c) (demo_node, 0) = Done ((None, Some ErrNotFound), demo_log, s')"
proof -
  have g: "storage_get new_memory k = (None, new_memory)" for k
    by (simp add: new_memory_def mem_get_def MemGet_def NewMemoryStorage_def)
  have same: "demo_node\<lparr>node_storage := new_memory\<rparr> = demo_node" by (simp add: demo_node_def)
  show ?thesis unfolding FindValue_def
    by (simp add: g same demo_search [simplified])
qed

lemma find_value_missing_witness:
  "\<exists>nodes s'. iterativeSearch demo_env (nn_id peer_c) True (demo_node, 0) = Done ((nodes, None, Some ErrNotFound), demo_log, s')
     \<and> set (ids nodes) \<subseteq> nn_id ` fst ` set demo_log"
proof -
  obtain s' where f: "FindValue demo_env (nn_id peer_c) (demo_node, 0)
      = Done ((None, Some ErrNotFound), demo_log, s')"
    using demo_FindValue by blast
  have "(fst (demo_node, 0 :: nat))\<lparr>node_storage := snd (storage_get (node_storage (fst (demo_node, 0 :: nat))) (nn_id peer_c))\<rparr>
      = demo_node"
    by (simp add: demo_node_def new_memory_def mem_get_def MemGet_def NewMemoryStorage_def)
  with find_value_missing [OF _ f, of "\<lambda>b. b"] demo_node_inv show ?thesis by auto
qed

section \<open>The node between operations\<close>

lemma StoreValue_evolves:
  assumes "node_inv sha (fst s)" and "StoreValue env key data s = Done (err, sent, s')"
  shows "evolves (fst s) (fst s')"
proof -
  from assms(2) obtain nodes lerr log s1
    where "LookupNode env key s = Done ((nodes, lerr), log, s1)" "fst s' = fst s1"
    by (rule StoreValue_Done)
  with LookupNode_evolves [OF assms(1)] show ?thesis by simp
qed

lemma Bootstrap_evolves:
  assumes "node_inv sha (fst s)" and "Bootstrap env ns s = Done (err, s')"
  shows "evolves (fst s) (fst s')"
proof (cases "ns = []")
  case False
  let ?s1 = "fold add_contact ns s"
  have e: "evolves (fst s) (fst ?s1)" by (rule evolves_add_contacts)
  from assms(2) False obtain r log where l: "LookupNode env (nn_id (node_self (fst ?s1))) ?s1 = Done (r, log, s')"
    by (auto simp: Bootstrap_def)
  from evolves_trans [OF e LookupNode_evolves [OF evolves_inv [OF e assms(1)] l]] show ?thesis .
qed (use assms(2) in \<open>auto simp: Bootstrap_def\<close>)

text \<open>Joining, looking up and storing leave a node well formed: its routing table keeps the
  bucket invariant, and its identity, its transport and its storage are not touched.\<close>

theorem operations_keep_node:
  assumes "node_inv sha (fst s)"
    and "LookupNode env key s = Done (r, log, s') \<or> StoreValue env key data s = Done (err, sent, s')
       \<or> Bootstrap env ns s = Done (err, s')"
  shows "node_inv sha (fst s') \<and> node_self (fst s') = node_self (fst s)
     \<and> node_storage (fst s') = node_storage (fst s) \<and> node_transport (fst s') = node_transport (fst s)"
proof -
  have "evolves (fst s) (fst s')"
    using assms(2) LookupNode_evolves [OF assms(1)] StoreValue_evolves [OF assms(1)]
      Bootstrap_evolves [OF assms(1)] by blast
  with evolves_inv assms(1) evolves_fields show ?thesis by blast
qed

lemma operations_keep_node_witness: "node_inv (\<lambda>b. b) demo_node_c"
  using operations_keep_node [OF _ disjI1 [OF demo_LookupNode], of "\<lambda>b. b"] demo_node_inv by simp

section \<open>Blobs\<close>

lemma blob_ref_not_Nil: "blob_ref sha d \<noteq> []"
  using simple_blob_ref [of sha d] by (auto simp: simple_name_def)

text \<open>C14: after \<open>StoreBlob\<close> on a node with a disk storage, the node itself gets the blob back
  with the metadata it published, if no other blob has the same hash.\<close>

theorem store_blob_fetch:
  assumes "node_inv sha (fst s)" and "blobStore (fst s) \<noteq> None"
    and "\<And>d. blob_ref sha d = blob_ref sha data \<Longrightarrow> d = data"
    and "StoreBlob sha env key data mime s = Done (err, sent, s')"
  shows "FetchBlob (Some (blob_meta (blob_ref sha data) (nn_id (node_self (fst s))) data mime)) s'
           = Done (Inr (Some data), snd s')"
proof -
  from assms(2) obtain d where d: "node_storage (fst s) = Disk d"
    by (auto simp: blobStore_def split: storage.splits)
  then have inv: "disk_inv sha d" using assms(1) by (simp add: node_inv_def)
  obtain d' where p: "PutBlob sha d data = (Inr (blob_ref sha data), d')"
    using disk.put_blob_ref [OF inv, of data] by (metis prod.collapse)
  let ?s1 = "((fst s)\<lparr>node_storage := Disk d'\<rparr>, snd s)"
  have "disk_inv sha d'" using disk.put_blob_inv [OF inv, of data] p by simp
  then have inv1: "node_inv sha (fst ?s1)" using node_inv_storage [OF assms(1)] by simp
  from assms(4) p d have "StoreValue env key
      (blob_meta (blob_ref sha data) (nn_id (node_self (fst s))) data mime) ?s1 = Done (err, sent, s')"
    by (simp add: StoreBlob_def blobStore_def Let_def)
  from evolves_fields(2) [OF StoreValue_evolves [OF inv1 this]]
  have "blobStore (fst s') = Some d'" by (simp add: blobStore_def)
  moreover have "GetBlob d' (blob_ref sha data) = Inr data"
    using disk.get_blob_put_blob [OF inv assms(3)] p by simp
  ultimately show ?thesis by (simp add: FetchBlob_def blob_meta_def blob_ref_not_Nil)
qed

definition disk_node :: "nat node" where
  "disk_node = demo_node\<lparr>node_storage :=
     Disk (NewDiskStorage ''data'' \<lparr>files = Map.empty, faults = []\<rparr>)\<rparr>"

lemma disk_node_ok: "node_inv sha disk_node" "calls_ok disk_node" "blobStore disk_node \<noteq> None"
proof -
  show "node_inv sha disk_node"
    unfolding disk_node_def
    by (rule node_inv_storage [OF demo_node_inv]) (simp add: NewDiskStorage_inv)
  show "calls_ok disk_node" using demo_calls_ok by (simp add: disk_node_def calls_ok_def)
  show "blobStore disk_node \<noteq> None" by (simp add: disk_node_def blobStore_def)
qed

lemma StoreBlob_returns:
  assumes "node_inv sha (fst s)" and "calls_ok (fst s)"
  shows "\<exists>err sent s'. StoreBlob sha env key data mime s = Done (err, sent, s')"
proof (cases "node_storage (fst s)")
  case (Disk d)
  then have inv: "disk_inv sha d" using assms(1) by (simp add: node_inv_def)
  obtain r d' where p: "PutBlob sha d data = (r, d')" by fastforce
  let ?s1 = "((fst s)\<lparr>node_storage := Disk d'\<rparr>, snd s)"
  have "disk_inv sha d'" using disk.put_blob_inv [OF inv, of data] p by simp
  then have "node_inv sha (fst ?s1)" "calls_ok (fst ?s1)"
    using node_inv_storage [OF assms(1)] assms(2) by (simp_all add: calls_ok_def)
  from StoreValue_returns [OF this] show ?thesis
    by (cases r) (simp_all add: StoreBlob_def blobStore_def Disk p Let_def)
qed (simp add: StoreBlob_def blobStore_def)

lemma store_blob_fetch_witness:
  "\<exists>s' :: nat node \<times> nat. FetchBlob (Some (blob_meta (blob_ref toy_hash [1]) zero_key [1] ''text/plain'')) s'
     = Done (Inr (Some [1]), snd s')"
proof -
  obtain err sent s' where
    st: "StoreBlob toy_hash demo_env zero_key [1] ''text/plain'' (disk_node, 0) = Done (err, sent, s')"
    using StoreBlob_returns [of toy_hash "(disk_node, 0)"] disk_node_ok by force
  have "nn_id (node_self (fst (disk_node, 0 :: nat))) = zero_key" by (simp add: disk_node_def)
  with store_blob_fetch [OF _ _ toy_hash_one st] disk_node_ok
  have "FetchBlob (Some (blob_meta (blob_ref toy_hash [1]) zero_key [1] ''text/plain'')) s'
     = Done (Inr (Some [1]), snd s')" by simp
  then show ?thesis by (rule exI)
qed

text \<open>C15: a blob that is not stored locally is fetched from the node the metadata names, by the
  address the routing table has for it; without such a contact the fetch fails.\<close>

theorem fetch_blob_remote:
  assumes "node_inv sha (fst s)" and "\<not> Inline m" and "BlobRef m \<noteq> []"
    and "\<And>d. blobStore (fst s) = Some d \<Longrightarrow> GetBlob d (BlobRef m) = Inl ErrNotFound"
    and "node_transport (fst s) = Some tr"
  shows "(\<forall>n \<in> set (contacts (node_rt (fst s))). nn_id n = BlobNode m \<longrightarrow>
       FetchBlob (Some m) s =
         (let (r, w) = tr_fetch_blob tr n (BlobRef m) (snd s) in Done (map_sum id Some r, w)))
     \<and> (BlobNode m \<notin> set (ids (contacts (node_rt (fst s)))) \<longrightarrow>
       FetchBlob (Some m) s =
         Done (Inl (ErrText (''blob node '' @ hex_encode (key_bytes (BlobNode m))
                             @ '' not found in routing table'')), snd s))"
proof (intro conjI ballI impI)
  have wf: "wf_rt (node_rt (fst s))" using assms(1) by (simp add: node_inv_def)
  have eq: "FetchBlob (Some m) s =
      (let peers = FindClosest (node_rt (fst s)) (BlobNode m) 1 in
       if peers = [] \<or> nn_id (hd peers) \<noteq> BlobNode m then
         Done (Inl (ErrText (''blob node '' @ hex_encode (key_bytes (BlobNode m))
                             @ '' not found in routing table'')), snd s)
       else let (r, w) = tr_fetch_blob tr (hd peers) (BlobRef m) (snd s) in
         Done (map_sum id Some r, w))"
    using assms(2-5) by (cases "blobStore (fst s)") (simp_all add: FetchBlob_def Let_def)
  show "FetchBlob (Some m) s =
      (let (r, w) = tr_fetch_blob tr n (BlobRef m) (snd s) in Done (map_sum id Some r, w))"
    if "n \<in> set (contacts (node_rt (fst s)))" "nn_id n = BlobNode m" for n
    using FindClosest_one [OF wf that(1)] that(2) by (simp add: eq)
  assume none: "BlobNode m \<notin> set (ids (contacts (node_rt (fst s))))"
  define peers where "peers = FindClosest (node_rt (fst s)) (BlobNode m) 1"
  have "set peers \<subseteq> set (contacts (node_rt (fst s)))" unfolding peers_def by (rule set_FindClosest)
  then have "peers = [] \<or> nn_id (hd peers) \<noteq> BlobNode m" using none
    by (cases peers) (simp_all, metis imageI)
  then show "FetchBlob (Some m) s =
      Done (Inl (ErrText (''blob node '' @ hex_encode (key_bytes (BlobNode m))
                          @ '' not found in routing table'')), snd s)"
    unfolding eq peers_def [symmetric] Let_def by (rule if_P)
qed

definition remote_meta :: value_meta where
  "remote_meta = blob_meta ''ab'' (nn_id peer_a) [] []"

lemma fetch_blob_remote_witness:
  "FetchBlob (Some remote_meta) (demo_node, 0) = Done (Inl ErrNotFound, 0)"
proof -
  have "\<not> Inline remote_meta" "BlobRef remote_meta \<noteq> []" "BlobNode remote_meta = nn_id peer_a"
    by (simp_all add: remote_meta_def blob_meta_def)
  moreover have "blobStore (fst (demo_node, 0 :: nat)) = None"
    by (simp add: blobStore_def new_memory_def)
  ultimately have "FetchBlob (Some remote_meta) (demo_node, 0) =
      (let (r, w) = tr_fetch_blob demo_transport peer_a (BlobRef remote_meta) 0
       in Done (map_sum id Some r, w))"
    using fetch_blob_remote [of "\<lambda>b. b" "(demo_node, 0)" remote_meta demo_transport]
      demo_node_inv by simp
  then show ?thesis by (simp add: demo_transport_def)
qed

end
