(* ===== verification/Signal_Guarantees.thy ===== *)
theory Signal_Guarantees
  imports Direct_Signal Lookup_Guarantees
begin

text \<open>
  What signaling over the DHT and over HTTP guarantees: that it returns, what an answer is, that
  an offer reaches the handler of the callee, and that each caller is handled once at a time.
\<close>

section \<open>Over the DHT: returning\<close>

lemma FindValue_keeps:
  assumes "node_inv sha (fst s)" and "FindValue env key s = Done (r, log, s')"
  shows "node_inv sha (fst s')" and "node_transport (fst s') = node_transport (fst s)"
proof -
  note st = storage_get_spec [OF node_inv_storage_inv [OF assms(1)], of key]
  obtain val st' where g: "storage_get (node_storage (fst s)) key = (val, st')" by (rule prod.exhaust)
  let ?s = "((fst s)\<lparr>node_storage := st'\<rparr>, snd s)"
  have inv: "node_inv sha (fst ?s)" using assms(1) st(3) g by (simp add: node_inv_def)
  have "node_inv sha (fst s') \<and> node_transport (fst s') = node_transport (fst s)"
  proof (cases val)
    case None
    with assms(2) g obtain nodes v err where
      i: "iterativeSearch env key True ?s = Done ((nodes, v, err), log, s')"
      by (auto simp: FindValue_def)
    note e = iterativeSearch_evolves [OF inv i]
    show ?thesis using evolves_inv [OF e inv] evolves_fields(3) [OF e] by simp
  next
    case (Some v)
    with assms(2) g inv show ?thesis by (auto simp: FindValue_def)
  qed
  then show "node_inv sha (fst s')" "node_transport (fst s') = node_transport (fst s)" by simp_all
qed

lemma StoreValue_keeps:
  assumes "node_inv sha (fst s)" and "StoreValue env key data s = Done (err, sent, s')"
  shows "node_inv sha (fst s')" and "node_transport (fst s') = node_transport (fst s)"
  using StoreValue_evolves [OF assms] evolves_inv assms(1) evolves_fields(3) by blast+

text \<open>A node the operations can run on, with its transport fixed.\<close>

definition runnable :: "(bytes \<Rightarrow> bytes) \<Rightarrow> 'w node \<Rightarrow> bool" where
  "runnable sha node \<longleftrightarrow> node_inv sha node \<and> calls_ok node"

lemma StoreValue_runs:
  assumes "runnable sha (fst s)"
  obtains err sent s' where "StoreValue env key data s = Done (err, sent, s')" and "runnable sha (fst s')"
proof -
  have s: "node_inv sha (fst s)" "calls_ok (fst s)" using assms by (simp_all add: runnable_def)
  then obtain err sent s' where r: "StoreValue env key data s = Done (err, sent, s')"
    using StoreValue_returns by blast
  with StoreValue_keeps [OF s(1) r] s(2) that show thesis by (simp add: runnable_def calls_ok_def)
qed

lemma FindValue_runs:
  assumes "runnable sha (fst s)"
  obtains r log s' where "FindValue env key s = Done (r, log, s')" and "runnable sha (fst s')"
proof -
  have s: "node_inv sha (fst s)" "calls_ok (fst s)" using assms by (simp_all add: runnable_def)
  then obtain r log s' where r: "FindValue env key s = Done (r, log, s')"
    using FindValue_returns by (metis surj_pair)
  with FindValue_keeps [OF s(1) r] s(2) that show thesis by (simp add: runnable_def calls_ok_def)
qed

lemma poll_tick_runs:
  assumes "runnable sha (fst s)"
  shows "\<exists>ps' s'. poll_tick sha1 env attached local_id now_ns (ps, s) = Done (ps', s') \<and> runnable sha (fst s')"
proof (cases attached)
  case True
  obtain r log s1 where 1: "FindValue env (dhtDoorbellKey sha1 local_id) s = Done (r, log, s1)"
    "runnable sha (fst s1)" using FindValue_runs [OF assms] .
  show ?thesis
  proof (cases "bell_caller r")
    case None
    with 1 True show ?thesis by (simp add: poll_tick_def)
  next
    case (Some caller)
    obtain r' log' s2 where "FindValue env (dhtOfferKey sha1 caller local_id) s1 = Done (r', log', s2)"
      "runnable sha (fst s2)" using FindValue_runs [OF 1(2)] .
    with Some 1 True show ?thesis by (cases s1; cases s2) (simp add: poll_tick_def)
  qed
qed (use assms in \<open>simp add: poll_tick_def\<close>)

lemma answer_offer_runs:
  assumes "runnable sha (fst s)"
  shows "\<exists>s'. answer_offer sha1 env local_id caller result s = Done s' \<and> runnable sha (fst s')"
proof (cases result)
  case (Inr answer)
  obtain e1 l1 s1 where 1: "StoreValue env (dhtAnswerKey sha1 caller local_id)
      (inline_value (Some (bytes_of_string answer))) s = Done (e1, l1, s1)" "runnable sha (fst s1)"
    using StoreValue_runs [OF assms] .
  obtain e2 l2 s2 where "StoreValue env (dhtDoorbellKey sha1 local_id) (inline_value None) s1 = Done (e2, l2, s2)"
    "runnable sha (fst s2)" using StoreValue_runs [OF 1(2)] .
  with 1 Inr show ?thesis by (simp add: answer_offer_def)
qed (use assms in \<open>simp add: answer_offer_def\<close>)

text \<open>A tick of the poll loop and the answer to an offer come to an end without a panic.\<close>

lemma callee_returns:
  assumes "runnable sha (fst s)"
  shows "\<exists>ps' s'. poll_tick sha1 env attached local_id now_ns (ps, s) = Done (ps', s') \<and> runnable sha (fst s')"
    and "\<exists>s'. answer_offer sha1 env local_id caller result s = Done s' \<and> runnable sha (fst s')"
  using poll_tick_runs [OF assms] answer_offer_runs [OF assms] by blast+

section \<open>Over the DHT: time\<close>

text \<open>The clock does not go back while the scheduler, a query or a ping runs.\<close>

definition timely :: "('w \<Rightarrow> nat) \<Rightarrow> 'w env \<Rightarrow> 'w node \<Rightarrow> bool" where
  "timely clock env node \<longleftrightarrow>
     (\<forall>w. clock w \<le> clock (snd (sched env w)))
     \<and> (\<forall>tr fv n k w. node_transport node = Some tr \<longrightarrow> clock w \<le> clock (snd (query fv tr n k w)))
     \<and> (\<forall>f n w. ping (node_rt node) = Some f \<longrightarrow> clock w \<le> clock (snd (f n w)))"



definition later :: "('w \<Rightarrow> nat) \<Rightarrow> 'w env \<Rightarrow> 'w node \<times> 'w \<Rightarrow> 'w node \<times> 'w \<Rightarrow> bool" where
  "later clock env s s' \<longleftrightarrow> (timely clock env (fst s) \<longrightarrow> timely clock env (fst s') \<and> clock (snd s) \<le> clock (snd s'))"

lemma later_refl [simp, intro]: "later clock env s s"
  by (simp add: later_def)










section \<open>Over the DHT: a call and its deadline\<close>




text \<open>\<open>n\<close> times the timer fired and there was no answer.\<close>

primrec unanswered :: "'w env \<Rightarrow> 'w select \<Rightarrow> dht_key \<Rightarrow> nat \<Rightarrow> 'w node \<times> 'w \<Rightarrow> 'w node \<times> 'w \<Rightarrow> bool" where
  "unanswered env select key 0 s s' \<longleftrightarrow> s' = s"
| "unanswered env select key (Suc n) s s' \<longleftrightarrow>
     (\<exists>s1 s2. select s = Done (None, s1) \<and> check_answer env key s1 = Done (None, s2)
        \<and> unanswered env select key n s2 s')"



text \<open>With a context that never ends and no answer it never returns.\<close>

lemma await_answer_stops:
  assumes "await_answer env select key s = Some y"
  shows "\<exists>n. \<nexists>s'. unanswered env select key n s s'"
proof (rule await_answer.raw_induct [where P = "\<lambda>env select key s y. \<exists>n. \<nexists>s'. unanswered env select key n s s'", OF _ assms])
  fix await :: "'b env \<Rightarrow> 'b select \<Rightarrow> dht_key \<Rightarrow> 'b node \<times> 'b \<Rightarrow> ((go_error + string) \<times> 'b node \<times> 'b) outcome option"
    and env :: "'b env" and select key s y
  assume IH: "\<And>env select key s y. await env select key s = Some y \<Longrightarrow> \<exists>n. \<nexists>s'. unanswered env select key n s s'"
    and body: "(case select s of
        Crash \<Rightarrow> Some Crash
      | Done (ctx, s) \<Rightarrow>
          (case ctx of
             Some e \<Rightarrow> Some (Done (Inl (ErrWrap ''signaling'' e), s))
           | None \<Rightarrow>
               (case check_answer env key s of
                  Crash \<Rightarrow> Some Crash
                | Done (found, s) \<Rightarrow>
                    (case found of
                       Some answer \<Rightarrow> Some (Done (Inr answer, s))
                     | None \<Rightarrow> await env select key s)))) = Some y"
  show "\<exists>n. \<nexists>s'. unanswered env select key n s s'"
  proof (cases "\<exists>s1 s2. select s = Done (None, s1) \<and> check_answer env key s1 = Done (None, s2)")
    case True
    then obtain s1 s2 where s12: "select s = Done (None, s1)" "check_answer env key s1 = Done (None, s2)" by blast
    with body have "await env select key s2 = Some y" by simp
    then obtain n where "\<nexists>s'. unanswered env select key n s2 s'" using IH by blast
    then have "\<nexists>s'. unanswered env select key (Suc n) s s'" using s12 by (cases s2) auto
    then show ?thesis by blast
  next
    case False
    then have "\<nexists>s'. unanswered env select key (Suc 0) s s'" by (simp only: unanswered.simps) blast
    then show ?thesis by blast
  qed
qed

lemma await_answer_forever:
  "(\<And>n. \<exists>s'. unanswered env select key n s s') \<Longrightarrow> await_answer env select key s = None"
  using await_answer_stops by (metis not_None_eq)





text \<open>A node with one contact, which knows nobody: both stores succeed, and the answer is at hand.\<close>

definition lone_node :: "storage \<Rightarrow> nat node" where
  "lone_node st =
     \<lparr>node_self = peer 0 0, node_storage = st, node_transport = Some demo_transport,
      node_rt = last_bucket [peer_c]\<rparr>"

lemma lone_simps [simp]:
  "node_self (lone_node st) = peer 0 0" "node_storage (lone_node st) = st"
  "node_transport (lone_node st) = Some demo_transport" "node_rt (lone_node st) = last_bucket [peer_c]"
  by (simp_all add: lone_node_def)

lemma lone_node_inv:
  assumes "storage_inv sha st"
  shows "node_inv sha (lone_node st)"
proof -
  have "wf_rt (last_bucket [peer_c] :: nat routing_table)"
    unfolding last_bucket_def
    by (rule set_bucket_wf [OF NewRoutingTable_wf])
      (auto simp: bucket_placed_def K_def dist_index_zero_key NewRoutingTable_def)
  with assms show ?thesis by (simp add: node_inv_def key_of_slice_zeros)
qed

lemma lone_search:
  assumes "storage_inv (\<lambda>b. b) st"
  shows "iterativeSearch demo_env key False (lone_node st, 0) =
     Done (([peer_c], None, None), [(peer_c, Inr (None, []))], lone_node st, 0)"
proof -
  have closest: "FindClosest (last_bucket [peer_c] :: nat routing_table) key K = [peer_c]"
    by (simp add: FindClosest_def sort_slice_def K_def)
  have round: "run_round demo_env False key [peer_c] [] (round_start (lone_node st, 0) {} []) =
     Done \<lparr>rd_state = (lone_node st, 0), rd_visited = {nn_id peer_c}, rd_new = [], rd_found = None,
       rd_log = [(peer_c, Inr (None, []))]\<rparr>"
    by (simp add: run_round.simps draw_def launch_next_def do_call_def absorb_def query_def
        round_start_def Let_def)
  have "search_loop demo_env False key [peer_c] {} [] (lone_node st, 0) =
     Done (([peer_c], None, None), [(peer_c, Inr (None, []))], lone_node st, 0)"
    using round
    by (simp add: search_loop.simps to_query_def Alpha_def merge_closest_def sort_eval K_def round_start_def)
  then show ?thesis
    using iterativeSearch_eq [of "\<lambda>b. b" "(lone_node st, 0)"] lone_node_inv [OF assms] closest by simp
qed

lemma lone_StoreValue:
  "storage_inv (\<lambda>b. b) st \<Longrightarrow>
     StoreValue demo_env key v (lone_node st, 0) = Done (None, [(peer_c, None)], lone_node st, 0)"
  by (simp add: StoreValue_def LookupNode_def lone_search StoreK_def store_all.simps del: and_then_Done)




section \<open>Over the DHT: the callee\<close>

text \<open>C37: whatever the loop and its goroutines do, each caller has at most one handler running, and the
  set \<open>processing\<close> is exactly the callers that are being looked up or handled, so that none stays
  locked out when its handler is done.\<close>

theorem poll_one_handler:
  assumes "poll_step\<^sup>*\<^sup>* poll_start ps"
  shows "distinct (map fst (po_running ps))
     \<and> po_processing ps = set (map fst (po_running ps)) \<union> set_option (po_caller ps)"
  using poll.reachable_ok [OF assms] by (simp add: poll_ok_def)

lemma poll_one_handler_witness:
  "po_processing (poll_claim zero_key poll_start) = {zero_key}"
proof -
  have "poll_step poll_start (poll_claim zero_key poll_start)"
    by (rule poll_step.claim) (simp_all add: poll_start_def)
  then have "poll_step\<^sup>*\<^sup>* poll_start (poll_claim zero_key poll_start)" by simp
  from poll_one_handler [OF this, THEN conjunct2] show ?thesis
    by (simp add: poll_claim_def poll_start_def)
qed

section \<open>Over the DHT: the keys\<close>

text \<open>The texts that are hashed for the callers and callees of a set of nodes.\<close>

definition signal_texts :: "dht_key set \<Rightarrow> bytes set" where
  "signal_texts I =
     {bytes_of_string ''rtcof:'' @ key_bytes a @ key_bytes b | a b. a \<in> I \<and> b \<in> I}
     \<union> {bytes_of_string ''rtcan:'' @ key_bytes a @ key_bytes b | a b. a \<in> I \<and> b \<in> I}
     \<union> {bytes_of_string ''rtcbell:'' @ key_bytes b | b. b \<in> I}"

lemma append_keys_eq [simp]:
  "key_bytes a @ key_bytes b = key_bytes c @ key_bytes d \<longleftrightarrow> a = c \<and> b = d"
  by (auto simp: key_eq_iff)

text \<open>Among nodes for which SHA-1 has no collision, the offers, the answers and the doorbells of
  different pairs have different keys: no call reads or overwrites the values of another,
  except that all callers of one node ring the same doorbell.\<close>

theorem signaling_keys_distinct:
  assumes "inj_on (KeyFromBytes sha1) (signal_texts I)" and "a \<in> I" and "b \<in> I" and "c \<in> I" and "d \<in> I"
  shows "(dhtOfferKey sha1 a b = dhtOfferKey sha1 c d \<longleftrightarrow> a = c \<and> b = d)
     \<and> (dhtAnswerKey sha1 a b = dhtAnswerKey sha1 c d \<longleftrightarrow> a = c \<and> b = d)
     \<and> (dhtDoorbellKey sha1 b = dhtDoorbellKey sha1 d \<longleftrightarrow> b = d)
     \<and> dhtOfferKey sha1 a b \<noteq> dhtAnswerKey sha1 c d
     \<and> dhtOfferKey sha1 a b \<noteq> dhtDoorbellKey sha1 d \<and> dhtAnswerKey sha1 a b \<noteq> dhtDoorbellKey sha1 d"
proof -
  have eq: "KeyFromBytes sha1 x = KeyFromBytes sha1 y \<longleftrightarrow> x = y"
    if "x \<in> signal_texts I" "y \<in> signal_texts I" for x y
    using inj_on_eq_iff [OF assms(1) that] .
  have texts: "bytes_of_string ''rtcof:'' @ key_bytes x @ key_bytes y \<in> signal_texts I"
    "bytes_of_string ''rtcan:'' @ key_bytes x @ key_bytes y \<in> signal_texts I"
    "bytes_of_string ''rtcbell:'' @ key_bytes y \<in> signal_texts I" if "x \<in> I" "y \<in> I" for x y
    using that by (auto simp: signal_texts_def)
  note o = texts(1) [OF assms(2,3)] texts(1) [OF assms(4,5)]
    and an = texts(2) [OF assms(2,3)] texts(2) [OF assms(4,5)]
    and be = texts(3) [OF assms(3,3)] texts(3) [OF assms(5,5)]
  have prefixes: "bytes_of_string ''rtcof:'' @ x \<noteq> bytes_of_string ''rtcan:'' @ y"
    "bytes_of_string ''rtcof:'' @ x \<noteq> bytes_of_string ''rtcbell:'' @ y"
    "bytes_of_string ''rtcan:'' @ x \<noteq> bytes_of_string ''rtcbell:'' @ y" for x y
    by (simp_all add: bytes_of_string_def)
  show ?thesis
    unfolding dhtOfferKey_def dhtAnswerKey_def dhtDoorbellKey_def
      eq [OF o] eq [OF an] eq [OF be] eq [OF o(1) an(2)] eq [OF o(1) be(2)] eq [OF an(1) be(2)]
    using prefixes by (simp add: key_eq_iff)
qed

lemma signaling_keys_distinct_witness:
  "dhtOfferKey (\<lambda>b. b) zero_key zero_key \<noteq> dhtAnswerKey (\<lambda>b. b) zero_key zero_key"
proof -
  have "inj_on (KeyFromBytes (\<lambda>b. b)) (signal_texts {zero_key})"
    by (auto simp: inj_on_def signal_texts_def KeyFromBytes_def key_of_slice_eq_iff copy_into_def
        bytes_of_string_def)
  from signaling_keys_distinct [OF this, of zero_key zero_key zero_key zero_key] show ?thesis by simp
qed

section \<open>Over HTTP\<close>

text \<open>C38: a node that listens with a direct or hybrid signaler is called by a hybrid signaler over HTTP,
  not over the DHT, at its address and port, where alone it listens: the handler gets exactly the payload, its answer is what the call returns,
  and its error comes back as an error with status 500 and the error's text. A node whose
  contact has no port in its metadata is called over the DHT.\<close>

theorem hybrid_calls_handler:
  "SendOffer_hybrid ip_text
     (http_link (''http://'' @ ip_text (nn_address callee) @ '':'' @ int_text (ds_port (hs_direct h)) @ ''/offer'') handler)
     sha1 env select attached now (snd (ListenOffers_hybrid h callee)) payload (node, w) =
   (case handler payload w of
      (Inr answer, w') \<Rightarrow> Some (Done (Inr answer, node, w'))
    | (Inl err, w') \<Rightarrow>
        Some (Done (Inl (ErrText (''DirectSignaler: status 500: '' @ err_text err @ [CHR 0x0A])), node, w')))
   \<and> SendOffer_hybrid ip_text exchange sha1 env select attached now (callee\<lparr>nn_meta := None\<rparr>) payload s
     = SendOffer_dht sha1 env select attached (nn_id callee) payload now s"
proof -
  have "nat_digits 500 = ''500''" by code_simp
  moreover have "meta_get (callee\<lparr>nn_meta := None\<rparr>) ''sig_port'' = []" by (simp add: meta_get_def)
  ultimately show ?thesis
    by (simp add: SendOffer_hybrid_def SendOffer_direct_def ListenOffers_hybrid_def ListenOffers_direct_def
        http_link_def offer_url_def set_sig_port_def [of _ callee] meta_get_def serve_offer_payload http_error_def split: prod.splits sum.splits)
qed

end
