(* ===== verification/Bench_Transport.thy ===== *)
theory Bench_Transport
  imports Webrtc_Blob Udp
begin

text \<open>
  \<open>cmd/bench_transport/main.go\<close>: the transfer of blobs the transport benchmark measures, with a
  size hint before the frames, and its median.
\<close>

section \<open>Sending\<close>

definition frameHint :: byte where "frameHint = 0"
definition frameChunk :: byte where "frameChunk = 1"
definition frameLast :: byte where "frameLast = 2"

text \<open>\<open>binary.LittleEndian.PutUint64\<close> and \<open>Uint64\<close>.\<close>

definition put_uint64_le :: "64 word \<Rightarrow> bytes" where
  "put_uint64_le x = rev (put_uint64 x)"

definition uint64_le :: "bytes \<Rightarrow> 64 word" where
  "uint64_le bs = uint64_of (rev (take 8 bs))"

text \<open>The frame of a chunk; the loop is the one of \<open>sendBlobChunked\<close>, with the same chunk size.\<close>

definition bench_frame :: "byte \<Rightarrow> bytes \<Rightarrow> bytes" where
  "bench_frame isLast chunk = (if isLast = 1 then frameLast else frameChunk) # chunk"

definition bench_sendBlob :: "bytes \<Rightarrow> go_error option list \<Rightarrow> bytes list" where
  "bench_sendBlob blob tape =
     (let hint = frameHint # put_uint64_le (of_nat (length blob)) in
      case tape of
        Some err # r \<Rightarrow> []
      | _ \<Rightarrow> hint # fst (send_loop bench_frame blob 0 (tl tape)))"

section \<open>Receiving\<close>

text \<open>
  \<open>blobReceiver\<close>: \<open>br_notif\<close> is nil, or the channel of capacity one of the waiting iteration.
  Making the buffer of the hinted size panics (\<open>None\<close>) above what the allocator takes.
\<close>

record blob_receiver =
  br_buf :: "bytes option"
  br_notif :: "bytes option option"  \<comment> \<open>the channel, empty or holding a blob\<close>
  br_done :: "bytes option list"  \<comment> \<open>channels that were used, a ghost\<close>

definition onMessage :: "nat \<Rightarrow> bytes \<Rightarrow> blob_receiver \<Rightarrow> blob_receiver option" where
  "onMessage max_alloc data rx =
     (case data of
        [] \<Rightarrow> Some rx
      | ft # payload \<Rightarrow>
          if ft = frameHint then
            if length payload < 8 then Some rx
            else if max_alloc < unat (uint64_le payload) then None
            else Some (rx\<lparr>br_buf := Some []\<rparr>)
          else if ft = frameChunk then Some (rx\<lparr>br_buf := append_slice (br_buf rx) payload\<rparr>)
          else if ft = frameLast then
            let full = slice_bytes (append_slice (br_buf rx) payload) in
            (case br_notif rx of
               None \<Rightarrow> Some (rx\<lparr>br_buf := None\<rparr>)
             | Some ch \<Rightarrow>
                 Some (rx\<lparr>br_buf := None, br_notif := None,
                          br_done := br_done rx @ [case ch of None \<Rightarrow> Some full | Some b \<Rightarrow> Some b]\<rparr>))
          else Some rx)"

fun receive_all :: "nat \<Rightarrow> bytes list \<Rightarrow> blob_receiver \<Rightarrow> blob_receiver option" where
  "receive_all max_alloc [] rx = Some rx"
| "receive_all max_alloc (f # frames) rx =
     (case onMessage max_alloc f rx of None \<Rightarrow> None | Some rx \<Rightarrow> receive_all max_alloc frames rx)"

text \<open>One iteration of the client: a fresh channel, then the frames of the answer.\<close>

definition bench_iteration :: "nat \<Rightarrow> bytes list \<Rightarrow> blob_receiver \<Rightarrow> blob_receiver option" where
  "bench_iteration max_alloc frames rx = receive_all max_alloc frames (rx\<lparr>br_notif := Some None\<rparr>)"

section \<open>The server's blobs\<close>

text \<open>The control message of the client names a size; the server has one blob of each size.\<close>

definition bench_request :: "64 word \<Rightarrow> bytes" where
  "bench_request sz = put_uint64_le sz"

definition serve_size :: "(64 word \<rightharpoonup> bytes) \<Rightarrow> bool \<Rightarrow> bytes \<Rightarrow> go_error option list \<Rightarrow> bytes list" where
  "serve_size blobs blob_open data tape =
     (if length data < 8 then []
      else
        (case blobs (uint64_le data) of
           None \<Rightarrow> []
         | Some blob \<Rightarrow> if \<not> blob_open then [] else bench_sendBlob blob tape))"

section \<open>The median\<close>

definition medianDur :: "nat list \<Rightarrow> nat" where
  "medianDur ds = (if ds = [] then 0 else sort_slice (\<lambda>d. d) ds ! (length ds div 2))"

section \<open>Transfers\<close>

lemma uint64_le_put [simp]: "uint64_le (put_uint64_le x) = x"
  using uint64_put [of x "[]"] by (simp add: uint64_le_def put_uint64_le_def)

lemma length_put_uint64_le [simp]: "length (put_uint64_le x) = 8"
  by (simp add: put_uint64_le_def)

lemma bench_frames: "fst (send_loop bench_frame blob 0 []) = map (case_prod bench_frame) (chunks blob)"
  by (simp add: send_loop_ok)

lemma frame_types [simp]:
  "frameHint \<noteq> frameChunk" "frameChunk \<noteq> frameHint" "frameHint \<noteq> frameLast" "frameLast \<noteq> frameHint"
  "frameChunk \<noteq> frameLast" "frameLast \<noteq> frameChunk"
  by (simp_all add: frameHint_def frameChunk_def frameLast_def)

lemma receive_more_chunks:
  "receive_all n (map (\<lambda>c. frameChunk # c) cs @ frames) rx =
     receive_all n frames (rx\<lparr>br_buf := foldl append_slice (br_buf rx) cs\<rparr>)"
  by (induction cs arbitrary: rx) (simp_all add: onMessage_def)

lemma append_slice_Some [simp]: "append_slice (Some b) c = Some (b @ c)"
  by (simp add: append_slice_def)

lemma sendBlob_shape:
  assumes "blob \<noteq> []"
  obtains cs c where "bench_sendBlob blob [] =
      (frameHint # put_uint64_le (of_nat (length blob))) # map (\<lambda>c. frameChunk # c) cs @ [frameLast # c]"
    and "concat cs @ c = blob"
proof -
  obtain cs c where c: "chunks blob = map (Pair 0) cs @ [(1, c)]" "concat cs @ c = blob"
    using chunks_shape [OF assms] by metis
  show thesis by (rule that [OF _ c(2)]) (simp add: bench_sendBlob_def bench_frames c(1) bench_frame_def Let_def)
qed

lemma size_hint:
  "length blob \<le> max_alloc \<Longrightarrow> max_alloc < 2 ^ 64 \<Longrightarrow> unat (of_nat (length blob) :: 64 word) = length blob"
  by (simp add: unat_of_nat take_bit_nat_eq_self)

lemma bench_transfer:
  assumes "blob \<noteq> []" and "length blob \<le> max_alloc" and "max_alloc < 2 ^ 64"
  shows "bench_iteration max_alloc (bench_sendBlob blob []) rx =
     Some (rx\<lparr>br_buf := None, br_notif := None, br_done := br_done rx @ [Some blob]\<rparr>)"
proof -
  obtain cs c where frames: "bench_sendBlob blob [] =
      (frameHint # put_uint64_le (of_nat (length blob))) # map (\<lambda>c. frameChunk # c) cs @ [frameLast # c]"
    and c: "concat cs @ c = blob" using sendBlob_shape [OF assms(1)] .
  have "receive_all max_alloc (map (\<lambda>c. frameChunk # c) cs @ [frameLast # c])
      (rx\<lparr>br_notif := Some None, br_buf := Some []\<rparr>)
    = Some (rx\<lparr>br_buf := None, br_notif := None, br_done := br_done rx @ [Some blob]\<rparr>)"
    using c by (simp add: receive_more_chunks append_slices onMessage_def Let_def)
  then show ?thesis
    using assms(2) by (simp add: bench_iteration_def frames onMessage_def size_hint [OF assms(2,3)])
qed

lemma bench_served:
  assumes "blobs sz = Some blob"
  shows "serve_size blobs True (bench_request sz) [] = bench_sendBlob blob []"
  using assms by (simp add: serve_size_def bench_request_def)

lemma sorted_halves:
  assumes "sorted xs" and "i < length xs"
  shows "i + 1 \<le> length (filter (\<lambda>x. x \<le> xs ! i) xs)"
    and "length xs - i \<le> length (filter (\<lambda>x. (xs ! i :: nat) \<le> x) xs)"
proof -
  have "filter (\<lambda>x. x \<le> xs ! i) (take (Suc i) xs) = take (Suc i) xs"
    using assms by (auto simp: filter_id_conv in_set_conv_nth sorted_iff_nth_mono)
  then have "filter (\<lambda>x. x \<le> xs ! i) xs = take (Suc i) xs @ filter (\<lambda>x. x \<le> xs ! i) (drop (Suc i) xs)"
    by (metis append_take_drop_id filter_append)
  then show "i + 1 \<le> length (filter (\<lambda>x. x \<le> xs ! i) xs)" using assms(2) by simp
  have "filter (\<lambda>x. xs ! i \<le> x) (drop i xs) = drop i xs"
    using assms by (auto simp: filter_id_conv in_set_conv_nth sorted_iff_nth_mono)
  then have "filter (\<lambda>x. xs ! i \<le> x) xs = filter (\<lambda>x. xs ! i \<le> x) (take i xs) @ drop i xs"
    by (metis append_take_drop_id filter_append)
  then show "length xs - i \<le> length (filter (\<lambda>x. xs ! i \<le> x) xs)" by simp
qed

lemma medianDur_middle:
  assumes "ds \<noteq> []"
  shows "medianDur ds \<in> set ds" and "length ds \<le> 2 * length (filter (\<lambda>d. d \<le> medianDur ds) ds)"
    and "length ds \<le> 2 * length (filter (\<lambda>d. medianDur ds \<le> d) ds)"
proof -
  let ?s = "sort_slice (\<lambda>d. d) ds" and ?i = "length ds div 2"
  have i: "?i < length ?s" using assms by simp
  have s: "sorted ?s" using sorted_sort_slice [of "\<lambda>d. d" ds] by simp
  have m: "medianDur ds = ?s ! ?i" using assms by (simp add: medianDur_def)
  have count: "length (filter P ?s) = length (filter P ds)" for P
    by (metis mset_filter mset_sort_slice size_mset)
  show "medianDur ds \<in> set ds" using nth_mem [OF i] by (simp add: m)
  show "length ds \<le> 2 * length (filter (\<lambda>d. d \<le> medianDur ds) ds)"
    using sorted_halves(1) [OF s i] by (simp add: m count)
  show "length ds \<le> 2 * length (filter (\<lambda>d. medianDur ds \<le> d) ds)"
    using sorted_halves(2) [OF s i] by (simp add: m count)
qed

end
