(* ===== verification/Bench_Local.thy ===== *)
theory Bench_Local
  imports Bench_Transport Webrtc_Guarantees
begin

text \<open>
  \<open>cmd/webrtc_blob_local_test/main.go\<close>: a handler that only has blobs, and the statistics of
  fetching them. \<open>cmd/pion_raw_bench/main.go\<close>: the chunks of a message that is counted only.
\<close>

section \<open>The blob server\<close>

definition blob_server :: "(string \<rightharpoonup> bytes) handler" where
  "blob_server =
     \<lparr>h_ping = (\<lambda>p s. (None, s)), h_store = (\<lambda>p k v s. (None, s)), h_find_node = (\<lambda>p k s. (Inr [], s)),
      h_find_value = (\<lambda>p k s. (Inl ErrNotFound, s)),
      h_fetch_blob = (\<lambda>p ref s. case s ref of None \<Rightarrow> Inl ErrNotFound | Some data \<Rightarrow> Inr data)\<rparr>"

definition size_ref :: "nat \<Rightarrow> string" where
  "size_ref n = ''blob-'' @ nat_digits n"

text \<open>One blob of random bytes for each size.\<close>

definition local_blobs :: "(nat \<Rightarrow> bytes) \<Rightarrow> nat list \<Rightarrow> string \<rightharpoonup> bytes" where
  "local_blobs rnd sizes = fold (\<lambda>n m. m(size_ref n \<mapsto> copy_into n (rnd n))) sizes Map.empty"

section \<open>Statistics\<close>

text \<open>The durations of the fetches that gave a blob of the right size.\<close>

fun fetch_durations :: "nat \<Rightarrow> ((go_error + bytes) \<times> nat) list \<Rightarrow> nat list" where
  "fetch_durations n [] = []"
| "fetch_durations n ((Inl err, elapsed) # r) = fetch_durations n r"
| "fetch_durations n ((Inr got, elapsed) # r) =
     (if length got \<noteq> n then fetch_durations n r else elapsed # fetch_durations n r)"

definition fetch_range :: "nat list \<Rightarrow> nat \<times> nat" where
  "fetch_range results =
     fold (\<lambda>d (mn, mx). (if d < mn then d else mn, if mx < d then d else mx)) results (results ! 0, results ! 0)"

text \<open>The median after an insertion sort: the inner loop from \<open>j\<close> down, the outer one over \<open>i\<close>.\<close>

fun sift_down :: "nat list \<Rightarrow> nat \<Rightarrow> nat list" where
  "sift_down xs 0 = xs"
| "sift_down xs (Suc j) =
     (if xs ! Suc j < xs ! j then sift_down (xs[Suc j := xs ! j, j := xs ! Suc j]) j else xs)"

definition insertion_sort :: "nat list \<Rightarrow> nat list" where
  "insertion_sort xs = fold (\<lambda>i xs. sift_down xs i) [1..<length xs] xs"

definition median :: "nat list \<Rightarrow> nat" where
  "median ds = (if ds = [] then 0 else insertion_sort ds ! (length ds div 2))"

section \<open>The raw benchmark\<close>

definition rawChunkSize :: nat where "rawChunkSize = 256 * 1024"
definition totalBytes :: nat where "totalBytes = 32 * 1024 * 1024"

definition raw_iters :: "nat \<Rightarrow> nat" where
  "raw_iters blobSz = (let iters = totalBytes div blobSz in if iters < 8 then 8 else iters)"

text \<open>The lengths of the slices that are sent from \<open>sent\<close> on; errors of the send are dropped.\<close>

function raw_sends :: "nat \<Rightarrow> nat \<Rightarrow> nat list" where
  "raw_sends blobSz sent =
     (if sent < blobSz then
        let stop = (if blobSz < sent + rawChunkSize then blobSz else sent + rawChunkSize) in
        (stop - sent) # raw_sends blobSz stop
      else [])"
  by pat_completeness auto

termination raw_sends
  by (relation "measure (\<lambda>(blobSz, sent). blobSz - sent)") (auto simp: rawChunkSize_def)

declare raw_sends.simps [simp del]

text \<open>The receiver: the bytes so far, and whether \<open>done\<close> has been signalled.\<close>

definition raw_receive :: "nat \<Rightarrow> nat \<Rightarrow> nat \<times> bool \<Rightarrow> nat \<times> bool" where
  "raw_receive blobSz len st = (fst st + len, snd st \<or> blobSz \<le> fst st + len)"

section \<open>Lemmas\<close>

lemma length_sift_down [simp]: "length (sift_down xs j) = length xs"
  by (induction xs j rule: sift_down.induct) simp_all

lemma mset_sift_down: "j < length xs \<Longrightarrow> mset (sift_down xs j) = mset xs"
  by (induction xs j rule: sift_down.induct) (simp_all add: mset_swap)

lemma drop_sift_down: "j < length xs \<Longrightarrow> drop (Suc j) (sift_down xs j) = drop (Suc j) xs"
proof (induction xs j rule: sift_down.induct)
  case (2 xs j)
  show ?case
  proof (cases "xs ! Suc j < xs ! j")
    case True
    let ?ys = "xs[Suc j := xs ! j, j := xs ! Suc j]"
    have "drop (Suc j) (sift_down ?ys j) = drop (Suc j) ?ys" using 2 True by simp
    then have "drop 1 (drop (Suc j) (sift_down ?ys j)) = drop 1 (drop (Suc j) ?ys)" by simp
    with True show ?thesis by simp
  qed simp
qed simp

lemma sift_down_sorted:
  "j < length xs \<Longrightarrow> sorted (take j xs) \<Longrightarrow> sorted (take (Suc j) (sift_down xs j))"
proof (induction xs j rule: sift_down.induct)
  case (1 xs)
  then show ?case by (cases xs) simp_all
next
  case (2 xs j)
  have tk: "take (Suc j) xs = take j xs @ [xs ! j]" using 2(2) by (simp add: take_Suc_conv_app_nth)
  with 2(3) have le: "sorted (take j xs)" "\<forall>x \<in> set (take j xs). x \<le> xs ! j" by (simp_all add: sorted_append)
  show ?case
  proof (cases "xs ! Suc j < xs ! j")
    case True
    let ?ys = "xs[Suc j := xs ! j, j := xs ! Suc j]"
    let ?s = "sift_down ?ys j"
    have j: "j < length ?ys" using 2(2) by simp
    have IH: "sorted (take (Suc j) ?s)" using 2(1) [OF True] 2(2) le(1) by simp
    have "mset (take (Suc j) ?s) + mset (drop (Suc j) ?s) = mset (take (Suc j) ?ys) + mset (drop (Suc j) ?ys)"
      using mset_sift_down [OF j] by (metis append_take_drop_id mset_append)
    then have "mset (take (Suc j) ?s) = mset (take (Suc j) ?ys)" using drop_sift_down [OF j] by simp
    then have "set (take (Suc j) ?s) = set (take (Suc j) ?ys)" by (rule mset_eq_setD)
    also have "\<dots> = insert (xs ! Suc j) (set (take j xs))" using 2(2) by (simp add: take_Suc_conv_app_nth)
    finally have le_s: "\<forall>x \<in> set (take (Suc j) ?s). x \<le> xs ! j" using le(2) True by auto
    have "?s ! Suc j = xs ! j"
      using drop_sift_down [OF j] 2(2) by (metis (no_types, lifting) Cons_nth_drop_Suc length_list_update
          length_sift_down list.inject nth_list_update_eq nth_list_update_neq n_not_Suc_n)
    then have "take (Suc (Suc j)) ?s = take (Suc j) ?s @ [xs ! j]"
      using 2(2) by (simp add: take_Suc_conv_app_nth [of "Suc j"])
    with IH le_s show ?thesis using True by (simp add: sorted_append)
  next
    case False
    have "take (Suc (Suc j)) xs = take (Suc j) xs @ [xs ! Suc j]" using 2(2) by (simp add: take_Suc_conv_app_nth)
    with False tk le show ?thesis by (auto simp: sorted_append)
  qed
qed

lemma insertion_sorts:
  "i \<le> length xs \<Longrightarrow>
     sorted (take i (fold (\<lambda>i xs. sift_down xs i) [1..<i] xs))
     \<and> mset (fold (\<lambda>i xs. sift_down xs i) [1..<i] xs) = mset xs"
proof (induction i)
  case (Suc i)
  let ?ys = "fold (\<lambda>i xs. sift_down xs i) [1..<i] xs"
  have ys: "sorted (take i ?ys)" "mset ?ys = mset xs" using Suc by simp_all
  then have i: "i < length ?ys" using Suc(2) by (metis Suc_le_lessD size_mset)
  show ?case
  proof (cases i)
    case 0
    then show ?thesis by (cases xs) simp_all
  next
    case (Suc n)
    then show ?thesis using sift_down_sorted [OF i ys(1)] mset_sift_down [OF i] ys(2) by simp
  qed
qed simp

lemma insertion_sort_sort: "insertion_sort xs = sort xs"
  using insertion_sorts [of "length xs" xs]
  by (metis insertion_sort_def mset_eq_length order_refl properties_for_sort take_all)

lemma median_medianDur: "median ds = medianDur ds"
proof -
  have "sort_slice (\<lambda>d. d) ds = sort ds"
    using sorted_sort_slice [of "\<lambda>d. d" ds] mset_sort_slice [of "\<lambda>d. d" ds]
    by (intro properties_for_sort [symmetric]) simp_all
  then show ?thesis by (simp add: median_def medianDur_def insertion_sort_sort)
qed

lemma fetch_range_spec:
  "results \<noteq> [] \<Longrightarrow> fetch_range results = (Min (set results), Max (set results))"
proof -
  have range: "fold (\<lambda>d (mn, mx). (if d < mn then d else mn, if mx < d then d else mx)) ds (a, b)
      = (fold min ds a, fold max ds b)" for ds and a b :: nat
    by (induction ds arbitrary: a b) (simp_all add: min_def max_def not_less)
  assume "results \<noteq> []"
  then have "set (results ! 0 # results) = set results" by (cases results) simp_all
  then show ?thesis
    using Min.set_eq_fold [of "results ! 0" results] Max.set_eq_fold [of "results ! 0" results]
    by (simp add: fetch_range_def range del: list.set)
qed

lemma raw_sends_sum: "sum_list (raw_sends blobSz sent) = blobSz - sent"
  by (induction blobSz sent rule: raw_sends.induct) (auto simp: raw_sends.simps Let_def)

lemma raw_sends_positive: "n \<in> set (raw_sends blobSz sent) \<Longrightarrow> 0 < n \<and> n \<le> rawChunkSize"
proof (induction blobSz sent rule: raw_sends.induct)
  case (1 blobSz sent)
  then show ?case by (auto simp: raw_sends.simps [of blobSz sent] Let_def rawChunkSize_def split: if_splits)
qed

lemma raw_received:
  "fold (raw_receive blobSz) ls st = (fst st + sum_list ls, snd st \<or> (\<exists>k < length ls. blobSz \<le> fst st + sum_list (take (Suc k) ls)))"
  by (induction ls arbitrary: st) (auto simp: raw_receive_def add.assoc less_Suc_eq_0_disj)

end
