(* ===== verification/Bench_Measure.thy ===== *)
theory Bench_Measure
  imports Bench_Local Direct_Signal
begin

text \<open>
  The two programs of \<open>cmd/bench_transport/main.go\<close>: the negotiation of the connection by one HTTP
  request, the server's blobs, and the loop of the client that measures the transfers.
\<close>

section \<open>The negotiation\<close>

text \<open>
  The outcomes of the library's calls, and the description it gives in the end. \<open>opens\<close> says of a
  channel whether it opens before the timeout.
\<close>

record 'd connection_calls =
  new_pc :: "go_error option"
  create_channel :: "string \<Rightarrow> go_error option"
  create_offer :: "go_error + 'd"
  create_answer :: "go_error + 'd"
  set_local :: "'d \<Rightarrow> go_error option"
  set_remote :: "'d \<Rightarrow> go_error option"
  local_description :: 'd
  opens :: "string \<Rightarrow> bool"

definition labelCtrl :: string where "labelCtrl = ''ctrl''"
definition bench_labelBlob :: string where "bench_labelBlob = ''blob''"

text \<open>The number counts the connections that the server has made and not closed.\<close>

definition acceptConnection :: "'d connection_calls \<Rightarrow> 'd \<Rightarrow> nat \<Rightarrow> (go_error + 'd) \<times> nat" where
  "acceptConnection lib offer n =
     (case new_pc lib of
        Some err \<Rightarrow> (Inl err, n)
      | None \<Rightarrow>
          (case set_remote lib offer of
             Some err \<Rightarrow> Inl err
           | None \<Rightarrow>
               (case create_answer lib of
                  Inl err \<Rightarrow> Inl err
                | Inr answer \<Rightarrow>
                    (case set_local lib answer of Some err \<Rightarrow> Inl err | None \<Rightarrow> Inr (local_description lib))),
           Suc n))"

text \<open>Status and body of the response. How a description reads and prints as JSON is the library's.\<close>

definition httpOfferHandler ::
  "(string \<Rightarrow> go_error + 'd) \<Rightarrow> ('d \<Rightarrow> string) \<Rightarrow> 'd connection_calls \<Rightarrow> string \<Rightarrow> nat \<Rightarrow> (nat \<times> string) \<times> nat"
where
  "httpOfferHandler decode encode lib body n =
     (case decode body of
        Inl err \<Rightarrow> (http_error err 400, n)
      | Inr offer \<Rightarrow>
          (case acceptConnection lib offer n of
             (Inl err, n) \<Rightarrow> (http_error err 500, n)
           | (Inr answer, n) \<Rightarrow> ((200, encode answer @ [CHR 0x0A]), n)))"

text \<open>
  The client up to its loop: the text of \<open>log.Fatalf\<close>, or \<open>None\<close> for a connection that is ready.
  The status of the response is not looked at.
\<close>

definition or_fatalf :: "string \<Rightarrow> go_error option \<Rightarrow> string option \<Rightarrow> string option" where
  "or_fatalf what err next = (case err of Some e \<Rightarrow> Some (what @ '': '' @ err_text e) | None \<Rightarrow> next)"

definition failed :: "go_error + 'a \<Rightarrow> go_error option" where
  "failed r = (case r of Inl err \<Rightarrow> Some err | Inr _ \<Rightarrow> None)"

definition client_connect ::
  "(string \<Rightarrow> go_error + 'd) \<Rightarrow> ('d \<Rightarrow> string) \<Rightarrow> 'd connection_calls \<Rightarrow>
     (string \<Rightarrow> string \<Rightarrow> go_error + nat \<times> string) \<Rightarrow> string \<Rightarrow> string option"
where
  "client_connect decode encode lib post sigURL =
     or_fatalf ''newPC'' (new_pc lib) (
     or_fatalf ''create ctrl DC'' (create_channel lib labelCtrl) (
     or_fatalf ''create blob DC'' (create_channel lib bench_labelBlob) (
     or_fatalf ''CreateOffer'' (failed (create_offer lib)) (
     or_fatalf ''SetLocalDescription'' (set_local lib (projr (create_offer lib))) (
       let resp = post (sigURL @ ''/offer'') (encode (local_description lib)) in
     or_fatalf ''POST /offer'' (failed resp) (
       let answer = decode (snd (projr resp)) in
     or_fatalf ''decode answer'' (failed answer) (
     or_fatalf ''SetRemoteDescription'' (set_remote lib (projr answer)) (
       if \<not> opens lib bench_labelBlob then Some ''blob DC not ready after 15s''
       else if \<not> opens lib labelCtrl then Some ''ctrl DC not ready after 15s''
       else None))))))))"

section \<open>The blobs\<close>

definition blobSizes :: "nat list" where
  "blobSizes = [64 * 1024, 256 * 1024, 512 * 1024, 1024 * 1024, 4 * 1024 * 1024]"

definition server_blobs :: "(nat \<Rightarrow> bytes) \<Rightarrow> nat list \<Rightarrow> 64 word \<rightharpoonup> bytes" where
  "server_blobs rnd sizes = fold (\<lambda>sz m. m(of_nat sz \<mapsto> copy_into sz (rnd sz))) sizes Map.empty"

section \<open>The client's loop\<close>

record transport_result =
  tp_size :: nat
  tp_iteration :: nat
  tp_duration :: nat
  tp_transferred :: nat

text \<open>
  What happens in an iteration: the outcome of the request, the messages that the receiver handles
  while the iteration waits, whether the \<open>select\<close> takes the timer although a blob has come, the
  time that passed, and the messages after the wait and before the next iteration's channel.
\<close>

record iteration =
  it_send :: "go_error option"
  it_frames :: "bytes list"
  it_timer :: bool
  it_elapsed :: nat
  it_after :: "bytes list"

text \<open>The blob in the iteration's channel; without one the \<open>select\<close> waits for the timer.\<close>

definition delivered :: "blob_receiver \<Rightarrow> bytes option" where
  "delivered rx = (if br_notif rx \<noteq> None then None else last (br_done rx))"

definition iteration_result :: "nat \<Rightarrow> nat \<Rightarrow> iteration \<Rightarrow> blob_receiver \<Rightarrow> transport_result option" where
  "iteration_result sz i it rx =
     (case delivered rx of
        None \<Rightarrow> None
      | Some data \<Rightarrow>
          if it_timer it then None
          else if length data \<noteq> sz then None
          else Some \<lparr>tp_size = sz, tp_iteration = i, tp_duration = it_elapsed it, tp_transferred = length data\<rparr>)"

fun client_iterations ::
  "nat \<Rightarrow> nat \<Rightarrow> iteration list \<Rightarrow> nat \<Rightarrow> nat list \<times> transport_result list \<times> blob_receiver \<Rightarrow>
     (nat list \<times> transport_result list \<times> blob_receiver) option"
where
  "client_iterations max_alloc sz [] i st = Some st"
| "client_iterations max_alloc sz (it # its) i (durs, results, rx) =
     (case it_send it of
        Some err \<Rightarrow>
          (case bench_iteration max_alloc (it_after it) rx of
             None \<Rightarrow> None | Some rx \<Rightarrow> client_iterations max_alloc sz its (Suc i) (durs, results, rx))
      | None \<Rightarrow>
          (case bench_iteration max_alloc (it_frames it) rx of
             None \<Rightarrow> None
           | Some rx \<Rightarrow>
               let (durs, results) =
                 (case iteration_result sz i it rx of
                    None \<Rightarrow> (durs, results) | Some r \<Rightarrow> (durs @ [tp_duration r], results @ [r])) in
               (case receive_all max_alloc (it_after it) rx of
                  None \<Rightarrow> None | Some rx \<Rightarrow> client_iterations max_alloc sz its (Suc i) (durs, results, rx))))"

text \<open>The line that is printed for a size: its label, and the number, minimum, median and maximum.\<close>

definition size_label :: "nat \<Rightarrow> string" where
  "size_label sz =
     (if 2 ^ 20 \<le> sz then nat_digits (sz div 2 ^ 20) @ ''MB'' else nat_digits (sz div 2 ^ 10) @ ''KB'')"

datatype size_report = FAILED string | Measured string nat nat nat nat

definition report_size :: "nat \<Rightarrow> nat list \<Rightarrow> size_report" where
  "report_size sz durs =
     (if durs = [] then FAILED (size_label sz)
      else let (mn, mx) = fetch_range durs in Measured (size_label sz) (length durs) mn (medianDur durs) mx)"

fun client_sizes ::
  "nat \<Rightarrow> (nat \<Rightarrow> iteration list) \<Rightarrow> nat list \<Rightarrow> transport_result list \<times> blob_receiver \<Rightarrow>
     (size_report list \<times> transport_result list \<times> blob_receiver) option"
where
  "client_sizes max_alloc its [] st = Some ([], st)"
| "client_sizes max_alloc its (sz # sizes) (results, rx) =
     (case client_iterations max_alloc sz (its sz) 0 ([], results, rx) of
        None \<Rightarrow> None
      | Some (durs, st) \<Rightarrow>
          map_option (\<lambda>(reports, st). (report_size sz durs # reports, st)) (client_sizes max_alloc its sizes st))"

text \<open>The results as they are written; a slice that was never appended to is a null.\<close>

definition transport_result_to_json :: "transport_result \<Rightarrow> json" where
  "transport_result_to_json r = JObj
     [(''size_bytes'', JInt (int (tp_size r))), (''iteration'', JInt (int (tp_iteration r))),
      (''duration_ns'', JInt (int (tp_duration r))), (''transferred_bytes'', JInt (int (tp_transferred r)))]"

definition results_to_json :: "('r \<Rightarrow> json) \<Rightarrow> 'r list \<Rightarrow> json" where
  "results_to_json to_json results = (if results = [] then JNull else JArr (map to_json results))"

text \<open>The loop of \<open>runClient\<close> over the sizes, from the new receiver on.\<close>

definition runClient_loop ::
  "nat \<Rightarrow> (nat \<Rightarrow> iteration list) \<Rightarrow> (size_report list \<times> json) option"
where
  "runClient_loop max_alloc its =
     map_option (\<lambda>(reports, results, rx). (reports, results_to_json transport_result_to_json results))
       (client_sizes max_alloc its blobSizes ([], \<lparr>br_buf = None, br_notif = None, br_done = []\<rparr>))"

section \<open>Lemmas\<close>

text \<open>Where the server's calls succeed, the client is ready exactly if its own do.\<close>

lemma or_fatalf_None: "or_fatalf what err next = None \<longleftrightarrow> err = None \<and> next = None"
  by (simp add: or_fatalf_def split: option.split)

lemma offer_answered:
  assumes "\<And>d. decode (encode d) = Inr d" and "\<And>d. decode (encode d @ [CHR 0x0A]) = Inr d"
    and "new_pc srv = None" and "set_remote srv (local_description cl) = None"
    and "create_answer srv = Inr answer" and "set_local srv answer = None"
  shows "httpOfferHandler decode encode srv (encode (local_description cl)) n
      = ((200, encode (local_description srv) @ [CHR 0x0A]), Suc n)"
    and "client_connect decode encode cl (\<lambda>url body. Inr (fst (httpOfferHandler decode encode srv body n))) sigURL = None
      \<longleftrightarrow> new_pc cl = None \<and> create_channel cl labelCtrl = None \<and> create_channel cl bench_labelBlob = None
        \<and> (\<exists>offer. create_offer cl = Inr offer \<and> set_local cl offer = None)
        \<and> set_remote cl (local_description srv) = None \<and> opens cl bench_labelBlob \<and> opens cl labelCtrl"
proof -
  show 1: "httpOfferHandler decode encode srv (encode (local_description cl)) n
      = ((200, encode (local_description srv) @ [CHR 0x0A]), Suc n)"
    using assms by (simp add: httpOfferHandler_def acceptConnection_def)
  show "client_connect decode encode cl (\<lambda>url body. Inr (fst (httpOfferHandler decode encode srv body n))) sigURL = None
      \<longleftrightarrow> new_pc cl = None \<and> create_channel cl labelCtrl = None \<and> create_channel cl bench_labelBlob = None
        \<and> (\<exists>offer. create_offer cl = Inr offer \<and> set_local cl offer = None)
        \<and> set_remote cl (local_description srv) = None \<and> opens cl bench_labelBlob \<and> opens cl labelCtrl"
    by (cases "create_offer cl") (simp_all add: client_connect_def 1 or_fatalf_None failed_def Let_def assms(2))
qed

text \<open>A negotiation that fails leaves its connection open.\<close>

lemma failed_offer_leaks:
  "new_pc lib = None \<Longrightarrow> snd (acceptConnection lib offer n) = Suc n"
  by (simp add: acceptConnection_def)

text \<open>Every iteration that gets the frames of its request, and nothing more, counts.\<close>

lemma iterations_complete:
  assumes "blob \<noteq> []" and "length blob \<le> max_alloc" and "max_alloc < 2 ^ 64"
    and "\<And>it. it \<in> set its \<Longrightarrow> it_send it = None \<and> it_frames it = bench_sendBlob blob [] \<and> \<not> it_timer it \<and> it_after it = []"
  shows "\<exists>rx'. client_iterations max_alloc (length blob) its i (durs, results, rx) =
     Some (durs @ map it_elapsed its,
       results @ map (\<lambda>(j, it). \<lparr>tp_size = length blob, tp_iteration = j, tp_duration = it_elapsed it,
         tp_transferred = length blob\<rparr>) (enumerate i its), rx')"
  using assms(4)
proof (induction its arbitrary: i durs results rx)
  case (Cons it its)
  have it: "it_send it = None" "it_frames it = bench_sendBlob blob []" "\<not> it_timer it" "it_after it = []"
    using Cons.prems [of it] by simp_all
  have "it_send x = None \<and> it_frames x = bench_sendBlob blob [] \<and> \<not> it_timer x \<and> it_after x = []" if "x \<in> set its" for x
    by (rule Cons.prems) (simp add: that)
  note IH = Cons.IH [OF this]
  show ?case
    using IH [of "Suc i" "durs @ [it_elapsed it]"
        "results @ [\<lparr>tp_size = length blob, tp_iteration = i, tp_duration = it_elapsed it, tp_transferred = length blob\<rparr>]"
        "rx\<lparr>br_buf := None, br_notif := None, br_done := br_done rx @ [Some blob]\<rparr>"]
    by (simp add: it bench_transfer [OF assms(1-3)] iteration_result_def delivered_def Let_def)
qed simp

text \<open>Whatever arrives when, the results of a size are of transfers of that size, one for an iteration at most.\<close>

definition results_of :: "nat \<Rightarrow> nat \<Rightarrow> nat \<Rightarrow> transport_result list \<Rightarrow> bool" where
  "results_of sz i n rs \<longleftrightarrow>
     (\<forall>r \<in> set rs. tp_size r = sz \<and> tp_transferred r = sz \<and> i \<le> tp_iteration r \<and> tp_iteration r < i + n)
     \<and> sorted_wrt (<) (map tp_iteration rs)"

lemma results_of_Nil [simp]: "results_of sz i n []"
  by (simp add: results_of_def)

lemma results_of_later: "results_of sz (Suc i) n rs \<Longrightarrow> results_of sz i (Suc n) rs"
  by (auto simp: results_of_def)

lemma results_of_Cons:
  "results_of sz (Suc i) n rs \<Longrightarrow> tp_size r = sz \<Longrightarrow> tp_transferred r = sz \<Longrightarrow> tp_iteration r = i \<Longrightarrow>
     results_of sz i (Suc n) (r # rs)"
  by (auto simp: results_of_def)

lemma iteration_result_of:
  "iteration_result sz i it rx = Some r \<Longrightarrow> tp_size r = sz \<and> tp_transferred r = sz \<and> tp_iteration r = i"
  by (auto simp: iteration_result_def split: option.splits if_splits)

lemma iterations_results:
  "client_iterations max_alloc sz its i (durs, results, rx) = Some (durs', results', rx') \<Longrightarrow>
     \<exists>new. results' = results @ new \<and> durs' = durs @ map tp_duration new \<and> results_of sz i (length its) new"
proof (induction its arbitrary: i durs results rx)
  case (Cons it its)
  have later: ?case if "client_iterations max_alloc sz its (Suc i) (durs, results, rx1) = Some (durs', results', rx')" for rx1
    using Cons.IH [OF that] results_of_later by auto
  show ?case
  proof (cases "it_send it")
    case (Some err)
    with Cons.prems later show ?thesis by (auto split: option.splits)
  next
    case None
    with Cons.prems obtain rx1 where "bench_iteration max_alloc (it_frames it) rx = Some rx1"
      by (auto split: option.splits)
    note rx1 = None this
    show ?thesis
    proof (cases "iteration_result sz i it rx1")
      case None
      with rx1 Cons.prems obtain rx2 where
        "client_iterations max_alloc sz its (Suc i) (durs, results, rx2) = Some (durs', results', rx')"
        by (auto split: option.splits)
      then show ?thesis by (rule later)
    next
      case (Some r)
      with rx1 Cons.prems obtain rx2 where
        "client_iterations max_alloc sz its (Suc i) (durs @ [tp_duration r], results @ [r], rx2) = Some (durs', results', rx')"
        by (auto split: option.splits)
      from Cons.IH [OF this] obtain new where "results' = results @ r # new" "durs' = durs @ map tp_duration (r # new)"
        "results_of sz (Suc i) (length its) new" by auto
      with iteration_result_of [OF Some] results_of_Cons show ?thesis by (metis length_Cons)
    qed
  qed
qed simp

lemma sizes_results:
  "client_sizes max_alloc its sizes (results, rx) = Some (reports, results', rx') \<Longrightarrow>
     \<exists>news. results' = results @ concat news \<and> reports = map2 (\<lambda>sz new. report_size sz (map tp_duration new)) sizes news
       \<and> list_all2 (\<lambda>sz new. results_of sz 0 (length (its sz)) new) sizes news"
proof (induction sizes arbitrary: results rx reports)
  case (Cons sz sizes)
  then obtain durs results1 rx1 reports1 where
    1: "client_iterations max_alloc sz (its sz) 0 ([], results, rx) = Some (durs, results1, rx1)"
    and 2: "client_sizes max_alloc its sizes (results1, rx1) = Some (reports1, results', rx')"
    and r: "reports = report_size sz durs # reports1"
    by (auto split: option.splits)
  from iterations_results [OF 1] obtain new where new: "results1 = results @ new" "durs = map tp_duration new"
    "results_of sz 0 (length (its sz)) new" by auto
  from Cons.IH [OF 2] obtain news where "results' = results1 @ concat news"
    "reports1 = map2 (\<lambda>sz new. report_size sz (map tp_duration new)) sizes news"
    "list_all2 (\<lambda>sz new. results_of sz 0 (length (its sz)) new) sizes news" by blast
  with new r show ?case by (intro exI [of _ "new # news"]) simp
qed simp

text \<open>The server has a blob of each size, so that a run without failures gives one result for each iteration.\<close>

lemma blobSizes_range: "sz \<in> set blobSizes \<Longrightarrow> 0 < sz \<and> sz \<le> 2 ^ 22"
  by (auto simp: blobSizes_def)

lemma server_blobs_get:
  assumes "\<And>sz. sz \<in> set sizes \<Longrightarrow> sz < 2 ^ 64" and "sz \<in> set sizes"
  shows "server_blobs rnd sizes (of_nat sz) = Some (copy_into sz (rnd sz))"
proof -
  have "unat (of_nat n :: 64 word) = n" if "n < 2 ^ 64" for n
    using that by (simp add: unat_of_nat take_bit_nat_eq_self)
  then have "n = m" if "(of_nat n :: 64 word) = of_nat m" "n < 2 ^ 64" "m < 2 ^ 64" for n m
    using that by metis
  note inj = this
  show ?thesis
    using assms unfolding server_blobs_def
  proof (induction sizes rule: rev_induct)
    case (snoc x xs)
    show ?case
    proof (cases "x = sz")
      case False
      have "x < 2 ^ 64" "sz < 2 ^ 64" by (rule snoc.prems(1), simp, rule snoc.prems(1), rule snoc.prems(2))
      with False inj have "(of_nat x :: 64 word) \<noteq> of_nat sz" by blast
      moreover have "sz \<in> set xs" using snoc.prems(2) False by auto
      moreover have "\<And>n. n \<in> set xs \<Longrightarrow> n < 2 ^ 64" by (rule snoc.prems(1)) simp
      ultimately show ?thesis using snoc.IH by (simp add: fun_upd_apply)
    qed simp
  qed simp
qed

definition all_answered :: "(nat \<Rightarrow> bytes) \<Rightarrow> nat \<Rightarrow> iteration list \<Rightarrow> bool" where
  "all_answered rnd sz its \<longleftrightarrow>
     (\<forall>it \<in> set its. it_send it = None \<and> it_after it = [] \<and> \<not> it_timer it
        \<and> it_frames it = serve_size (server_blobs rnd blobSizes) True (bench_request (of_nat sz)) [])"

definition complete_results :: "nat \<Rightarrow> iteration list \<Rightarrow> transport_result list" where
  "complete_results sz its =
     map (\<lambda>(j, it). \<lparr>tp_size = sz, tp_iteration = j, tp_duration = it_elapsed it, tp_transferred = sz\<rparr>) (enumerate 0 its)"

lemma size_complete:
  assumes sz: "sz \<in> set blobSizes" and max: "2 ^ 22 \<le> max_alloc" "max_alloc < 2 ^ 64"
    and its: "all_answered rnd sz its"
  shows "\<exists>rx'. client_iterations max_alloc sz its 0 (durs, results, rx)
     = Some (durs @ map it_elapsed its, results @ complete_results sz its, rx')"
proof -
  let ?blob = "copy_into sz (rnd sz)"
  have len: "length ?blob = sz" by simp
  have "server_blobs rnd blobSizes (of_nat sz) = Some ?blob"
    using blobSizes_range by (intro server_blobs_get [OF _ sz]) fastforce
  then have frames: "serve_size (server_blobs rnd blobSizes) True (bench_request (of_nat sz)) [] = bench_sendBlob ?blob []"
    by (rule bench_served)
  have "?blob \<noteq> []" using len blobSizes_range [OF sz] by (metis less_irrefl list.size(3))
  moreover have "length ?blob \<le> max_alloc" using blobSizes_range [OF sz] max(1) by simp
  ultimately have "\<exists>rx'. client_iterations max_alloc (length ?blob) its 0 (durs, results, rx) =
     Some (durs @ map it_elapsed its,
       results @ map (\<lambda>(j, it). \<lparr>tp_size = length ?blob, tp_iteration = j, tp_duration = it_elapsed it,
         tp_transferred = length ?blob\<rparr>) (enumerate 0 its), rx')"
    using its unfolding all_answered_def frames by (intro iterations_complete [OF _ _ max(2)]) blast+
  then show ?thesis unfolding complete_results_def len .
qed

lemma sizes_complete:
  assumes "set sizes \<subseteq> set blobSizes" and max: "2 ^ 22 \<le> max_alloc" "max_alloc < 2 ^ 64"
    and "\<And>sz. sz \<in> set sizes \<Longrightarrow> all_answered rnd sz (its sz)"
  shows "\<exists>rx'. client_sizes max_alloc its sizes (results, rx) =
     Some (map (\<lambda>sz. report_size sz (map it_elapsed (its sz))) sizes,
       results @ concat (map (\<lambda>sz. complete_results sz (its sz)) sizes), rx')"
  using assms(1,4)
proof (induction sizes arbitrary: results rx)
  case (Cons sz sizes)
  have sz: "sz \<in> set blobSizes" using Cons.prems(1) by simp
  obtain rx1 where "client_iterations max_alloc sz (its sz) 0 ([], results, rx)
      = Some (map it_elapsed (its sz), results @ complete_results sz (its sz), rx1)"
    using size_complete [OF sz max Cons.prems(2) [of sz], of "[]" results rx] by auto
  moreover obtain rx' where "client_sizes max_alloc its sizes (results @ complete_results sz (its sz), rx1) =
     Some (map (\<lambda>sz. report_size sz (map it_elapsed (its sz))) sizes,
       (results @ complete_results sz (its sz)) @ concat (map (\<lambda>sz. complete_results sz (its sz)) sizes), rx')"
    using Cons.IH [of "results @ complete_results sz (its sz)" rx1] Cons.prems by auto
  ultimately show ?case by simp
qed simp

text \<open>
  An iteration that timed out leaves its request behind: the answer is taken by the next iteration,
  as soon as it comes, and the answer to that one's own request is dropped.
\<close>

lemma receive_idle:
  assumes "blob \<noteq> []" and "length blob \<le> max_alloc" and "max_alloc < 2 ^ 64" and "br_notif rx = None"
  shows "receive_all max_alloc (bench_sendBlob blob []) rx = Some (rx\<lparr>br_buf := None\<rparr>)"
proof -
  obtain cs c where frames: "bench_sendBlob blob [] =
      (frameHint # put_uint64_le (of_nat (length blob))) # map (\<lambda>c. frameChunk # c) cs @ [frameLast # c]"
    using sendBlob_shape [OF assms(1)] .
  have "br_notif rx = None \<Longrightarrow> receive_all max_alloc (map (\<lambda>c. frameChunk # c) cs @ [frameLast # c]) rx
      = Some (rx\<lparr>br_buf := None\<rparr>)" for rx
    by (simp add: receive_more_chunks onMessage_def Let_def)
  from this [of "rx\<lparr>br_buf := Some []\<rparr>"] show ?thesis
    using assms(2,4) by (simp add: frames onMessage_def size_hint [OF assms(2,3)])
qed

lemma late_blob:
  assumes "blob \<noteq> []" and "length blob \<le> max_alloc" and "max_alloc < 2 ^ 64"
    and frames: "frames = bench_sendBlob blob []"
  shows "\<exists>rx'. client_iterations max_alloc (length blob)
       [\<lparr>it_send = None, it_frames = [], it_timer = t, it_elapsed = e1, it_after = []\<rparr>,
        \<lparr>it_send = None, it_frames = frames, it_timer = False, it_elapsed = e2, it_after = frames\<rparr>]
       i (durs, results, rx)
     = Some (durs @ [e2], results @ [\<lparr>tp_size = length blob, tp_iteration = Suc i, tp_duration = e2,
         tp_transferred = length blob\<rparr>], rx')"
  unfolding frames
  using bench_transfer [OF assms(1-3)] receive_idle [OF assms(1-3)]
  by (simp add: bench_iteration_def [of _ "[]"] iteration_result_def delivered_def Let_def)

text \<open>
  Two transfers at once share the channel, and their frames carry no id: blobs of two chunks can come
  out as one of three, which no iteration takes.
\<close>

lemma mixed_transfers:
  assumes "length a = blobChunkSize" and "b \<noteq> []" and "length b \<le> blobChunkSize" and "2 * blobChunkSize < max_alloc"
    and "max_alloc < 2 ^ 64" and blob: "blob = a @ b"
  shows "\<exists>frames rx'. frames \<in> shuffles (bench_sendBlob blob []) (bench_sendBlob blob [])
     \<and> bench_iteration max_alloc frames rx = Some rx' \<and> delivered rx' = Some (a @ a @ b)
     \<and> iteration_result (length blob) i it rx' = None"
proof -
  have chunk: "blobChunkSize > 0" by (simp add: blobChunkSize_def)
  have "chunks b = [(1, b)]" using assms(2,3) by (simp add: chunks.simps [of b])
  then have c: "chunks blob = [(0, a), (1, b)]"
    using assms(1,2) chunk by (subst chunks.simps) (auto simp: blob)
  let ?hint = "frameHint # put_uint64_le (of_nat (length blob))" and ?a = "frameChunk # a" and ?b = "frameLast # b"
  have fr: "bench_sendBlob blob [] = [?hint, ?a, ?b]"
    by (simp add: bench_sendBlob_def bench_frames c bench_frame_def Let_def)
  have "length blob \<le> 2 * blobChunkSize" using assms(1,3) by (simp add: blob)
  then have max: "length blob \<le> max_alloc" using assms(4) by simp
  let ?frames = "[?hint, ?hint, ?a, ?a, ?b, ?b]"
  have "?frames \<in> shuffles [?hint, ?a, ?b] [?hint, ?a, ?b]" by (auto simp: Cons_in_shuffles_iff)
  moreover have "bench_iteration max_alloc ?frames rx
      = Some (rx\<lparr>br_buf := None, br_notif := None, br_done := br_done rx @ [Some (a @ a @ b)]\<rparr>)"
    using max by (simp add: bench_iteration_def onMessage_def size_hint [OF max assms(5)] Let_def)
  moreover have "length (a @ a @ b) \<noteq> length blob" using assms(1) chunk by (simp add: blob)
  ultimately show ?thesis
    unfolding fr by (intro exI [of _ ?frames] exI conjI) (assumption, assumption, simp_all add: iteration_result_def delivered_def)
qed

end
