(* ===== verification/Bench_Raw.thy ===== *)
theory Bench_Raw
  imports Bench_Measure
begin

text \<open>
  The program \<open>cmd/pion_raw_bench/main.go\<close>: two connections of one process, the loop that measures
  a size, and the statistics of the sizes.
\<close>

section \<open>The two connections\<close>

text \<open>The outcomes of the library's calls on the connection that offers and on the one that answers.\<close>

record 'd pair_calls =
  offering :: "'d connection_calls"
  answering :: "'d connection_calls"

text \<open>
  The first failure, and how many connections are open then. The channels open on both sides, each
  within 10 seconds.
\<close>

definition or_return :: "go_error option \<Rightarrow> go_error option \<Rightarrow> go_error option" where
  "or_return err next = (case err of Some e \<Rightarrow> Some e | None \<Rightarrow> next)"

definition negotiate_pair :: "'d pair_calls \<Rightarrow> go_error option" where
  "negotiate_pair lib =
     (let pc1 = offering lib; pc2 = answering lib in
      or_return (create_channel pc1 ''bench'') (
      or_return (failed (create_offer pc1)) (
      or_return (set_local pc1 (projr (create_offer pc1))) (
      or_return (set_remote pc2 (local_description pc1)) (
      or_return (failed (create_answer pc2)) (
      or_return (set_local pc2 (projr (create_answer pc2))) (
      or_return (set_remote pc1 (local_description pc2)) (
        if \<not> opens pc1 ''bench'' then Some (ErrText ''dc1 open timeout'')
        else if \<not> opens pc2 ''bench'' then Some (ErrText ''dc2 open timeout'')
        else None))))))))"

definition setupPair :: "'d pair_calls \<Rightarrow> go_error option \<times> nat" where
  "setupPair lib =
     (case new_pc (offering lib) of
        Some err \<Rightarrow> (Some err, 0)
      | None \<Rightarrow> (case new_pc (answering lib) of Some err \<Rightarrow> (Some err, 0) | None \<Rightarrow> (negotiate_pair lib, 2)))"

section \<open>The measurement of a size\<close>

text \<open>
  Each iteration puts a new function for the messages, which counts from zero: the lengths that it
  sees before the iteration ends, and the time that passed. Without enough bytes the timer fires.
\<close>

fun raw_iterations :: "nat \<Rightarrow> (nat \<Rightarrow> nat list \<times> nat) \<Rightarrow> nat list \<Rightarrow> nat list \<Rightarrow> go_error + nat list" where
  "raw_iterations blobSz run [] durs = Inr durs"
| "raw_iterations blobSz run (iter # iters) durs =
     (let (lens, elapsed) = run iter in
      if snd (fold (raw_receive blobSz) lens (0, False)) then raw_iterations blobSz run iters (durs @ [elapsed])
      else Inl (ErrText (''recv timeout (iter '' @ nat_digits iter @ '')'')))"

text \<open>The result, and how many connections stay open: \<open>cleanup\<close> is deferred after the check of the error.\<close>

definition raw_bench :: "'d pair_calls \<Rightarrow> (nat \<Rightarrow> nat list \<times> nat) \<Rightarrow> nat \<Rightarrow> (go_error + nat list) \<times> nat" where
  "raw_bench lib run blobSz =
     (case setupPair lib of
        (Some err, n) \<Rightarrow> (Inl err, n)
      | (None, n) \<Rightarrow> (raw_iterations blobSz run [0..<raw_iters blobSz] [], 0))"

section \<open>The statistics\<close>

text \<open>The durations are kept, not their milliseconds; the throughput is left out.\<close>

record raw_result =
  rw_size :: nat
  rw_iters :: nat
  rw_min :: nat
  rw_med :: nat
  rw_p95 :: nat

text \<open>
  \<open>int(float64(n) * 0.95)\<close> is the integer part of the exact product for the five numbers of
  iterations that there are, none of which gives a whole number.
\<close>

definition p95_index :: "nat \<Rightarrow> nat" where
  "p95_index n = (let i = n * 95 div 100 in if n \<le> i then n - 1 else i)"

definition raw_result_of :: "nat \<Rightarrow> nat list \<Rightarrow> raw_result" where
  "raw_result_of sz durs =
     (let durs = sort_slice (\<lambda>d. d) durs in
      \<lparr>rw_size = sz, rw_iters = length durs, rw_min = durs ! 0, rw_med = durs ! (length durs div 2),
       rw_p95 = durs ! p95_index (length durs)\<rparr>)"

text \<open>An error of a size is printed and the next one is measured; the connections it left open add up.\<close>

fun raw_main :: "(nat \<Rightarrow> 'd pair_calls) \<Rightarrow> (nat \<Rightarrow> nat \<Rightarrow> nat list \<times> nat) \<Rightarrow> nat list \<Rightarrow> raw_result list \<times> nat" where
  "raw_main lib run [] = ([], 0)"
| "raw_main lib run (sz # sizes) =
     (let (r, left) = raw_bench (lib sz) (run sz) sz; (results, others) = raw_main lib run sizes in
      (case r of Inl err \<Rightarrow> results | Inr durs \<Rightarrow> raw_result_of sz durs # results, left + others))"

section \<open>Lemmas\<close>

text \<open>An iteration sends the whole blob, and only its last chunk completes it.\<close>

lemma raw_iteration:
  assumes "0 < blobSz"
  shows "fold (raw_receive blobSz) (raw_sends blobSz 0) (0, False) = (blobSz, True)"
    and "k < length (raw_sends blobSz 0) \<Longrightarrow>
      snd (fold (raw_receive blobSz) (take k (raw_sends blobSz 0)) (0, False)) = False"
proof -
  let ?ls = "raw_sends blobSz 0"
  have sum: "sum_list ?ls = blobSz" using raw_sends_sum [of blobSz 0] by simp
  then have ne: "?ls \<noteq> []" using assms by (metis sum_list.Nil less_irrefl)
  show "fold (raw_receive blobSz) ?ls (0, False) = (blobSz, True)"
    using sum ne by (auto simp: raw_received intro!: exI [of _ "length ?ls - 1"])
  show "snd (fold (raw_receive blobSz) (take k ?ls) (0, False)) = False" if k: "k < length ?ls"
  proof -
    have "sum_list (take (Suc j) (take k ?ls)) < blobSz" if "j < k" for j
    proof -
      have "sum_list ?ls = sum_list (take (Suc j) ?ls) + sum_list (drop (Suc j) ?ls)"
        by (metis append_take_drop_id sum_list.append)
      moreover have "0 < sum_list (drop (Suc j) ?ls)"
      proof -
        have j: "Suc j < length ?ls" using that k by simp
        then have "drop (Suc j) ?ls = ?ls ! Suc j # drop (Suc (Suc j)) ?ls" by (rule Cons_nth_drop_Suc [symmetric])
        moreover have "0 < ?ls ! Suc j" using raw_sends_positive nth_mem [OF j] by blast
        ultimately show ?thesis by simp
      qed
      moreover have "take (Suc j) (take k ?ls) = take (Suc j) ?ls" using that by (simp add: min_def)
      ultimately show ?thesis using sum by simp
    qed
    then show ?thesis using k by (auto simp: raw_received not_le)
  qed
qed

lemma raw_iterations_length:
  "raw_iterations blobSz run iters durs = Inr durs' \<Longrightarrow> durs' = durs @ map (\<lambda>i. snd (run i)) iters"
proof (induction iters arbitrary: durs)
  case (Cons i iters)
  then show ?case by (cases "run i") (fastforce split: if_splits)
qed simp

lemma raw_iterations_all:
  assumes "0 < blobSz" and "\<And>i. i \<in> set iters \<Longrightarrow> fst (run i) = raw_sends blobSz 0"
  shows "raw_iterations blobSz run iters durs = Inr (durs @ map (\<lambda>i. snd (run i)) iters)"
proof -
  have received: "snd (fold (raw_receive blobSz) (raw_sends blobSz 0) (0, False))"
    using raw_iteration(1) [OF assms(1)] by simp
  show ?thesis
    using assms(2)
  proof (induction iters arbitrary: durs)
    case (Cons i iters)
    obtain elapsed where "run i = (raw_sends blobSz 0, elapsed)" using Cons.prems [of i] by (metis list.set_intros(1) prod.collapse)
    with Cons received show ?case by simp
  qed simp
qed

lemma raw_iters_range: "8 \<le> raw_iters blobSz"
  by (simp add: raw_iters_def Let_def)

lemma p95_index_range: "0 < n \<Longrightarrow> p95_index n < n"
  by (simp add: p95_index_def Let_def)

lemma median_below_p95:
  assumes "1 < n"
  shows "n div 2 \<le> p95_index n"
proof -
  have "n div 2 * 100 \<le> n * 95" by linarith
  then have "n div 2 \<le> n * 95 div 100" by (simp add: less_eq_div_iff_mult_less_eq)
  moreover have "n div 2 \<le> n - 1" using assms by linarith
  ultimately show ?thesis by (simp add: p95_index_def Let_def)
qed

lemma raw_result_sound:
  assumes "raw_bench lib run sz = (Inr durs, left)" and "r = raw_result_of sz durs"
  shows "rw_iters r = raw_iters sz" and "left = 0"
    and "{rw_min r, rw_med r, rw_p95 r} \<subseteq> (\<lambda>i. snd (run i)) ` {0..<raw_iters sz}"
    and "rw_min r \<le> rw_med r" and "rw_med r \<le> rw_p95 r"
    and "rw_min r = Min ((\<lambda>i. snd (run i)) ` {0..<raw_iters sz})" and "rw_med r = medianDur durs"
proof -
  have durs: "durs = map (\<lambda>i. snd (run i)) [0..<raw_iters sz]" and "left = 0"
    using assms(1) raw_iterations_length [of sz run _ "[]"] by (auto simp: raw_bench_def split: prod.splits option.splits)
  then show "left = 0" by simp
  let ?s = "sort_slice (\<lambda>d. d) durs"
  have len: "length ?s = raw_iters sz" and n: "8 \<le> raw_iters sz" using raw_iters_range [of sz] by (simp_all add: durs)
  have set: "set ?s = (\<lambda>i. snd (run i)) ` {0..<raw_iters sz}" by (simp add: durs)
  have sorted: "sorted ?s" using sorted_sort_slice [of "\<lambda>d. d" durs] by simp
  have r: "rw_iters r = length ?s" "rw_min r = ?s ! 0" "rw_med r = ?s ! (length ?s div 2)" "rw_p95 r = ?s ! p95_index (length ?s)"
    by (simp_all add: assms(2) raw_result_of_def Let_def)
  show "rw_iters r = raw_iters sz" using r len by simp
  have i: "0 < length ?s" "length ?s div 2 < length ?s" "p95_index (length ?s) < length ?s"
    using n len p95_index_range [of "length ?s"] by simp_all
  show "{rw_min r, rw_med r, rw_p95 r} \<subseteq> (\<lambda>i. snd (run i)) ` {0..<raw_iters sz}"
    using i nth_mem unfolding r set [symmetric] by blast
  show "rw_min r \<le> rw_med r" using sorted i unfolding r by (simp add: sorted_iff_nth_mono)
  show "rw_med r \<le> rw_p95 r" using sorted i median_below_p95 [of "length ?s"] n len unfolding r by (simp add: sorted_iff_nth_mono)
  show "rw_min r = Min ((\<lambda>i. snd (run i)) ` {0..<raw_iters sz})"
  proof (rule Min_eqI [symmetric])
    show "rw_min r \<in> (\<lambda>i. snd (run i)) ` {0..<raw_iters sz}" using nth_mem [OF i(1)] unfolding r set .
    fix y assume "y \<in> (\<lambda>i. snd (run i)) ` {0..<raw_iters sz}"
    then obtain j where "j < length ?s" "y = ?s ! j" unfolding set [symmetric] by (metis in_set_conv_nth)
    then show "rw_min r \<le> y" using sorted unfolding r by (simp add: sorted_iff_nth_mono)
  qed simp
  have "durs \<noteq> []" using n durs by auto
  then show "rw_med r = medianDur durs" using r by (simp add: medianDur_def)
qed

text \<open>A negotiation that fails leaves both connections open, and the program goes on to the next size.\<close>

lemma failed_setup_leaks:
  assumes "new_pc (offering lib) = None" and "new_pc (answering lib) = None" and "negotiate_pair lib = Some err"
  shows "raw_bench lib run sz = (Inl err, 2)"
  using assms by (simp add: raw_bench_def setupPair_def)

lemma raw_main_leaks:
  assumes "\<And>sz. sz \<in> set sizes \<Longrightarrow> new_pc (offering (lib sz)) = None \<and> new_pc (answering (lib sz)) = None \<and> negotiate_pair (lib sz) \<noteq> None"
  shows "raw_main lib run sizes = ([], 2 * length sizes)"
  using assms
proof (induction sizes)
  case (Cons sz sizes)
  then obtain err where "raw_bench (lib sz) (run sz) sz = (Inl err, 2)"
    using failed_setup_leaks [of "lib sz"] by fastforce
  with Cons show ?case by simp
qed simp

lemma raw_main_complete:
  assumes "\<And>sz. sz \<in> set sizes \<Longrightarrow> 0 < sz \<and> fst (setupPair (lib sz)) = None \<and> (\<forall>i. fst (run sz i) = raw_sends sz 0)"
  shows "raw_main lib run sizes
     = (map (\<lambda>sz. raw_result_of sz (map (\<lambda>i. snd (run sz i)) [0..<raw_iters sz])) sizes, 0)"
  using assms
proof (induction sizes)
  case (Cons sz sizes)
  then have sz: "0 < sz" "fst (setupPair (lib sz)) = None" "\<And>i. fst (run sz i) = raw_sends sz 0" by simp_all
  have "raw_bench (lib sz) (run sz) sz = (Inr (map (\<lambda>i. snd (run sz i)) [0..<raw_iters sz]), 0)"
    using sz(2) raw_iterations_all [where run = "run sz", OF sz(1,3)] by (cases "setupPair (lib sz)") (simp add: raw_bench_def)
  with Cons show ?case by simp
qed simp

end
