(* ===== verification/Bench_Local_Main.thy ===== *)
theory Bench_Local_Main
  imports Bench_Measure
begin

text \<open>The program \<open>cmd/webrtc_blob_local_test/main.go\<close>: a server and a client of one process over WebRTC.\<close>

section \<open>The program\<close>

text \<open>How the program ends: by a failure before the measurements, or with a line for each size.\<close>

definition local_iters :: nat where "local_iters = 20"

datatype local_end = Listen_failed go_error | Start_failed go_error | Ping_failed go_error | Reports "size_report list"

text \<open>
  The server's contact and the client's, as they are when the client starts: \<open>Listen\<close> of a direct
  signaler sets the port in the metadata, which the program then sets once more for the server.
\<close>

definition server_contact :: "bytes \<Rightarrow> (string \<Rightarrow> bytes option) \<Rightarrow> go_error option \<times> network_node" where
  "server_contact rnd parseIP =
     (let (err, sig, net) = Listen_rtc False None None (Direct (NewDirectSignaler 9200))
            (NewNetworkNode rnd parseIP ''127.0.0.1'' 9100)
      in (err, net\<lparr>nn_meta := Some [''sig_port'' \<mapsto> ''9200'']\<rparr>))"

definition client_contact :: "bytes \<Rightarrow> (string \<Rightarrow> bytes option) \<Rightarrow> go_error option \<times> network_node" where
  "client_contact rnd parseIP =
     (let (err, sig, net) = Listen_rtc True None None (Direct (NewDirectSignaler 9201))
            ((NewNetworkNode rnd parseIP ''127.0.0.1'' 9101)\<lparr>nn_meta := Some Map.empty\<rparr>)
      in (err, net))"

text \<open>The line of a size; one without durations is in KB whatever the size.\<close>

definition local_report :: "nat \<Rightarrow> nat list \<Rightarrow> size_report" where
  "local_report n results =
     (if results = [] then FAILED (nat_digits (n div 1024) @ ''KB'')
      else
        let med = median results; (mn, mx) = fetch_range results;
            label = (if 1024 * 1024 \<le> n then nat_digits (n div 1024 div 1024) @ ''MB'' else nat_digits (n div 1024) @ ''KB'')
        in Measured label (length results) mn med mx)"

text \<open>
  \<open>reach\<close> and \<open>fetch\<close> are the client's calls: of a contact, from one contact to another, with the
  number of the iteration, which gives the outcome and the time that passed.
\<close>

definition local_test_main ::
  "bytes \<Rightarrow> bytes \<Rightarrow> (string \<Rightarrow> bytes option) \<Rightarrow> (network_node \<Rightarrow> network_node \<Rightarrow> go_error option) \<Rightarrow>
     (network_node \<Rightarrow> network_node \<Rightarrow> string \<Rightarrow> nat \<Rightarrow> (go_error + bytes) \<times> nat) \<Rightarrow> local_end"
where
  "local_test_main rnd1 rnd2 parseIP reach fetch =
     (let (listen_err, server) = server_contact rnd1 parseIP in
      case listen_err of
        Some err \<Rightarrow> Listen_failed err
      | None \<Rightarrow>
          let (start_err, client) = client_contact rnd2 parseIP in
          (case start_err of
             Some err \<Rightarrow> Start_failed err
           | None \<Rightarrow>
               (case reach client server of
                  Some err \<Rightarrow> Ping_failed err
                | None \<Rightarrow>
                    Reports (map (\<lambda>n. local_report n
                      (fetch_durations n (map (fetch client server (size_ref n)) [0..<local_iters]))) blobSizes))))"

section \<open>Lemmas\<close>

text \<open>The client's offers go to the server's signaler.\<close>

lemma server_contact_ready:
  "fst (server_contact rnd parseIP) = None"
  "offer_url ip_text (snd (server_contact rnd parseIP)) = ''http://'' @ ip_text (parseIP ''127.0.0.1'') @ '':9200/offer''"
  by (simp_all add: server_contact_def Listen_rtc_def attach_node_def ListenOffers_direct_def NewDirectSignaler_def
      NewNetworkNode_def set_sig_port_def offer_url_def meta_get_def)

lemma client_contact_ready: "fst (client_contact rnd parseIP) = None"
  by (simp add: client_contact_def Listen_rtc_def attach_node_def ListenOffers_direct_def)

lemma local_report_size:
  "results \<noteq> [] \<Longrightarrow> local_report n results = report_size n results"
  by (auto simp: local_report_def report_size_def size_label_def median_medianDur div_mult2_eq [symmetric] Let_def split: prod.splits)

lemma fetch_durations_all:
  "(\<And>x. x \<in> set outs \<Longrightarrow> \<exists>got. fst x = Inr got \<and> length got = n) \<Longrightarrow> fetch_durations n outs = map snd outs"
proof (induction outs)
  case (Cons x outs)
  obtain got elapsed where "x = (Inr got, elapsed)" "length got = n" using Cons.prems [of x] by (cases x) auto
  with Cons show ?case by simp
qed simp

lemma local_main_end:
  "local_test_main rnd1 rnd2 parseIP reach fetch =
     (case reach (snd (client_contact rnd2 parseIP)) (snd (server_contact rnd1 parseIP)) of
        Some err \<Rightarrow> Ping_failed err
      | None \<Rightarrow> Reports (map (\<lambda>n. local_report n (fetch_durations n
          (map (fetch (snd (client_contact rnd2 parseIP)) (snd (server_contact rnd1 parseIP)) (size_ref n)) [0..<local_iters]))) blobSizes))"
  using server_contact_ready(1) [of rnd1 parseIP] client_contact_ready [of rnd2 parseIP]
  by (simp add: local_test_main_def split_beta split: prod.splits)

end
