(* ===== verification/Bench_Signaling.thy ===== *)
theory Bench_Signaling
  imports Dht_Signal
begin

text \<open>
  \<open>cmd/bench_signaling/main.go\<close>: the coordinator that spreads pairs of nodes over agents, and the
  exchange of an offer and an answer over the DHT as the agents measure it, with keys and a
  poll loop of their own.
\<close>

section \<open>Helpers\<close>

text \<open>\<open>hex.DecodeString\<close> with its error dropped: the bytes before the error, filled with zeros.\<close>

definition bench_nodeIDFromHex :: "string \<Rightarrow> dht_key" where
  "bench_nodeIDFromHex h = key_of_slice (fst (hex_decode h))"

definition randomIDHex :: "bytes \<Rightarrow> string" where
  "randomIDHex rnd = hex_encode (copy_into 20 rnd)"

text \<open>The loop of \<open>parseCSV\<close> over the characters of the text, taken as ASCII.\<close>

fun parse_csv_loop :: "string list \<Rightarrow> string \<Rightarrow> string \<Rightarrow> string list" where
  "parse_csv_loop out cur [] = out @ [cur]"
| "parse_csv_loop out cur (c # s) =
     (if c = CHR '','' then parse_csv_loop (out @ [cur]) [] s else parse_csv_loop out (cur @ [c]) s)"

definition parseCSV :: "string \<Rightarrow> string list" where
  "parseCSV s = (if s = [] then [] else parse_csv_loop [] [] s)"

definition s2OfferKey :: "(bytes \<Rightarrow> bytes) \<Rightarrow> dht_key \<Rightarrow> dht_key \<Rightarrow> dht_key" where
  "s2OfferKey sha1 callerID calleeID =
     KeyFromBytes sha1 (bytes_of_string ''s2of:'' @ key_bytes callerID @ key_bytes calleeID)"

definition s2AnswerKey :: "(bytes \<Rightarrow> bytes) \<Rightarrow> dht_key \<Rightarrow> dht_key \<Rightarrow> dht_key" where
  "s2AnswerKey sha1 callerID calleeID =
     KeyFromBytes sha1 (bytes_of_string ''s2an:'' @ key_bytes callerID @ key_bytes calleeID)"

definition s2DoorbellKey :: "(bytes \<Rightarrow> bytes) \<Rightarrow> dht_key \<Rightarrow> dht_key" where
  "s2DoorbellKey sha1 calleeID = KeyFromBytes sha1 (bytes_of_string ''s2bell:'' @ key_bytes calleeID)"

section \<open>The agents\<close>

text \<open>
  The callee over the DHT: \<open>ticks\<close> is the number of polls before its context ends. It answers
  the first offer it finds and returns; the caller's SDP is repeated in the answer.
\<close>

definition long_value :: "nat \<Rightarrow> value_meta option \<times> go_error option \<Rightarrow> bytes option" where
  "long_value n r =
     (case r of
        (Some m, None) \<Rightarrow>
          if Inline m \<and> n \<le> length (slice_bytes (Data m)) then Some (slice_bytes (Data m)) else None
      | _ \<Rightarrow> None)"

fun callee_loop ::
  "(bytes \<Rightarrow> bytes) \<Rightarrow> 'w env \<Rightarrow> dht_key \<Rightarrow> nat \<Rightarrow> 'w node \<times> 'w \<Rightarrow> (dht_key option \<times> 'w node \<times> 'w) outcome"
where
  "callee_loop sha1 env callee 0 s = Done (None, s)"
| "callee_loop sha1 env callee (Suc ticks) s =
     and_then (FindValue env (s2DoorbellKey sha1 callee) s)
       (\<lambda>(r, log, s).
          case long_value 20 r of
            None \<Rightarrow> callee_loop sha1 env callee ticks s
          | Some bell \<Rightarrow>
              let callerID = key_of_slice bell in
              and_then (FindValue env (s2OfferKey sha1 callerID callee) s)
                (\<lambda>(r, log, s).
                   case long_value 1 r of
                     None \<Rightarrow> callee_loop sha1 env callee ticks s
                   | Some offer \<Rightarrow>
                       and_then (StoreValue env (s2AnswerKey sha1 callerID callee)
                           (inline_value (Some (bytes_of_string ''answer-to-'' @ offer))) s)
                         (\<lambda>(err, sent, s).
                            and_then (StoreValue env (s2DoorbellKey sha1 callee) (inline_value None) s)
                              (\<lambda>(err, sent, s). Done (Some callerID, s)))))"

definition no_answer_error :: go_error where
  "no_answer_error = ErrText ''timeout waiting for answer''"

fun caller_wait ::
  "'w env \<Rightarrow> dht_key \<Rightarrow> nat \<Rightarrow> 'w node \<times> 'w \<Rightarrow> (go_error option \<times> 'w node \<times> 'w) outcome"
where
  "caller_wait env answerKey 0 s = Done (Some no_answer_error, s)"
| "caller_wait env answerKey (Suc ticks) s =
     and_then (FindValue env answerKey s)
       (\<lambda>(r, log, s).
          if long_value 1 r \<noteq> None then Done (None, s) else caller_wait env answerKey ticks s)"

text \<open>The caller: the time it takes is measured outside the model.\<close>

definition runCallerSignaling_dht ::
  "(bytes \<Rightarrow> bytes) \<Rightarrow> 'w env \<Rightarrow> dht_key \<Rightarrow> dht_key \<Rightarrow> nat \<Rightarrow> nat \<Rightarrow> 'w node \<times> 'w \<Rightarrow>
     (go_error option \<times> 'w node \<times> 'w) outcome"
where
  "runCallerSignaling_dht sha1 env caller callee pairID ticks s =
     and_then (StoreValue env (s2OfferKey sha1 caller callee)
         (inline_value (Some (bytes_of_string (''offer-'' @ nat_digits pairID)))) s)
       (\<lambda>(err, sent, s).
          case err of
            Some e \<Rightarrow> Done (Some (ErrWrap ''store offer'' e), s)
          | None \<Rightarrow>
              and_then (StoreValue env (s2DoorbellKey sha1 callee) (inline_value (Some (key_bytes caller))) s)
                (\<lambda>(err, sent, s).
                   case err of
                     Some e \<Rightarrow> Done (Some (ErrWrap ''doorbell'' e), s)
                   | None \<Rightarrow> caller_wait env (s2AnswerKey sha1 caller callee) ticks s))"

section \<open>The coordinator\<close>

text \<open>The agents that the two roles of pair \<open>i\<close> start at, of \<open>n\<close> agents.\<close>

definition callee_agent :: "nat \<Rightarrow> nat \<Rightarrow> nat" where
  "callee_agent n i = i mod n"

definition caller_agent :: "nat \<Rightarrow> nat \<Rightarrow> nat" where
  "caller_agent n i = (i + (n + 1) div 2) mod n"

text \<open>
  The attempts to hand a role to an agent: from \<open>start\<close> on, each agent once until one accepts.
\<close>

fun dispatch :: "(nat \<Rightarrow> 'w \<Rightarrow> go_error option \<times> 'w) \<Rightarrow> nat list \<Rightarrow> 'w \<Rightarrow> nat option \<times> 'w" where
  "dispatch post [] w = (None, w)"
| "dispatch post (idx # agents) w =
     (case post idx w of
        (None, w) \<Rightarrow> (Some idx, w)
      | (Some err, w) \<Rightarrow> dispatch post agents w)"

definition dispatch_role :: "(nat \<Rightarrow> 'w \<Rightarrow> go_error option \<times> 'w) \<Rightarrow> nat \<Rightarrow> nat \<Rightarrow> 'w \<Rightarrow> nat option \<times> 'w" where
  "dispatch_role post n start w = dispatch post (map (\<lambda>attempt. (start + attempt) mod n) [0..<n]) w"

text \<open>The delay of the callees, so that a staggered caller meets a callee that polls already.\<close>

definition warmupMs :: nat where "warmupMs = 600"
definition pollWindowMs :: nat where "pollWindowMs = 1000"

definition caller_stagger :: "bool \<Rightarrow> nat \<Rightarrow> nat" where
  "caller_stagger over_dht pairs = (if over_dht \<and> 10 < pairs then 20 else 0)"

definition start_delay :: "bool \<Rightarrow> nat \<Rightarrow> nat \<Rightarrow> nat" where
  "start_delay over_dht pairs i =
     (let stagger = caller_stagger over_dht pairs in
      if over_dht \<and> 0 < stagger then (warmupMs + i * stagger) - pollWindowMs div 2 else 0)"

text \<open>Results are counted, and \<open>done\<close> is signalled once there is one for every pair.\<close>

record 'r collector =
  co_results :: "'r list"
  co_done :: bool

definition recordResult :: "nat \<Rightarrow> 'r \<Rightarrow> 'r collector \<Rightarrow> 'r collector" where
  "recordResult pairs res co =
     (let results = co_results co @ [res] in
      \<lparr>co_results = results, co_done = (co_done co \<or> pairs \<le> length results)\<rparr>)"

section \<open>Lemmas\<close>

lemma bench_nodeIDFromHex_encode [simp]: "bench_nodeIDFromHex (hex_encode (key_bytes k)) = k"
  by (simp add: bench_nodeIDFromHex_def)

lemma bench_nodeIDFromHex_random: "bench_nodeIDFromHex (randomIDHex rnd) = key_of_slice rnd"
  by (simp add: bench_nodeIDFromHex_def randomIDHex_def key_of_slice_eq_iff)

lemma parse_csv_field: "CHR '','' \<notin> set x \<Longrightarrow> parse_csv_loop out cur (x @ s) = parse_csv_loop out (cur @ x) s"
  by (induction x arbitrary: cur) auto

lemma parse_csv_fields:
  "xs \<noteq> [] \<Longrightarrow> \<forall>x \<in> set xs. CHR '','' \<notin> set x \<Longrightarrow>
     parse_csv_loop out [] (separated_by '','' xs) = out @ xs"
proof (induction "'',''" xs arbitrary: out rule: separated_by.induct)
  case (2 x)
  then show ?case using parse_csv_field [of x out "[]" "[]"] by simp
next
  case (3 x y xs)
  then show ?case
    using parse_csv_field [of x out "[]" "CHR '','' # separated_by '','' (y # xs)"] by simp
qed simp

text \<open>The agents are tried in turn from the first one, until one accepts.\<close>

lemma dispatch_first:
  assumes "\<And>idx w. post idx w = ((if idx \<in> up then None else Some err), w)"
  shows "dispatch post agents w = (List.find (\<lambda>i. i \<in> up) agents, w)"
  by (induction agents) (simp_all add: assms)

lemma agents_in_turn: "0 < (n :: nat) \<Longrightarrow> (\<lambda>k. (start + k) mod n) ` {0..<n} = {0..<n}"
proof
  assume n: "0 < n"
  then show "(\<lambda>k. (start + k) mod n) ` {0..<n} \<subseteq> {0..<n}" by auto
  show "{0..<n} \<subseteq> (\<lambda>k. (start + k) mod n) ` {0..<n}"
  proof
    fix i assume "i \<in> {0..<n}"
    moreover have "(start + (i + (n - start mod n)) mod n) mod n = i mod n"
    proof -
      have "(start + (i + (n - start mod n)) mod n) mod n = (start + (i + (n - start mod n))) mod n"
        by (rule mod_add_right_eq)
      also have "\<dots> = (start mod n + (i + (n - start mod n))) mod n"
        by (rule mod_add_left_eq [symmetric])
      also have "start mod n + (i + (n - start mod n)) = i + n"
        using mod_less_divisor [OF n, of start] by linarith
      finally show ?thesis by simp
    qed
    ultimately show "i \<in> (\<lambda>k. (start + k) mod n) ` {0..<n}"
      using n by (intro image_eqI [of _ _ "(i + (n - start mod n)) mod n"]) auto
  qed
qed

lemma dispatch_finds:
  assumes "\<And>idx w. post idx w = ((if idx \<in> up then None else Some err), w)" and "0 < n"
  shows "dispatch_role post n start w = (None, w) \<longleftrightarrow> up \<inter> {0..<n} = {}"
    and "dispatch_role post n start w = (Some a, w) \<Longrightarrow> a \<in> up \<and> a < n"
proof -
  let ?agents = "map (\<lambda>k. (start + k) mod n) [0..<n]"
  have d: "dispatch_role post n start w = (List.find (\<lambda>i. i \<in> up) ?agents, w)"
    using dispatch_first [OF assms(1)] by (simp add: dispatch_role_def)
  have agents: "set ?agents = {0..<n}" using agents_in_turn [OF assms(2), of start] by simp
  show "dispatch_role post n start w = (None, w) \<longleftrightarrow> up \<inter> {0..<n} = {}"
    unfolding d prod.inject find_None_iff agents by auto
  show "a \<in> up \<and> a < n" if "dispatch_role post n start w = (Some a, w)"
  proof -
    from that have "a \<in> set ?agents \<and> a \<in> up"
      unfolding d prod.inject find_Some_iff by (metis nth_mem)
    then show ?thesis unfolding agents by simp
  qed
qed

text \<open>With two agents or more the two roles of a pair start at different ones.\<close>

lemma roles_apart:
  assumes "2 \<le> n"
  shows "callee_agent n i \<noteq> caller_agent n i"
proof
  assume "callee_agent n i = caller_agent n i"
  then have "n dvd (i + (n + 1) div 2) - i"
    by (intro mod_eq_dvd_iff_nat [THEN iffD1]) (simp_all add: callee_agent_def caller_agent_def)
  then have "n dvd (n + 1) div 2" by simp
  moreover have "0 < (n + 1) div 2" "(n + 1) div 2 < n" using assms by auto
  ultimately show False by (simp add: nat_dvd_not_less)
qed

end
