(* ===== verification/Bench_Dht.thy ===== *)
theory Bench_Dht
  imports Bench_Signaling Signal_Guarantees
begin

text \<open>
  \<open>cmd/bench_dht/main.go\<close>: nodes register with a coordinator, which then measures a number of
  \<open>StoreValue\<close>s and tells the nodes that it is done. The durations are measured outside the model.
\<close>

section \<open>Registered nodes\<close>

record node_info =
  ni_addr :: string
  ni_dht_port :: int
  ni_sig_port :: int
  ni_node_id_hex :: string

definition node_info_of :: "network_node \<Rightarrow> string \<Rightarrow> int \<Rightarrow> int \<Rightarrow> node_info" where
  "node_info_of nn addr dhtPort sigPort =
     \<lparr>ni_addr = addr, ni_dht_port = dhtPort, ni_sig_port = sigPort, ni_node_id_hex = id_hex (nn_id nn)\<rparr>"

definition toNetworkNode :: "(string \<Rightarrow> bytes option) \<Rightarrow> string \<Rightarrow> node_info \<Rightarrow> network_node" where
  "toNetworkNode parseIP tr info =
     (let nn = \<lparr>nn_id = bench_nodeIDFromHex (ni_node_id_hex info), nn_address = parseIP (ni_addr info),
            nn_port = ni_dht_port info, nn_meta = None\<rparr>
      in if tr = ''webrtc'' then nn\<lparr>nn_meta := Some [''sig_port'' \<mapsto> int_text (ni_sig_port info)]\<rparr> else nn)"

text \<open>
  Joining through a configured address. \<open>net.SplitHostPort\<close> and \<open>fmt.Sscan\<close> are arguments; a
  text that does not split ends the program (\<open>None\<close>), an error of \<open>Bootstrap\<close> is logged.
\<close>

definition bootstrapNode ::
  "(string \<Rightarrow> go_error + string \<times> string) \<Rightarrow> (string \<Rightarrow> int) \<Rightarrow> bytes \<Rightarrow> (string \<Rightarrow> bytes option) \<Rightarrow>
     'w env \<Rightarrow> string \<Rightarrow> 'w node \<times> 'w \<Rightarrow> ('w node \<times> 'w) option outcome"
where
  "bootstrapNode splitHostPort scan rnd parseIP env bootstrapAddr s =
     (if bootstrapAddr = [] then Done (Some s)
      else
        (case splitHostPort bootstrapAddr of
           Inl err \<Rightarrow> Done None
         | Inr (host, portStr) \<Rightarrow>
             let bn = NewNetworkNode rnd parseIP host (scan portStr) in
             and_then (Bootstrap env [bn] s) (\<lambda>(err, s). Done (Some s))))"

text \<open>
  A WebRTC node polls the coordinator for the peer to join through: the answers, of which an
  unsuccessful one is \<open>None\<close>, until one names an id.
\<close>

fun poll_boot_peer :: "node_info option list \<Rightarrow> node_info option" where
  "poll_boot_peer [] = None"
| "poll_boot_peer (None # r) = poll_boot_peer r"
| "poll_boot_peer (Some info # r) = (if ni_node_id_hex info \<noteq> [] then Some info else poll_boot_peer r)"

definition join_webrtc ::
  "(string \<Rightarrow> bytes option) \<Rightarrow> 'w env \<Rightarrow> node_info \<Rightarrow> 'w node \<times> 'w \<Rightarrow> ('w node \<times> 'w) outcome"
where
  "join_webrtc parseIP env bootPeer s =
     and_then (Bootstrap env [toNetworkNode parseIP ''webrtc'' bootPeer] s) (\<lambda>(err, s). Done s)"

section \<open>The coordinator\<close>

record dht_registry =
  dr_nodes :: "node_info list"
  dr_all :: bool   \<comment> \<open>\<open>allRegistered\<close> was signalled\<close>
  dr_done :: bool  \<comment> \<open>\<open>done\<close> is closed\<close>

text \<open>The two handlers, with the status they answer; what is not JSON decodes to \<open>None\<close>.\<close>

definition register_node :: "int \<Rightarrow> node_info option \<Rightarrow> dht_registry \<Rightarrow> int \<times> dht_registry" where
  "register_node nodeCount body st =
     (case body of
        None \<Rightarrow> (400, st)
      | Some info \<Rightarrow>
          let nodes = dr_nodes st @ [info] in
          (200, st\<lparr>dr_nodes := nodes, dr_all := (dr_all st \<or> nodeCount \<le> int (length nodes))\<rparr>))"

definition done_status :: "dht_registry \<Rightarrow> int" where
  "done_status st = (if dr_done st then 200 else 404)"

record bench_result =
  bd_transport :: string
  bd_node_count :: nat
  bd_mode :: string
  bd_payload :: nat
  bd_iteration :: nat
  bd_transferred :: nat

text \<open>
  Each iteration has a context of its own, hence an environment, and the random bytes of its
  key. An error is logged; the result is recorded either way.
\<close>

fun store_iterations ::
  "string \<Rightarrow> nat \<Rightarrow> bytes \<Rightarrow> ('w env \<times> bytes) list \<Rightarrow> nat \<Rightarrow> bench_result list \<Rightarrow> 'w node \<times> 'w \<Rightarrow>
     (bench_result list \<times> 'w node \<times> 'w) outcome"
where
  "store_iterations tr cnt val [] i results s = Done (results, s)"
| "store_iterations tr cnt val ((env, rnd) # runs) i results s =
     and_then (StoreValue env (GenerateKey rnd) (inline_value (Some val)) s)
       (\<lambda>(err, sent, s).
          store_iterations tr cnt val runs (i + 1)
            (results @ [\<lparr>bd_transport = tr, bd_node_count = cnt, bd_mode = ''store'',
               bd_payload = length val, bd_iteration = i, bd_transferred = length val\<rparr>]) s)"

text \<open>From the copy of the registered nodes to the closing of \<open>done\<close>; \<open>None\<close> is \<open>log.Fatal\<close>.\<close>

definition measure_stores ::
  "string \<Rightarrow> bytes \<Rightarrow> ('w env \<times> bytes) list \<Rightarrow> dht_registry \<Rightarrow> 'w node \<times> 'w \<Rightarrow>
     (bench_result list \<times> dht_registry \<times> 'w node \<times> 'w) option outcome"
where
  "measure_stores tr val runs st s =
     (if dr_nodes st = [] then Done None
      else
        and_then (store_iterations tr (length (dr_nodes st)) val runs 0 [] s)
          (\<lambda>(results, s). Done (Some (results, st\<lparr>dr_done := True\<rparr>, s))))"

section \<open>Lemmas\<close>

text \<open>The contact made of a registration has the node's id; offers go to its signaling port.\<close>

lemma toNetworkNode_registered:
  "nn_id (toNetworkNode parseIP tr (node_info_of nn addr dhtPort sigPort)) = nn_id nn"
  "nn_address (toNetworkNode parseIP tr (node_info_of nn addr dhtPort sigPort)) = parseIP addr"
  "nn_port (toNetworkNode parseIP tr (node_info_of nn addr dhtPort sigPort)) = dhtPort"
  "offer_url ip_text (toNetworkNode parseIP ''webrtc'' (node_info_of nn addr dhtPort sigPort))
     = ''http://'' @ ip_text (parseIP addr) @ '':'' @ int_text sigPort @ ''/offer''"
  by (simp_all add: toNetworkNode_def node_info_of_def id_hex_def offer_url_def meta_get_def Let_def)

lemma registered_all:
  "fst (register_node n body st) = 200 \<or> snd (register_node n body st) = st"
  "dr_all (snd (fold (\<lambda>info (c, st). register_node n (Some info) st) infos (c, \<lparr>dr_nodes = [], dr_all = False, dr_done = d\<rparr>)))
     \<longleftrightarrow> infos \<noteq> [] \<and> n \<le> int (length infos)"
proof -
  show "fst (register_node n body st) = 200 \<or> snd (register_node n body st) = st"
    by (cases body) (simp_all add: register_node_def Let_def)
  have "infos = [] \<or> snd (fold (\<lambda>info (c, st). register_node n (Some info) st) infos (c, \<lparr>dr_nodes = [], dr_all = False, dr_done = d\<rparr>))
      = \<lparr>dr_nodes = infos, dr_all = (n \<le> int (length infos)), dr_done = d\<rparr>"
    by (induction infos rule: rev_induct) (auto simp: register_node_def Let_def split: prod.splits)
  then show "dr_all (snd (fold (\<lambda>info (c, st). register_node n (Some info) st) infos (c, \<lparr>dr_nodes = [], dr_all = False, dr_done = d\<rparr>)))
     \<longleftrightarrow> infos \<noteq> [] \<and> n \<le> int (length infos)" by auto
qed

text \<open>The iterations return for every schedule, with one result each, in order.\<close>

lemma store_iterations_run:
  assumes "runnable sha (fst s)"
  shows "\<exists>results' s'. store_iterations tr cnt val runs i results s = Done (results', s')
     \<and> runnable sha (fst s')
     \<and> map bd_iteration results' = map bd_iteration results @ [i..<i + length runs]
     \<and> set results' \<subseteq> set results \<union> {r. bd_node_count r = cnt \<and> bd_payload r = length val}"
  using assms
proof (induction runs arbitrary: i results s)
  case (Cons run runs)
  obtain env rnd where run: "run = (env, rnd)" by (cases run)
  obtain err sent s1 where 1: "StoreValue env (GenerateKey rnd) (inline_value (Some val)) s = Done (err, sent, s1)"
    "runnable sha (fst s1)" using StoreValue_runs [OF Cons.prems] .
  let ?r = "\<lparr>bd_transport = tr, bd_node_count = cnt, bd_mode = ''store'',
               bd_payload = length val, bd_iteration = i, bd_transferred = length val\<rparr>"
  obtain results' s' where 2: "store_iterations tr cnt val runs (i + 1) (results @ [?r]) s1 = Done (results', s')"
    "runnable sha (fst s')"
    "map bd_iteration results' = map bd_iteration (results @ [?r]) @ [i + 1..<i + 1 + length runs]"
    "set results' \<subseteq> set (results @ [?r]) \<union> {r. bd_node_count r = cnt \<and> bd_payload r = length val}"
    using Cons.IH [OF 1(2)] by blast
  have "[i..<i + length (run # runs)] = i # [i + 1..<i + 1 + length runs]"
    using upt_conv_Cons [of i "i + length (run # runs)"] by simp
  with 1 2 show ?case by (auto simp: run)
qed simp

lemma measure_stores_run:
  assumes "runnable sha (fst s)" and "dr_nodes st \<noteq> []"
  obtains results s' where "measure_stores tr val runs st s = Done (Some (results, st\<lparr>dr_done := True\<rparr>, s'))"
    and "runnable sha (fst s')" and "map bd_iteration results = [0..<length runs]"
    and "\<forall>r \<in> set results. bd_node_count r = length (dr_nodes st) \<and> bd_payload r = length val"
  using store_iterations_run [OF assms(1), of tr "length (dr_nodes st)" val runs 0 "[]"] assms(2)
  by (fastforce simp: measure_stores_def)

lemma not_measured: "dr_nodes st = [] \<Longrightarrow> measure_stores tr val runs st s = Done None"
  by (simp add: measure_stores_def)

end
