(* ===== verification/Bench_Agent.thy ===== *)
theory Bench_Agent
  imports Bench_Signaling Direct_Signal Central
begin

text \<open>
  The agents of \<open>cmd/bench_signaling/main.go\<close>: what they are asked and report, as JSON; their start;
  the roles of a pair, with the exchange through the central signaler.
\<close>

section \<open>Requests and results\<close>

record pair_request =
  pr_pair :: "64 word"
  pr_role :: string
  pr_callee :: string
  pr_caller :: string
  pr_callback :: string
  pr_delay :: "64 word"

record pair_result =
  pt_pair :: "64 word"
  pt_signaling :: string
  pt_latency :: "64 word"
  pt_error :: string

definition request_to_json :: "pair_request \<Rightarrow> json" where
  "request_to_json r = JObj
     ([(''pair_id'', JInt (sint (pr_pair r))), (''role'', JStr (pr_role r)),
       (''pair_callee_id_hex'', JStr (pr_callee r)), (''pair_caller_id_hex'', JStr (pr_caller r))]
      @ omit (pr_callback r = []) ''callback_url'' (JStr (pr_callback r))
      @ omit (pr_delay r = 0) ''start_delay_ms'' (JInt (sint (pr_delay r))))"

definition request_of_json :: "json \<Rightarrow> go_error + pair_request" where
  "request_of_json j =
     (case j of
        JNull \<Rightarrow> Inr \<lparr>pr_pair = 0, pr_role = [], pr_callee = [], pr_caller = [], pr_callback = [], pr_delay = 0\<rparr>
      | JObj kvs \<Rightarrow>
          or_else (get_int64 (field kvs ''pair_id'')) (\<lambda>i.
          or_else (get_string (field kvs ''role'')) (\<lambda>role.
          or_else (get_string (field kvs ''pair_callee_id_hex'')) (\<lambda>callee.
          or_else (get_string (field kvs ''pair_caller_id_hex'')) (\<lambda>caller.
          or_else (get_string (field kvs ''callback_url'')) (\<lambda>url.
          or_else (get_int64 (field kvs ''start_delay_ms'')) (\<lambda>d.
            Inr \<lparr>pr_pair = i, pr_role = role, pr_callee = callee, pr_caller = caller, pr_callback = url, pr_delay = d\<rparr>))))))
      | _ \<Rightarrow> Inl type_error)"

definition result_to_json :: "pair_result \<Rightarrow> json" where
  "result_to_json r = JObj
     ([(''pair_id'', JInt (sint (pt_pair r))), (''signaling'', JStr (pt_signaling r)),
       (''latency_ns'', JInt (sint (pt_latency r)))]
      @ omit (pt_error r = []) ''error'' (JStr (pt_error r)))"

definition result_of_json :: "json \<Rightarrow> go_error + pair_result" where
  "result_of_json j =
     (case j of
        JNull \<Rightarrow> Inr \<lparr>pt_pair = 0, pt_signaling = [], pt_latency = 0, pt_error = []\<rparr>
      | JObj kvs \<Rightarrow>
          or_else (get_int64 (field kvs ''pair_id'')) (\<lambda>i.
          or_else (get_string (field kvs ''signaling'')) (\<lambda>sig.
          or_else (get_int64 (field kvs ''latency_ns'')) (\<lambda>t.
          or_else (get_string (field kvs ''error'')) (\<lambda>err.
            Inr \<lparr>pt_pair = i, pt_signaling = sig, pt_latency = t, pt_error = err\<rparr>))))
      | _ \<Rightarrow> Inl type_error)"

text \<open>The bodies that are posted, and the handler of \<open>/run-pair\<close>: its status, and the role it starts.\<close>

definition request_body :: "pair_request \<Rightarrow> string" where
  "request_body r = print_json (request_to_json r)"

definition result_body :: "pair_result \<Rightarrow> string" where
  "result_body r = print_json (result_to_json r)"

definition decode_body :: "(json \<Rightarrow> go_error + 'a) \<Rightarrow> string \<Rightarrow> go_error + 'a" where
  "decode_body of_json body = (case decode_first body of None \<Rightarrow> Inl syntax_error | Some j \<Rightarrow> of_json j)"

definition handleRunPair :: "string \<Rightarrow> nat \<times> pair_request option" where
  "handleRunPair body =
     (case decode_body request_of_json body of Inl err \<Rightarrow> (400, None) | Inr req \<Rightarrow> (202, Some req))"

section \<open>The start of an agent\<close>

text \<open>\<open>dial\<close> is the outcome of a UDP dial to a public address, with the local address it chose.\<close>

definition resolveIP :: "go_error + string \<Rightarrow> string \<Rightarrow> string" where
  "resolveIP dial addr =
     (if addr \<noteq> ''0.0.0.0'' \<and> addr \<noteq> [] then addr
      else case dial of Inl err \<Rightarrow> ''127.0.0.1'' | Inr ip \<Rightarrow> ip)"

text \<open>
  The node of an agent, \<open>None\<close> where it does not start. The error of \<open>net.SplitHostPort\<close> is dropped,
  with empty texts for it, and that of \<open>Bootstrap\<close> is logged; \<open>scan\<close> leaves 0 where there is no number.
\<close>

definition agent_node ::
  "go_error + string \<Rightarrow> (string \<Rightarrow> string \<times> string) \<Rightarrow> (string \<Rightarrow> int) \<Rightarrow> bytes \<Rightarrow> bytes \<Rightarrow> (string \<Rightarrow> bytes option) \<Rightarrow>
     'w transport \<Rightarrow> 'w env \<Rightarrow> string \<Rightarrow> int \<Rightarrow> string \<Rightarrow> 'w \<Rightarrow> ('w node \<times> 'w) option outcome"
where
  "agent_node dial splitHostPort scan rnd rnd' parseIP tr env localAddr dhtPort bootstrapAddr w =
     (let nn = NewNetworkNode rnd parseIP (resolveIP dial localAddr) dhtPort;
          (err, s) = Start (NewNode nn (Some tr), w)
      in if err \<noteq> None then Done None
         else if bootstrapAddr = [] then Done (Some s)
         else
           let (host, portStr) = splitHostPort bootstrapAddr;
               bn = NewNetworkNode rnd' parseIP host (scan portStr)
           in and_then (Bootstrap env [bn] s) (\<lambda>(err, s). Done (Some s)))"

text \<open>
  \<open>/info\<close>, and its reading by the coordinator: the outcome of the GET is its body or an error. The
  statement \<open>return info, Decode(&info)\<close> leaves open whether \<open>info\<close> is read after the call or before it.
\<close>

definition info_body :: "dht_key \<Rightarrow> string" where
  "info_body nodeID = print_json (JObj [(''node_id_hex'', JStr (id_hex nodeID))])"

definition info_of_json :: "json \<Rightarrow> go_error + string" where
  "info_of_json j =
     (case j of JNull \<Rightarrow> Inr [] | JObj kvs \<Rightarrow> get_string (field kvs ''node_id_hex'') | _ \<Rightarrow> Inl type_error)"

definition getAgentInfo :: "bool \<Rightarrow> go_error + string \<Rightarrow> go_error + string" where
  "getAgentInfo call_first resp =
     (case resp of
        Inl err \<Rightarrow> Inl err
      | Inr body \<Rightarrow> map_sum id (\<lambda>idHex. if call_first then idHex else []) (decode_body info_of_json body))"

text \<open>A post succeeds with any status.\<close>

definition tryPostJSON :: "go_error + nat \<Rightarrow> go_error option" where
  "tryPostJSON resp = (case resp of Inl err \<Rightarrow> Some err | Inr status \<Rightarrow> None)"

section \<open>The exchange through the central signaler\<close>

definition bench_answer :: "signal_payload \<Rightarrow> go_error + string" where
  "bench_answer p = Inr (''answer-to-'' @ sp_sdp p)"

text \<open>
  The callee answers what it reads until its context ends; the outcomes of the dial and of the
  first write, and what arrives, are given. The result are the messages it writes.
\<close>

definition runCallee_central ::
  "go_error option \<Rightarrow> go_error option \<Rightarrow> signal_msg list \<Rightarrow> pair_request \<Rightarrow> signal_msg list \<times> central"
where
  "runCallee_central dial write arrivals req =
     (case ListenOffers_central dial write (NewCentralSignaler (bench_nodeIDFromHex (pr_callee req))) of
        (Inl err, st) \<Rightarrow> ([], st)
      | (Inr reg, st) \<Rightarrow>
          (reg # List.map_filter (\<lambda>m. case fst (readLoop_msg m st) of
                None \<Rightarrow> None
              | Some (p, caller) \<Rightarrow> offer_handled caller (bench_answer p) st) arrivals,
           Close_central (fold (\<lambda>m st. snd (readLoop_msg m st)) arrivals st)))"

definition bench_offer :: "pair_request \<Rightarrow> string" where
  "bench_offer req = ''offer-'' @ int_text (sint (pr_pair req))"

definition runCaller_central ::
  "go_error option \<Rightarrow> go_error option \<Rightarrow> go_error option \<Rightarrow> signal_msg list \<Rightarrow> go_error option \<Rightarrow> pair_request \<Rightarrow>
     go_error option \<times> central"
where
  "runCaller_central dial write send arrivals ctx req =
     (let callee = bench_nodeIDFromHex (pr_callee req); caller = bench_nodeIDFromHex (pr_caller req) in
      case ListenOffers_central dial write (NewCentralSignaler caller) of
        (Inl err, st) \<Rightarrow> (Some err, st)
      | (Inr reg, st) \<Rightarrow>
          (case SendOffer_central callee \<lparr>sp_caller = caller, sp_sdp = bench_offer req\<rparr> send arrivals ctx st of
             (Inl err, st) \<Rightarrow> (Some err, Close_central st)
           | (Inr answer, st) \<Rightarrow> (None, Close_central st)))"

text \<open>What a role reports: only a caller does, with the error of its exchange or its duration.\<close>

definition executePairRole ::
  "string \<Rightarrow> (pair_request \<Rightarrow> 64 word \<times> go_error option) \<Rightarrow> pair_request \<Rightarrow> (string \<times> pair_result) option"
where
  "executePairRole agentSig runCaller req =
     (if pr_role req = ''caller'' then
        let (latency, err) = runCaller req;
            res = \<lparr>pt_pair = pr_pair req, pt_signaling = agentSig, pt_latency = latency,
                   pt_error = (case err of None \<Rightarrow> [] | Some e \<Rightarrow> err_text e)\<rparr>
        in if pr_callback req \<noteq> [] then Some (pr_callback req, res) else None
      else None)"

section \<open>Lemmas\<close>

lemma request_of_to_json: "request_of_json (request_to_json r) = Inr r"
proof (cases r)
  case (fields i role callee caller url d)
  show ?thesis
    by (cases "url = []"; cases "d = 0")
      (simp_all add: fields request_of_json_def request_to_json_def field_def omit_def get_string_def)
qed

lemma result_of_to_json: "result_of_json (result_to_json r) = Inr r"
proof (cases r)
  case (fields i sig t err)
  show ?thesis
    by (cases "err = []")
      (simp_all add: fields result_of_json_def result_to_json_def field_def omit_def get_string_def)
qed

lemma decode_bodies [simp]:
  "decode_body request_of_json (request_body r) = Inr r"
  "decode_body result_of_json (result_body res) = Inr res"
  by (simp_all add: decode_body_def request_body_def result_body_def request_of_to_json result_of_to_json
      del: print_json.simps)

lemma handleRunPair_body [simp]: "handleRunPair (request_body r) = (202, Some r)"
  by (simp add: handleRunPair_def)

lemma tryPostJSON_simps [simp]: "tryPostJSON (Inl err) = Some err" "tryPostJSON (Inr status) = None"
  by (simp_all add: tryPostJSON_def)

lemma getAgentInfo_body: "getAgentInfo call_first (Inr (info_body k)) = Inr (if call_first then id_hex k else [])"
  by (simp add: getAgentInfo_def decode_body_def info_body_def info_of_json_def field_def get_string_def
      del: print_json.simps)

text \<open>The callee's answer to the caller's offer is what the caller waits for.\<close>

lemma central_pair:
  assumes "arrivals = [m \<leftarrow> fst (runCallee_central None None [offer_msg caller callee (bench_offer req)] req). sm_type m = ''answer'']"
    and "bench_nodeIDFromHex (pr_callee req) = callee" and "bench_nodeIDFromHex (pr_caller req) = caller"
  shows "map sm_sdp arrivals = [''answer-to-'' @ bench_offer req]"
    and "fst (runCaller_central None None None arrivals None req) = None"
  using assms
  by (auto simp: runCallee_central_def runCaller_central_def ListenOffers_central_def NewCentralSignaler_def
      register_msg_def empty_signal_msg_def readLoop_msg_def offer_msg_def offer_handled_def bench_answer_def
      answer_msg_def map_filter_simps SendOffer_central_def offer_begin_def deliver_answer_def Let_def)

end
