(* ===== verification/Rpc_Json.thy ===== *)
theory Rpc_Json
  imports Rpc_Message "HOL-Library.List_Lexorder" "HOL-Library.Char_ord"
begin

text \<open>
  The JSON of the messages of both transports, by the struct tags of \<open>NetworkNode\<close>
  (\<open>dht/node.go\<close>), \<open>message\<close> (\<open>transport/udp/udp.go\<close>) and \<open>rpcMessage\<close>
  (\<open>transport/webrtc/webrtc.go\<close>). The text of an address is \<open>net.IP\<close>'s: \<open>ipText\<close> and \<open>parseIP\<close>
  are arguments.
\<close>

section \<open>NetworkNode\<close>

text \<open>A map is written with its keys in order, and not at all when it is empty.\<close>

definition entries_json :: "(string \<rightharpoonup> string) \<Rightarrow> (string \<times> json) list" where
  "entries_json m = map (\<lambda>k. (k, JStr (the (m k)))) (sorted_list_of_set (dom m))"

definition node_to_json :: "(bytes \<Rightarrow> string) \<Rightarrow> network_node \<Rightarrow> json" where
  "node_to_json ipText n = JObj
     ([(''id'', MarshalJSON (nn_id n)),
       (''address'', JStr (case nn_address n of None \<Rightarrow> [] | Some ip \<Rightarrow> ipText ip)),
       (''port'', JInt (nn_port n))]
      @ (case nn_meta n of None \<Rightarrow> [] | Some m \<Rightarrow> omit (dom m = {}) ''meta'' (JObj (entries_json m))))"

text \<open>\<open>UnmarshalText\<close> of an address: the empty text is nil.\<close>

definition get_address :: "(string \<Rightarrow> bytes option) \<Rightarrow> json \<Rightarrow> go_error + bytes option" where
  "get_address parseIP j =
     (case j of JNull \<Rightarrow> Inr None
      | JStr s \<Rightarrow> (if s = [] then Inr None
          else case parseIP s of None \<Rightarrow> Inl (ErrText ''invalid IP address'') | Some ip \<Rightarrow> Inr (Some ip))
      | _ \<Rightarrow> Inl type_error)"

definition get_int :: "json \<Rightarrow> go_error + int" where
  "get_int j = map_sum id sint (get_int64 j)"

text \<open>The members of an object go into a new map one by one; a null is the empty string.\<close>

fun get_entries :: "(string \<times> json) list \<Rightarrow> (string \<rightharpoonup> string) \<Rightarrow> go_error + (string \<rightharpoonup> string)" where
  "get_entries [] m = Inr m"
| "get_entries ((k, j) # kvs) m = or_else (get_string j) (\<lambda>s. get_entries kvs (m(k \<mapsto> s)))"

definition get_map :: "json \<Rightarrow> go_error + (string \<rightharpoonup> string) option" where
  "get_map j =
     (case j of JNull \<Rightarrow> Inr None
      | JObj kvs \<Rightarrow> map_sum id Some (get_entries kvs Map.empty)
      | _ \<Rightarrow> Inl type_error)"

definition node_of_json :: "(string \<Rightarrow> bytes option) \<Rightarrow> json \<Rightarrow> go_error + network_node option" where
  "node_of_json parseIP j =
     (case j of JNull \<Rightarrow> Inr None
      | JObj kvs \<Rightarrow>
          or_else (get_key kvs ''id'') (\<lambda>i.
          or_else (get_address parseIP (field kvs ''address'')) (\<lambda>ip.
          or_else (get_int (field kvs ''port'')) (\<lambda>p.
          or_else (get_map (field kvs ''meta'')) (\<lambda>m.
            Inr (Some \<lparr>nn_id = i, nn_address = ip, nn_port = p, nn_meta = m\<rparr>)))))
      | _ \<Rightarrow> Inl type_error)"

section \<open>The messages\<close>

definition head_fields :: "(bytes \<Rightarrow> string) \<Rightarrow> 'a message_scheme \<Rightarrow> (string \<times> json) list" where
  "head_fields ipText m =
     [(''type'', JStr (m_type m)), (''is_req'', JBool (m_is_req m)), (''req_id'', JStr (m_req_id m))]
     @ (case m_sender m of None \<Rightarrow> [] | Some n \<Rightarrow> [(''sender'', node_to_json ipText n)])
     @ [(''target_id'', MarshalJSON (m_target m)), (''key'', MarshalJSON (m_key m))]"

definition tail_fields :: "(bytes \<Rightarrow> string) \<Rightarrow> 'a message_scheme \<Rightarrow> (string \<times> json) list" where
  "tail_fields ipText m =
     (case m_data m of None \<Rightarrow> [] | Some v \<Rightarrow> [(''data'', meta_to_json v)])
     @ (case m_value m of None \<Rightarrow> [] | Some v \<Rightarrow> [(''value'', meta_to_json v)])
     @ omit (m_nodes m = []) ''nodes''
         (JArr (map (\<lambda>n. case n of None \<Rightarrow> JNull | Some n \<Rightarrow> node_to_json ipText n) (m_nodes m)))
     @ omit (m_error m = []) ''error'' (JStr (m_error m))"

definition message_to_json :: "(bytes \<Rightarrow> string) \<Rightarrow> message \<Rightarrow> json" where
  "message_to_json ipText m = JObj (head_fields ipText m @ tail_fields ipText m)"

definition rpc_message_to_json :: "(bytes \<Rightarrow> string) \<Rightarrow> rpc_message \<Rightarrow> json" where
  "rpc_message_to_json ipText m =
     JObj (head_fields ipText m @ omit (m_ref m = []) ''ref'' (JStr (m_ref m)) @ tail_fields ipText m)"

definition get_meta :: "json \<Rightarrow> go_error + value_meta option" where
  "get_meta j = (case j of JNull \<Rightarrow> Inr None | _ \<Rightarrow> map_sum id Some (meta_of_json j))"

fun get_all :: "(json \<Rightarrow> go_error + 'a) \<Rightarrow> json list \<Rightarrow> go_error + 'a list" where
  "get_all f [] = Inr []"
| "get_all f (j # js) = or_else (f j) (\<lambda>x. map_sum id ((#) x) (get_all f js))"

definition get_nodes :: "(string \<Rightarrow> bytes option) \<Rightarrow> json \<Rightarrow> go_error + network_node option list" where
  "get_nodes parseIP j =
     (case j of JNull \<Rightarrow> Inr [] | JArr js \<Rightarrow> get_all (node_of_json parseIP) js | _ \<Rightarrow> Inl type_error)"

definition message_of_fields ::
  "(string \<Rightarrow> bytes option) \<Rightarrow> (string \<times> json) list \<Rightarrow> (message \<Rightarrow> go_error + 'b) \<Rightarrow> go_error + 'b"
where
  "message_of_fields parseIP kvs rest =
     or_else (get_string (field kvs ''type'')) (\<lambda>ty.
     or_else (get_bool (field kvs ''is_req'')) (\<lambda>req.
     or_else (get_string (field kvs ''req_id'')) (\<lambda>rid.
     or_else (node_of_json parseIP (field kvs ''sender'')) (\<lambda>sender.
     or_else (get_key kvs ''target_id'') (\<lambda>target.
     or_else (get_key kvs ''key'') (\<lambda>key.
     or_else (get_meta (field kvs ''data'')) (\<lambda>data.
     or_else (get_meta (field kvs ''value'')) (\<lambda>val.
     or_else (get_nodes parseIP (field kvs ''nodes'')) (\<lambda>nodes.
     or_else (get_string (field kvs ''error'')) (\<lambda>err.
       rest \<lparr>m_type = ty, m_is_req = req, m_req_id = rid, m_sender = sender, m_target = target, m_key = key,
             m_data = data, m_value = val, m_nodes = nodes, m_error = err\<rparr>))))))))))"

definition message_of_json :: "(string \<Rightarrow> bytes option) \<Rightarrow> json \<Rightarrow> go_error + message" where
  "message_of_json parseIP j =
     (case j of JNull \<Rightarrow> Inr (new_message []) | JObj kvs \<Rightarrow> message_of_fields parseIP kvs Inr | _ \<Rightarrow> Inl type_error)"

definition with_ref :: "string \<Rightarrow> message \<Rightarrow> rpc_message" where
  "with_ref ref m = message.extend m (rpc_message.fields ref)"

definition rpc_message_of_json :: "(string \<Rightarrow> bytes option) \<Rightarrow> json \<Rightarrow> go_error + rpc_message" where
  "rpc_message_of_json parseIP j =
     (case j of JNull \<Rightarrow> Inr (with_ref [] (new_message []))
      | JObj kvs \<Rightarrow>
          message_of_fields parseIP kvs (\<lambda>m. or_else (get_string (field kvs ''ref'')) (\<lambda>ref. Inr (with_ref ref m)))
      | _ \<Rightarrow> Inl type_error)"

text \<open>\<open>json.Marshal\<close> and \<open>json.Unmarshal\<close> of the bytes of a datagram or of a control message.\<close>

definition bad_json :: go_error where
  "bad_json = ErrText ''invalid JSON''"

definition message_text :: "(bytes \<Rightarrow> string) \<Rightarrow> message \<Rightarrow> string" where
  "message_text ipText m = print_json (message_to_json ipText m)"

definition read_message :: "(string \<Rightarrow> bytes option) \<Rightarrow> string \<Rightarrow> go_error + message" where
  "read_message parseIP s = (case parse_json s of None \<Rightarrow> Inl bad_json | Some j \<Rightarrow> message_of_json parseIP j)"

definition rpc_message_text :: "(bytes \<Rightarrow> string) \<Rightarrow> rpc_message \<Rightarrow> string" where
  "rpc_message_text ipText m = print_json (rpc_message_to_json ipText m)"

definition read_rpc_message :: "(string \<Rightarrow> bytes option) \<Rightarrow> string \<Rightarrow> go_error + rpc_message" where
  "read_rpc_message parseIP s = (case parse_json s of None \<Rightarrow> Inl bad_json | Some j \<Rightarrow> rpc_message_of_json parseIP j)"

section \<open>What survives\<close>

text \<open>
  A contact has the types that the text can carry: its address reads back, its port is an \<open>int\<close> of
  the machine, and its map is finite. It survives as it is but for an empty map, which comes back
  nil.
\<close>

definition typed_node :: "(bytes \<Rightarrow> string) \<Rightarrow> (string \<Rightarrow> bytes option) \<Rightarrow> network_node \<Rightarrow> bool" where
  "typed_node ipText parseIP n \<longleftrightarrow>
     (\<forall>ip. nn_address n = Some ip \<longrightarrow> ipText ip \<noteq> [] \<and> parseIP (ipText ip) = Some ip)
     \<and> - (2 ^ 63) \<le> nn_port n \<and> nn_port n < 2 ^ 63
     \<and> (\<forall>m. nn_meta n = Some m \<longrightarrow> finite (dom m))"

definition norm_node :: "network_node \<Rightarrow> network_node" where
  "norm_node n = n\<lparr>nn_meta := (if nn_meta n = Some Map.empty then None else nn_meta n)\<rparr>"

definition portable :: "(bytes \<Rightarrow> string) \<Rightarrow> (string \<Rightarrow> bytes option) \<Rightarrow> network_node \<Rightarrow> bool" where
  "portable ipText parseIP n \<longleftrightarrow> typed_node ipText parseIP n \<and> nn_meta n \<noteq> Some Map.empty"

lemma norm_node_portable: "portable ipText parseIP n \<Longrightarrow> norm_node n = n"
  by (simp add: portable_def norm_node_def)

lemma norm_node_typed: "typed_node ipText parseIP n \<Longrightarrow> portable ipText parseIP (norm_node n)"
  by (simp add: portable_def typed_node_def norm_node_def)

lemma get_entries_map:
  "get_entries (map (\<lambda>k. (k, JStr (the (m k)))) ks) m0 = Inr (fold (\<lambda>k m'. m'(k \<mapsto> the (m k))) ks m0)"
  by (induction ks arbitrary: m0) (simp_all add: get_string_def)

lemma fold_upd: "fold (\<lambda>k m'. m'(k \<mapsto> the (m k))) ks m0 x = (if x \<in> set ks then Some (the (m x)) else m0 x)"
  by (induction ks arbitrary: m0) auto

lemma get_entries_json: "finite (dom m) \<Longrightarrow> get_entries (entries_json m) Map.empty = Inr m"
  by (auto simp: entries_json_def get_entries_map fold_upd fun_eq_iff domIff)

lemma get_int_port: "- (2 ^ 63) \<le> i \<Longrightarrow> i < 2 ^ 63 \<Longrightarrow> get_int (JInt i) = Inr i"
  by (simp add: get_int_def get_int64_def int_word_sint mod_pos_pos_trivial)

lemmas object_defs = field_def get_key_def omit_def get_bool_def get_string_def

lemma node_of_to_json:
  assumes "typed_node ipText parseIP n"
  shows "node_of_json parseIP (node_to_json ipText n) = Inr (Some (norm_node n))"
proof (cases n)
  case (fields i ip p m)
  have port: "get_int (JInt p) = Inr p" using assms by (intro get_int_port) (simp_all add: typed_node_def fields)
  have addr: "get_address parseIP (JStr (case ip of None \<Rightarrow> [] | Some ip \<Rightarrow> ipText ip)) = Inr ip"
    using assms by (auto simp: typed_node_def fields get_address_def split: option.split)
  show ?thesis
  proof (cases "m = None \<or> m = Some Map.empty")
    case True
    with port addr show ?thesis
      by (auto simp: fields node_of_json_def node_to_json_def object_defs get_map_def norm_node_def)
  next
    case False
    then obtain e where m: "m = Some e" "e \<noteq> Map.empty" by auto
    then have "finite (dom e)" using assms by (auto simp: typed_node_def fields)
    with m port addr show ?thesis
      by (simp add: fields node_of_json_def node_to_json_def object_defs get_map_def get_entries_json norm_node_def)
  qed
qed

lemma get_meta_json [simp]: "get_meta (meta_to_json v) = Inr (Some (norm_meta v))"
  using meta_of_to_json [of v] by (simp add: get_meta_def meta_to_json_def)

lemma get_meta_null: "get_meta JNull = Inr None"
  by (simp add: get_meta_def)

lemma get_all_nodes:
  assumes "\<And>n. Some n \<in> set ns \<Longrightarrow> typed_node ipText parseIP n"
  shows "get_all (node_of_json parseIP) (map (\<lambda>n. case n of None \<Rightarrow> JNull | Some n \<Rightarrow> node_to_json ipText n) ns)
    = Inr (map (map_option norm_node) ns)"
  using assms
proof (induction ns)
  case (Cons n ns)
  then show ?case by (cases n) (simp_all add: node_of_to_json, simp add: node_of_json_def)
qed simp

definition message_typed :: "(bytes \<Rightarrow> string) \<Rightarrow> (string \<Rightarrow> bytes option) \<Rightarrow> 'a message_scheme \<Rightarrow> bool" where
  "message_typed ipText parseIP m \<longleftrightarrow>
     (\<forall>n. m_sender m = Some n \<longrightarrow> typed_node ipText parseIP n) \<and> (\<forall>n. Some n \<in> set (m_nodes m) \<longrightarrow> typed_node ipText parseIP n)"

definition message_portable :: "(bytes \<Rightarrow> string) \<Rightarrow> (string \<Rightarrow> bytes option) \<Rightarrow> 'a message_scheme \<Rightarrow> bool" where
  "message_portable ipText parseIP m \<longleftrightarrow>
     (\<forall>n. m_sender m = Some n \<longrightarrow> portable ipText parseIP n) \<and> (\<forall>n. Some n \<in> set (m_nodes m) \<longrightarrow> portable ipText parseIP n)"

definition norm_contacts :: "'a message_scheme \<Rightarrow> 'a message_scheme" where
  "norm_contacts m = m\<lparr>m_sender := map_option norm_node (m_sender m), m_nodes := map (map_option norm_node) (m_nodes m)\<rparr>"

lemma message_portable_typed:
  assumes "message_portable ipText parseIP m"
  shows "message_typed ipText parseIP m" "norm_contacts m = m"
proof -
  show "message_typed ipText parseIP m" using assms by (simp add: message_portable_def message_typed_def portable_def)
  have same: "map_option norm_node x = x" if "\<And>n. x = Some n \<Longrightarrow> portable ipText parseIP n" for x
    using that norm_node_portable by (cases x) auto
  have "map_option norm_node (m_sender m) = m_sender m" "map (map_option norm_node) (m_nodes m) = m_nodes m"
    using assms by (auto simp: message_portable_def intro!: same map_idI)
  then show "norm_contacts m = m" by (simp add: norm_contacts_def)
qed

lemma message_of_fields_printed:
  assumes m: "message_typed ipText parseIP m" and extra: "fst ` set extra \<subseteq> {''ref''}"
  shows "message_of_fields parseIP (head_fields ipText m @ extra @ tail_fields ipText m) rest
    = rest (message.truncate (wire (norm_contacts m)))"
proof -
  let ?kvs = "head_fields ipText m @ extra @ tail_fields ipText m"
  have extra': "map_of (rev extra) x = None" if "x \<noteq> ''ref''" for x
    using extra that by (auto simp: map_of_eq_None_iff)
  have tail: "map_of (rev (tail_fields ipText m)) x =
      (if x = ''error'' \<and> m_error m \<noteq> [] then Some (JStr (m_error m))
       else if x = ''nodes'' \<and> m_nodes m \<noteq> [] then
         Some (JArr (map (\<lambda>n. case n of None \<Rightarrow> JNull | Some n \<Rightarrow> node_to_json ipText n) (m_nodes m)))
       else if x = ''value'' then map_option meta_to_json (m_value m)
       else if x = ''data'' then map_option meta_to_json (m_data m) else None)" for x
    by (auto simp: tail_fields_def omit_def split: option.split)
  have head: "map_of (rev (head_fields ipText m)) x =
      (if x = ''key'' then Some (MarshalJSON (m_key m)) else if x = ''target_id'' then Some (MarshalJSON (m_target m))
       else if x = ''sender'' then map_option (node_to_json ipText) (m_sender m)
       else if x = ''req_id'' then Some (JStr (m_req_id m)) else if x = ''is_req'' then Some (JBool (m_is_req m))
       else if x = ''type'' then Some (JStr (m_type m)) else None)" for x
    by (auto simp: head_fields_def split: option.split)
  have look: "field ?kvs x = (case map_of (rev (tail_fields ipText m)) x of
      None \<Rightarrow> (case map_of (rev (head_fields ipText m)) x of None \<Rightarrow> JNull | Some j \<Rightarrow> j) | Some j \<Rightarrow> j)"
    if "x \<noteq> ''ref''" for x
    using extra' [OF that] by (simp add: field_def map_add_def split: option.split)
  have look_key: "get_key ?kvs x = (case map_of (rev (tail_fields ipText m)) x of
      None \<Rightarrow> (case map_of (rev (head_fields ipText m)) x of None \<Rightarrow> Inr (key_of_slice []) | Some j \<Rightarrow> UnmarshalJSON j)
    | Some j \<Rightarrow> UnmarshalJSON j)" if "x \<noteq> ''ref''" for x
    using extra' [OF that] by (simp add: get_key_def map_add_def split: option.split)
  have "node_of_json parseIP (field ?kvs ''sender'') = Inr (map_option norm_node (m_sender m))"
    using m by (cases "m_sender m") (simp_all add: look tail head message_typed_def node_of_to_json,
        simp add: node_of_json_def)
  moreover have "get_meta (field ?kvs ''data'') = Inr (map_option norm_meta (m_data m))"
    by (cases "m_data m") (simp_all add: look tail head get_meta_null)
  moreover have "get_meta (field ?kvs ''value'') = Inr (map_option norm_meta (m_value m))"
    by (cases "m_value m") (simp_all add: look tail head get_meta_null)
  moreover have "get_nodes parseIP (field ?kvs ''nodes'') = Inr (map (map_option norm_node) (m_nodes m))"
    using m by (cases "m_nodes m = []") (simp_all add: look tail head get_nodes_def message_typed_def get_all_nodes)
  moreover have "get_string (field ?kvs ''type'') = Inr (m_type m)" "get_bool (field ?kvs ''is_req'') = Inr (m_is_req m)"
    "get_string (field ?kvs ''req_id'') = Inr (m_req_id m)" "get_string (field ?kvs ''error'') = Inr (m_error m)"
    "get_key ?kvs ''target_id'' = Inr (m_target m)" "get_key ?kvs ''key'' = Inr (m_key m)"
    by (simp_all add: look look_key tail head get_string_def get_bool_def)
  ultimately show ?thesis by (simp add: message_of_fields_def wire_def norm_contacts_def message.truncate_def)
qed

lemma truncate_message: "message.truncate (m :: message) = m"
  by (cases m) (simp add: message.defs)

lemma message_json:
  "message_typed ipText parseIP m \<Longrightarrow> read_message parseIP (message_text ipText m) = Inr (wire (norm_contacts m))"
  using message_of_fields_printed [of ipText parseIP m "[]" Inr]
  by (simp add: read_message_def message_text_def message_of_json_def message_to_json_def truncate_message del: print_json.simps)

lemma rpc_message_json:
  assumes "message_typed ipText parseIP m"
  shows "read_rpc_message parseIP (rpc_message_text ipText m) = Inr (wire (norm_contacts m))"
proof -
  let ?extra = "omit (m_ref m = []) ''ref'' (JStr (m_ref m))"
  have "map_of (rev (head_fields ipText m @ ?extra @ tail_fields ipText m)) ''ref'' = (if m_ref m = [] then None else Some (JStr (m_ref m)))"
    by (auto simp: head_fields_def tail_fields_def omit_def map_add_def split: option.split)
  then have "get_string (field (head_fields ipText m @ ?extra @ tail_fields ipText m) ''ref'') = Inr (m_ref m)"
    by (simp add: field_def get_string_def)
  moreover have "with_ref (m_ref m) (message.truncate (wire (norm_contacts m))) = wire (norm_contacts m)"
    by (cases m) (simp add: with_ref_def message.defs rpc_message.defs wire_def norm_contacts_def)
  moreover have "fst ` set ?extra \<subseteq> {''ref''}" by (simp add: omit_def)
  ultimately show ?thesis
    using message_of_fields_printed [OF assms, of ?extra "\<lambda>m'. Inr (with_ref (m_ref m) m')"]
    by (simp add: read_rpc_message_def rpc_message_text_def rpc_message_of_json_def rpc_message_to_json_def del: print_json.simps)
qed

text \<open>C22: a message of either transport survives its JSON: \<open>json.Unmarshal\<close> of what
  \<open>json.Marshal\<close> wrote gives the message back with its values normalised, which is what the model of
  the transports takes a wire to do, for all contacts whose addresses read back, whose ports are
  machine integers and whose maps are nil or not empty.\<close>

theorem rpc_json_roundtrip:
  assumes "message_portable ipText parseIP m" and "message_portable ipText parseIP r"
  shows "read_message parseIP (message_text ipText m) = Inr (wire m)
     \<and> read_rpc_message parseIP (rpc_message_text ipText r) = Inr (wire r)"
  using message_json [OF message_portable_typed(1) [OF assms(1)]] message_portable_typed(2) [OF assms(1)]
    rpc_message_json [OF message_portable_typed(1) [OF assms(2)]] message_portable_typed(2) [OF assms(2)] by simp

definition sample_contact :: network_node where
  "sample_contact = \<lparr>nn_id = key_of_slice [1], nn_address = Some [127, 0, 0, 1], nn_port = 9000,
     nn_meta = Some [''sig_port'' \<mapsto> ''17300'']\<rparr>"

definition sample_answer :: message where
  "sample_answer = (new_message RPCFindValue)\<lparr>m_sender := Some sample_contact, m_nodes := [Some sample_contact, None],
     m_value := Some (zero_meta\<lparr>Data := Some []\<rparr>)\<rparr>"

lemma rpc_json_roundtrip_witness:
  "read_message (\<lambda>s. Some [127, 0, 0, 1]) (message_text (\<lambda>ip. ''127.0.0.1'') sample_answer)
     = Inr (sample_answer\<lparr>m_value := Some zero_meta\<rparr>)"
proof -
  have "message_portable (\<lambda>ip. ''127.0.0.1'') (\<lambda>s. Some [127, 0, 0, 1]) sample_answer"
    and "message_portable (\<lambda>ip. ''127.0.0.1'') (\<lambda>s. Some [127, 0, 0, 1]) (with_ref [] sample_answer)"
    by (auto simp: message_portable_def portable_def typed_node_def sample_answer_def sample_contact_def new_message_def
        with_ref_def message.defs rpc_message.defs)
  from rpc_json_roundtrip [OF this, THEN conjunct1] show ?thesis
    by (simp add: wire_def sample_answer_def new_message_def norm_meta_def zero_meta_def)
qed

end
