(* ===== verification/Bench_Dht_Run.thy ===== *)
theory Bench_Dht_Run
  imports Bench_Dht Bench_Agent Rpc_Json
begin

text \<open>
  The programs of \<open>cmd/bench_dht/main.go\<close> from end to end: the bootstrap node, a node and the
  coordinator; and one round of them as a machine, with the coordinator's server that ends with it.
\<close>

section \<open>Registrations as JSON\<close>

definition node_info_to_json :: "node_info \<Rightarrow> json" where
  "node_info_to_json i = JObj
     ([(''addr'', JStr (ni_addr i)), (''dht_port'', JInt (ni_dht_port i))]
      @ omit (ni_sig_port i = 0) ''sig_port'' (JInt (ni_sig_port i))
      @ [(''node_id_hex'', JStr (ni_node_id_hex i))])"

definition node_info_of_json :: "json \<Rightarrow> go_error + node_info" where
  "node_info_of_json j =
     (case j of
        JNull \<Rightarrow> Inr \<lparr>ni_addr = [], ni_dht_port = 0, ni_sig_port = 0, ni_node_id_hex = []\<rparr>
      | JObj kvs \<Rightarrow>
          or_else (get_string (field kvs ''addr'')) (\<lambda>addr.
          or_else (get_int (field kvs ''dht_port'')) (\<lambda>dhtPort.
          or_else (get_int (field kvs ''sig_port'')) (\<lambda>sigPort.
          or_else (get_string (field kvs ''node_id_hex'')) (\<lambda>idHex.
            Inr \<lparr>ni_addr = addr, ni_dht_port = dhtPort, ni_sig_port = sigPort, ni_node_id_hex = idHex\<rparr>))))
      | _ \<Rightarrow> Inl type_error)"

definition info_text :: "node_info \<Rightarrow> string" where
  "info_text info = print_json (node_info_to_json info)"

text \<open>The body of a registration, \<open>None\<close> for one that does not decode.\<close>

definition info_of_body :: "string \<Rightarrow> node_info option" where
  "info_of_body body =
     (case decode_body node_info_of_json body of Inl err \<Rightarrow> None | Inr info \<Rightarrow> Some info)"

text \<open>The coordinator's answer to \<open>/bootstrap-peer\<close>.\<close>

definition bootstrap_peer :: "node_info \<Rightarrow> nat \<times> string" where
  "bootstrap_peer coordInfo = (200, info_text coordInfo @ [CHR 0x0A])"

section \<open>The programs\<close>

definition outboundIP :: "go_error + string \<Rightarrow> string \<Rightarrow> string" where
  "outboundIP dial localAddr =
     (if localAddr \<noteq> ''0.0.0.0'' \<and> localAddr \<noteq> [] then localAddr
      else case dial of Inl err \<Rightarrow> ''127.0.0.1'' | Inr ip \<Rightarrow> ip)"

definition choose_transport :: "string \<Rightarrow> 'w transport \<Rightarrow> 'w transport \<Rightarrow> 'w transport option" where
  "choose_transport name udp rtc =
     (if name = ''udp'' then Some udp else if name = ''webrtc'' then Some rtc else None)"

text \<open>The bootstrap node, which runs on; \<open>None\<close> is \<open>log.Fatalf\<close>.\<close>

definition runBootstrap ::
  "bytes \<Rightarrow> (string \<Rightarrow> bytes option) \<Rightarrow> 'w transport \<Rightarrow> string \<Rightarrow> int \<Rightarrow> 'w \<Rightarrow> ('w node \<times> 'w) option"
where
  "runBootstrap rnd parseIP udp localAddr dhtPort w =
     (let (err, s) = Start (NewNode (NewNetworkNode rnd parseIP localAddr dhtPort) (Some udp), w) in
      if err \<noteq> None then None else Some s)"

text \<open>The start that a node and the coordinator share.\<close>

definition start_member ::
  "go_error + string \<Rightarrow> bytes \<Rightarrow> (string \<Rightarrow> bytes option) \<Rightarrow> 'w transport \<Rightarrow> 'w transport \<Rightarrow>
     string \<Rightarrow> string \<Rightarrow> int \<Rightarrow> int \<Rightarrow> 'w \<Rightarrow> (node_info \<times> 'w node \<times> 'w) option"
where
  "start_member dial rnd parseIP udp rtc name localAddr dhtPort sigPort w =
     (let actualAddr = outboundIP dial localAddr; nn = NewNetworkNode rnd parseIP actualAddr dhtPort in
      case choose_transport name udp rtc of
        None \<Rightarrow> None
      | Some tr \<Rightarrow>
          let (err, s) = Start (NewNode nn (Some tr), w) in
          if err \<noteq> None then None else Some (node_info_of nn actualAddr dhtPort sigPort, s))"

text \<open>A node up to its registration: it ends, it still asks for the peer to join through, or it posts.\<close>

datatype 'w node_run = Node_fatal | Asking | Posts string "'w node \<times> 'w"

definition runNode ::
  "go_error + string \<Rightarrow> bytes \<Rightarrow> (string \<Rightarrow> bytes option) \<Rightarrow> 'w transport \<Rightarrow> 'w transport \<Rightarrow>
     (string \<Rightarrow> go_error + string \<times> string) \<Rightarrow> (string \<Rightarrow> int) \<Rightarrow> bytes \<Rightarrow> 'w env \<Rightarrow> node_info option list \<Rightarrow>
     string \<Rightarrow> string \<Rightarrow> int \<Rightarrow> int \<Rightarrow> string \<Rightarrow> 'w \<Rightarrow> 'w node_run outcome"
where
  "runNode dial rnd parseIP udp rtc splitHostPort scan rnd' env polls name localAddr dhtPort sigPort bootstrapAddr w =
     (case start_member dial rnd parseIP udp rtc name localAddr dhtPort sigPort w of
        None \<Rightarrow> Done Node_fatal
      | Some (info, s) \<Rightarrow>
          if name = ''udp'' then
            and_then (bootstrapNode splitHostPort scan rnd' parseIP env bootstrapAddr s)
              (\<lambda>r. Done (case r of None \<Rightarrow> Node_fatal | Some s \<Rightarrow> Posts (info_text info) s))
          else
            (case poll_boot_peer polls of
               None \<Rightarrow> Done Asking
             | Some bootPeer \<Rightarrow>
                 and_then (join_webrtc parseIP env bootPeer s) (\<lambda>s. Done (Posts (info_text info) s))))"

text \<open>
  The coordinator: \<open>bodies\<close> are the registrations that its server handles before the wait for the
  nodes ends, by their number or by the timeout.
\<close>

definition runCoordinator ::
  "go_error + string \<Rightarrow> bytes \<Rightarrow> (string \<Rightarrow> bytes option) \<Rightarrow> 'w transport \<Rightarrow> 'w transport \<Rightarrow>
     (string \<Rightarrow> go_error + string \<times> string) \<Rightarrow> (string \<Rightarrow> int) \<Rightarrow> bytes \<Rightarrow> 'w env \<Rightarrow> int \<Rightarrow> string list \<Rightarrow> bytes \<Rightarrow>
     ('w env \<times> bytes) list \<Rightarrow> string \<Rightarrow> string \<Rightarrow> int \<Rightarrow> int \<Rightarrow> string \<Rightarrow> 'w \<Rightarrow>
     (bench_result list \<times> dht_registry \<times> 'w node \<times> 'w) option outcome"
where
  "runCoordinator dial rnd parseIP udp rtc splitHostPort scan rnd' env nodeCount bodies val runs
       name localAddr dhtPort sigPort bootstrapAddr w =
     (case start_member dial rnd parseIP udp rtc name localAddr dhtPort sigPort w of
        None \<Rightarrow> Done None
      | Some (coordInfo, s) \<Rightarrow>
          and_then (if name = ''udp'' then bootstrapNode splitHostPort scan rnd' parseIP env bootstrapAddr s else Done (Some s))
            (\<lambda>r. case r of
               None \<Rightarrow> Done None
             | Some s \<Rightarrow>
                 measure_stores name val runs
                   (fold (\<lambda>body st. snd (register_node nodeCount (info_of_body body) st)) bodies
                     \<lparr>dr_nodes = [], dr_all = False, dr_done = False\<rparr>) s))"

section \<open>A round\<close>

text \<open>
  The coordinator waits, measures, has closed \<open>done\<close> and writes its file, or has exited and its
  server with it. A node has yet to post its registration, whose failure is logged only, then asks
  for \<open>/done\<close> until the answer is 200. An empty registry after the wait is \<open>log.Fatal\<close>.
\<close>

datatype coord_phase = Collects | Measures | Writes | Exited
datatype node_phase = Starting node_info | Polling | Left

record bench_round =
  br_phase :: coord_phase
  br_registry :: dht_registry
  br_nodes :: "node_phase list"

definition new_round :: "node_info list \<Rightarrow> bench_round" where
  "new_round infos = \<lparr>br_phase = Collects, br_registry = \<lparr>dr_nodes = [], dr_all = False, dr_done = False\<rparr>,
     br_nodes = map Starting infos\<rparr>"

definition node_posts :: "int \<Rightarrow> nat \<Rightarrow> node_info \<Rightarrow> bench_round \<Rightarrow> bench_round" where
  "node_posts nodeCount i info s =
     s\<lparr>br_registry := snd (register_node nodeCount (Some info) (br_registry s)), br_nodes := (br_nodes s)[i := Polling]\<rparr>"

definition node_at :: "nat \<Rightarrow> node_phase \<Rightarrow> bench_round \<Rightarrow> bench_round" where
  "node_at i x s = s\<lparr>br_nodes := (br_nodes s)[i := x]\<rparr>"

definition proceed :: "bench_round \<Rightarrow> bench_round" where
  "proceed s = s\<lparr>br_phase := (if dr_nodes (br_registry s) = [] then Exited else Measures)\<rparr>"

definition close_done :: "bench_round \<Rightarrow> bench_round" where
  "close_done s = s\<lparr>br_phase := Writes, br_registry := (br_registry s)\<lparr>dr_done := True\<rparr>\<rparr>"

inductive round_step :: "int \<Rightarrow> bench_round \<Rightarrow> bench_round \<Rightarrow> bool" for nodeCount where
  post: "i < length (br_nodes s) \<Longrightarrow> br_nodes s ! i = Starting info \<Longrightarrow> br_phase s \<noteq> Exited \<Longrightarrow>
     round_step nodeCount s (node_posts nodeCount i info s)"
| post_lost: "i < length (br_nodes s) \<Longrightarrow> br_nodes s ! i = Starting info \<Longrightarrow> round_step nodeCount s (node_at i Polling s)"
| leave: "i < length (br_nodes s) \<Longrightarrow> br_nodes s ! i = Polling \<Longrightarrow> br_phase s \<noteq> Exited \<Longrightarrow>
     done_status (br_registry s) = 200 \<Longrightarrow> round_step nodeCount s (node_at i Left s)"
| wait_ends: "br_phase s = Collects \<Longrightarrow> round_step nodeCount s (proceed s)"
| measured: "br_phase s = Measures \<Longrightarrow> round_step nodeCount s (close_done s)"
| exits: "br_phase s = Writes \<Longrightarrow> round_step nodeCount s (s\<lparr>br_phase := Exited\<rparr>)"

text \<open>No node leaves before the measurement is over.\<close>

definition round_ok :: "bench_round \<Rightarrow> bool" where
  "round_ok s \<longleftrightarrow>
     (dr_done (br_registry s) \<longrightarrow> br_phase s \<in> {Writes, Exited})
     \<and> (Left \<in> set (br_nodes s) \<longrightarrow> dr_done (br_registry s))
     \<and> (br_phase s \<in> {Measures, Writes} \<longrightarrow> dr_nodes (br_registry s) \<noteq> [])"

definition phase_work :: "coord_phase \<Rightarrow> nat" where
  "phase_work p = (case p of Collects \<Rightarrow> 3 | Measures \<Rightarrow> 2 | Writes \<Rightarrow> 1 | Exited \<Rightarrow> 0)"

definition node_work :: "node_phase \<Rightarrow> nat" where
  "node_work x = (case x of Starting info \<Rightarrow> 2 | Polling \<Rightarrow> 1 | Left \<Rightarrow> 0)"

definition round_work :: "bench_round \<Rightarrow> nat" where
  "round_work s = phase_work (br_phase s) + sum_list (map node_work (br_nodes s))"

lemma node_work_less:
  assumes "i < length xs" and "node_work x < node_work (xs ! i)"
  shows "sum_list (map node_work (xs[i := x])) < sum_list (map node_work xs)"
  using sum_list_replace [OF assms(1), of node_work x] assms(2) by simp

lemma round_step_ok: "round_step nodeCount s t \<Longrightarrow> round_ok s \<Longrightarrow> round_ok t"
  by (induction rule: round_step.induct)
    (auto simp: round_ok_def node_posts_def node_at_def proceed_def close_done_def register_node_def done_status_def Let_def
      dest!: set_update_subset_insert [THEN subsetD] split: if_splits)

lemma round_step_works: "round_step nodeCount s t \<Longrightarrow> round_work t < round_work s"
  by (induction rule: round_step.induct)
    (auto simp: round_work_def phase_work_def node_posts_def node_at_def proceed_def close_done_def
      intro!: node_work_less, simp_all add: node_work_def)

interpretation round: stopping_machine "new_round infos" "round_step nodeCount" round_ok round_work
proof unfold_locales
  show "round_ok (new_round infos)" by (auto simp: new_round_def round_ok_def)
qed (rule round_step_ok round_step_works; assumption)+

text \<open>Nodes are still up while the coordinator measures, and every round comes to an end.\<close>

lemma nodes_stay:
  "(round_step nodeCount)\<^sup>*\<^sup>* (new_round infos) s \<Longrightarrow> br_phase s \<in> {Collects, Measures} \<Longrightarrow> Left \<notin> set (br_nodes s)"
  using round.reachable_ok [of nodeCount infos s] by (auto simp: round_ok_def)

text \<open>At the end nodes may be left polling a server that is gone.\<close>

lemma exited_stays: "round_step nodeCount s t \<Longrightarrow> br_phase s = Exited \<Longrightarrow> i < length (br_nodes s) \<Longrightarrow> br_nodes s ! i = Polling \<Longrightarrow>
   br_phase t = Exited \<and> i < length (br_nodes t) \<and> br_nodes t ! i = Polling"
  by (induction rule: round_step.induct) (auto simp: node_at_def nth_list_update)

lemma polls_for_ever:
  assumes "(round_step nodeCount)\<^sup>*\<^sup>* s t" and "br_phase s = Exited" and "i < length (br_nodes s)" and "br_nodes s ! i = Polling"
  shows "br_nodes t ! i = Polling"
proof -
  have "br_phase t = Exited \<and> i < length (br_nodes t) \<and> br_nodes t ! i = Polling"
    using assms(1)
  proof induction
    case (step t u)
    then show ?case using exited_stays [of nodeCount t u i] by blast
  qed (use assms in simp)
  then show ?thesis by simp
qed

section \<open>Registering\<close>

text \<open>A registration comes back from its text.\<close>

lemma info_of_text:
  assumes "- (2 ^ 63) \<le> ni_dht_port info" "ni_dht_port info < 2 ^ 63" "- (2 ^ 63) \<le> ni_sig_port info" "ni_sig_port info < 2 ^ 63"
  shows "info_of_body (info_text info) = Some info"
proof (cases info)
  case (fields addr dhtPort sigPort idHex)
  have ports: "get_int (JInt dhtPort) = Inr dhtPort" "get_int (JInt sigPort) = Inr sigPort"
    using assms by (auto simp: fields intro!: get_int_port)
  have "get_int JNull = Inr 0" by (simp add: get_int_def get_int64_def)
  with ports show ?thesis
    by (cases "sigPort = 0")
      (simp_all add: fields info_of_body_def info_text_def decode_body_def node_info_of_json_def node_info_to_json_def
        field_def omit_def get_string_def del: print_json.simps)
qed

lemma start_member_id:
  "start_member dial rnd parseIP udp rtc name localAddr dhtPort sigPort w = Some (info, s) \<Longrightarrow>
     info = node_info_of (node_self (fst s)) (outboundIP dial localAddr) dhtPort sigPort
     \<and> node_self (fst s) = NewNetworkNode rnd parseIP (outboundIP dial localAddr) dhtPort
     \<and> fst s = NewNode (node_self (fst s)) (if name = ''udp'' then Some udp else Some rtc)"
  by (auto simp: start_member_def choose_transport_def Start_def NewNode_def NewNodeWithStorage_def Let_def
      split: if_splits prod.splits)

lemma registered_nodes:
  "dr_nodes (fold (\<lambda>body st. snd (register_node n (info_of_body body) st)) bodies st) = dr_nodes st @ List.map_filter info_of_body bodies"
proof (induction bodies arbitrary: st)
  case (Cons b bodies)
  have "dr_nodes (snd (register_node n (info_of_body b) st))
      = dr_nodes st @ (case info_of_body b of None \<Rightarrow> [] | Some info \<Rightarrow> [info])"
    by (simp add: register_node_def Let_def split: option.split)
  then show ?case by (simp add: Cons map_filter_simps split: option.split)
qed (simp add: map_filter_simps)

lemma Bootstrap_runs:
  assumes "runnable sha (fst s)"
  obtains err s' where "Bootstrap env ns s = Done (err, s')" and "runnable sha (fst s')"
proof -
  have s: "node_inv sha (fst s)" "calls_ok (fst s)" using assms by (simp_all add: runnable_def)
  then obtain err s' where r: "Bootstrap env ns s = Done (err, s')" using Bootstrap_returns by blast
  from Bootstrap_evolves [OF s(1) r] s calls_ok_evolves evolves_inv r that show thesis by (simp add: runnable_def) blast
qed

lemma bootstrapNode_runs:
  assumes "runnable sha (fst s)" and "bootstrapAddr = [] \<or> (\<exists>hp. splitHostPort bootstrapAddr = Inr hp)"
  obtains s' where "bootstrapNode splitHostPort scan rnd parseIP env bootstrapAddr s = Done (Some s')" and "runnable sha (fst s')"
proof (cases "bootstrapAddr = []")
  case True
  with assms(1) that show thesis by (simp add: bootstrapNode_def)
next
  case False
  with assms(2) obtain host port where hp: "splitHostPort bootstrapAddr = Inr (host, port)" by auto
  obtain err s' where "Bootstrap env [NewNetworkNode rnd parseIP host (scan port)] s = Done (err, s')" "runnable sha (fst s')"
    using Bootstrap_runs [OF assms(1)] .
  with False hp that show thesis by (simp add: bootstrapNode_def)
qed

text \<open>A node's registration gives the coordinator a contact with the node's id, whichever way it joined.\<close>

lemma posted_registration:
  assumes "runNode dial rnd parseIP udp rtc splitHostPort scan rnd' env polls name localAddr dhtPort sigPort bootstrapAddr w
      = Done (Posts body s)"
    and "- (2 ^ 63) \<le> dhtPort" "dhtPort < 2 ^ 63" "- (2 ^ 63) \<le> sigPort" "sigPort < 2 ^ 63"
  obtains info where "info_of_body body = Some info" and "nn_id (toNetworkNode parseIP tr info) = GenerateKey rnd"
    and "nn_port (toNetworkNode parseIP tr info) = dhtPort"
proof -
  from assms(1) obtain info s0 where m: "start_member dial rnd parseIP udp rtc name localAddr dhtPort sigPort w = Some (info, s0)"
    by (auto simp: runNode_def split: option.splits)
  from start_member_id [OF m] have i: "info = node_info_of (NewNetworkNode rnd parseIP (outboundIP dial localAddr) dhtPort)
      (outboundIP dial localAddr) dhtPort sigPort" by metis
  have "body = info_text info"
  proof (cases "name = ''udp''")
    case True
    with assms(1) m show ?thesis
      by (cases "bootstrapNode splitHostPort scan rnd' parseIP env bootstrapAddr s0") (auto simp: runNode_def split: option.splits)
  next
    case False
    with assms(1) m show ?thesis
    proof (cases "poll_boot_peer polls")
      case (Some peer)
      with False assms(1) m show ?thesis by (cases "join_webrtc parseIP env peer s0") (auto simp: runNode_def)
    qed (simp add: runNode_def)
  qed
  moreover have "info_of_body (info_text info) = Some info"
    using assms(2-) by (intro info_of_text) (simp_all add: i node_info_of_def)
  ultimately show thesis using that toNetworkNode_registered by (simp add: i NewNetworkNode_def)
qed

end
