(* ===== verification/Bench_Coordinator.thy ===== *)
theory Bench_Coordinator
  imports Bench_Agent "HOL-Library.Multiset"
begin

text \<open>
  The coordinator of \<open>cmd/bench_signaling/main.go\<close> as a whole: one goroutine per pair hands out the
  callees, then the callers, one after another or each in its own goroutine, while results come
  in. The network decides of each post whether the agent takes the role and whether the
  coordinator gets a status or an error.
\<close>

section \<open>Before the pairs\<close>

datatype run_setup = NoAgents | AgentFailed string go_error | SetupPanic | Ready "string list"

text \<open>Every agent is asked for its id, of which the first twelve characters are printed.\<close>

fun check_agents :: "bool \<Rightarrow> (string \<Rightarrow> go_error + string) \<Rightarrow> string list \<Rightarrow> string list \<Rightarrow> run_setup" where
  "check_agents call_first info agents [] = Ready agents"
| "check_agents call_first info agents (a # rest) =
     (case getAgentInfo call_first (info (''http://'' @ a @ ''/info'')) of
        Inl err \<Rightarrow> AgentFailed a err
      | Inr idHex \<Rightarrow> if length idHex < 12 then SetupPanic else check_agents call_first info agents rest)"

definition coordinator_setup :: "bool \<Rightarrow> (string \<Rightarrow> go_error + string) \<Rightarrow> string \<Rightarrow> run_setup" where
  "coordinator_setup call_first info agentsFlag =
     (let agents = parseCSV agentsFlag in if agents = [] then NoAgents else check_agents call_first info agents agents)"

section \<open>The state\<close>

text \<open>What is fixed for a run: the number of agents and of pairs, and the ids of the pairs.\<close>

record run_config =
  rc_agents :: nat
  rc_pairs :: nat
  rc_signaling :: string
  rc_callee :: "nat \<Rightarrow> string"
  rc_caller :: "nat \<Rightarrow> string"
  rc_callback :: string

definition new_run ::
  "(nat \<Rightarrow> bytes) \<Rightarrow> go_error + string \<Rightarrow> int \<Rightarrow> string list \<Rightarrow> nat \<Rightarrow> string \<Rightarrow> run_config" where
  "new_run rnd dial coordPort agents pairs signaling =
     \<lparr>rc_agents = length agents, rc_pairs = pairs, rc_signaling = signaling,
      rc_callee = (\<lambda>i. randomIDHex (rnd (2 * i))), rc_caller = (\<lambda>i. randomIDHex (rnd (2 * i + 1))),
      rc_callback = ''http://'' @ resolveIP dial ''0.0.0.0'' @ '':'' @ int_text coordPort @ ''/result''\<rparr>"

text \<open>A role to hand out: the attempts made, the agent that took it, or none did.\<close>

datatype task = Trying nat | Handed nat | GivenUp

fun settled :: "task \<Rightarrow> bool" where
  "settled (Trying k) = False"
| "settled _ = True"

datatype phase = Callees | Callers | Waiting | Finished

record coord_output =
  ou_signaling :: string
  ou_pair_count :: nat
  ou_results :: "pair_result list"

text \<open>
  \<open>co_running\<close> are the roles that agents execute, \<open>co_posted\<close> results on their way. The output comes
  with whether \<open>done\<close> ended the wait. Two ghosts: \<open>co_refused\<close> are the refusals the coordinator saw,
  and \<open>co_lost\<close> the pairs of the callers that an agent took although the coordinator saw a refusal.
\<close>

record coordinator =
  co_phase :: phase
  co_callees :: "task list"
  co_callers :: "task list"
  co_collector :: "pair_result collector"
  co_running :: "pair_request list"
  co_posted :: "pair_result list"
  co_output :: "(bool \<times> coord_output) option"
  co_refused :: "(nat \<times> nat) set"
  co_lost :: "nat multiset"

definition coord_start :: "run_config \<Rightarrow> coordinator" where
  "coord_start cf =
     \<lparr>co_phase = Callees, co_callees = replicate (rc_pairs cf) (Trying 0), co_callers = replicate (rc_pairs cf) (Trying 0),
      co_collector = \<lparr>co_results = [], co_done = False\<rparr>, co_running = [], co_posted = [], co_output = None,
      co_refused = {}, co_lost = {#}\<rparr>"

section \<open>Handing out the roles\<close>

definition over_dht :: "run_config \<Rightarrow> bool" where
  "over_dht cf \<longleftrightarrow> rc_signaling cf = ''dht''"

definition callee_request :: "run_config \<Rightarrow> nat \<Rightarrow> pair_request" where
  "callee_request cf i =
     \<lparr>pr_pair = of_nat i, pr_role = ''callee'', pr_callee = rc_callee cf i, pr_caller = rc_caller cf i,
      pr_callback = [], pr_delay = of_nat (start_delay (over_dht cf) (rc_pairs cf) i)\<rparr>"

definition caller_request :: "run_config \<Rightarrow> nat \<Rightarrow> pair_request" where
  "caller_request cf i =
     \<lparr>pr_pair = of_nat i, pr_role = ''caller'', pr_callee = rc_callee cf i, pr_caller = rc_caller cf i,
      pr_callback = rc_callback cf, pr_delay = 0\<rparr>"

text \<open>
  One attempt: \<open>taken\<close> is whether the body reached an agent's \<open>/run-pair\<close>, \<open>resp\<close> what the post gave,
  an error or a status.
\<close>

definition after_attempt :: "nat \<Rightarrow> nat \<Rightarrow> go_error + nat \<Rightarrow> task" where
  "after_attempt idx k resp = (case tryPostJSON resp of None \<Rightarrow> Handed idx | Some err \<Rightarrow> Trying (Suc k))"

definition start_role :: "bool \<Rightarrow> pair_request \<Rightarrow> pair_request list \<Rightarrow> pair_request list" where
  "start_role taken req running =
     (if taken then (case snd (handleRunPair (request_body req)) of None \<Rightarrow> running | Some r \<Rightarrow> running @ [r])
      else running)"

definition callee_attempt :: "run_config \<Rightarrow> nat \<Rightarrow> nat \<Rightarrow> bool \<Rightarrow> go_error + nat \<Rightarrow> coordinator \<Rightarrow> coordinator" where
  "callee_attempt cf i k taken resp s =
     (let idx = (callee_agent (rc_agents cf) i + k) mod rc_agents cf in
      s\<lparr>co_callees := (co_callees s)[i := after_attempt idx k resp],
        co_running := start_role taken (callee_request cf i) (co_running s)\<rparr>)"

definition caller_attempt :: "run_config \<Rightarrow> nat \<Rightarrow> nat \<Rightarrow> bool \<Rightarrow> go_error + nat \<Rightarrow> coordinator \<Rightarrow> coordinator" where
  "caller_attempt cf i k taken resp s =
     (let idx = (caller_agent (rc_agents cf) i + k) mod rc_agents cf in
      s\<lparr>co_callers := (co_callers s)[i := after_attempt idx k resp],
        co_running := start_role taken (caller_request cf i) (co_running s),
        co_refused := (if tryPostJSON resp = None then co_refused s else insert (i, idx) (co_refused s)),
        co_lost := (if taken \<and> tryPostJSON resp \<noteq> None then add_mset i (co_lost s) else co_lost s)\<rparr>)"

text \<open>All agents failed: a callee is only logged, for a caller an error is recorded.\<close>

definition callee_fails :: "nat \<Rightarrow> coordinator \<Rightarrow> coordinator" where
  "callee_fails i s = s\<lparr>co_callees := (co_callees s)[i := GivenUp]\<rparr>"

definition unreachable_result :: "run_config \<Rightarrow> nat \<Rightarrow> pair_result" where
  "unreachable_result cf i =
     \<lparr>pt_pair = of_nat i, pt_signaling = rc_signaling cf, pt_latency = 0,
      pt_error = ''all agents unreachable for caller dispatch''\<rparr>"

definition caller_fails :: "run_config \<Rightarrow> nat \<Rightarrow> coordinator \<Rightarrow> coordinator" where
  "caller_fails cf i s =
     s\<lparr>co_callers := (co_callers s)[i := GivenUp],
       co_collector := recordResult (rc_pairs cf) (unreachable_result cf i) (co_collector s)\<rparr>"

text \<open>With a stagger the callers are handed out by one loop, so a pair waits for those before it.\<close>

definition caller_turn :: "run_config \<Rightarrow> nat \<Rightarrow> coordinator \<Rightarrow> bool" where
  "caller_turn cf i s \<longleftrightarrow>
     caller_stagger (over_dht cf) (rc_pairs cf) = 0 \<or> list_all settled (take i (co_callers s))"

section \<open>Results\<close>

text \<open>An agent ends the role at position \<open>j\<close>; a caller with a callback posts what it reports.\<close>

definition role_ends ::
  "nat \<Rightarrow> string \<Rightarrow> (pair_request \<Rightarrow> 64 word \<times> go_error option) \<Rightarrow> coordinator \<Rightarrow> coordinator" where
  "role_ends j agentSig runCaller s =
     s\<lparr>co_running := remove_nth j (co_running s),
       co_posted := co_posted s @
         (case executePairRole agentSig runCaller (co_running s ! j) of None \<Rightarrow> [] | Some (url, res) \<Rightarrow> [res])\<rparr>"

text \<open>The handler of \<open>/result\<close>, and the arrival of a result there.\<close>

definition serve_result :: "nat \<Rightarrow> string \<Rightarrow> pair_result collector \<Rightarrow> nat \<times> pair_result collector" where
  "serve_result pairs body co =
     (case decode_body result_of_json body of Inl err \<Rightarrow> (400, co) | Inr res \<Rightarrow> (200, recordResult pairs res co))"

definition result_arrives :: "run_config \<Rightarrow> nat \<Rightarrow> coordinator \<Rightarrow> coordinator" where
  "result_arrives cf j s =
     s\<lparr>co_posted := remove_nth j (co_posted s),
       co_collector := snd (serve_result (rc_pairs cf) (result_body (co_posted s ! j)) (co_collector s))\<rparr>"

definition result_lost :: "nat \<Rightarrow> coordinator \<Rightarrow> coordinator" where
  "result_lost j s = s\<lparr>co_posted := remove_nth j (co_posted s)\<rparr>"

text \<open>The end: the wait is over by \<open>done\<close> or by the timer, the server is shut down and the output written.\<close>

definition coord_finish :: "run_config \<Rightarrow> bool \<Rightarrow> coordinator \<Rightarrow> coordinator" where
  "coord_finish cf by_done s =
     s\<lparr>co_phase := Finished,
       co_output := Some (by_done, \<lparr>ou_signaling = rc_signaling cf, ou_pair_count = rc_pairs cf,
                                    ou_results = co_results (co_collector s)\<rparr>)\<rparr>"

section \<open>Steps\<close>

text \<open>A post may have any outcome, whether an agent took the role or not.\<close>

inductive coord_step :: "run_config \<Rightarrow> coordinator \<Rightarrow> coordinator \<Rightarrow> bool" for cf :: run_config
where
  callee_try: "co_phase s = Callees \<Longrightarrow> i < rc_pairs cf \<Longrightarrow> co_callees s ! i = Trying k \<Longrightarrow> k < rc_agents cf \<Longrightarrow>
     coord_step cf s (callee_attempt cf i k taken resp s)"
| callee_fail: "co_phase s = Callees \<Longrightarrow> i < rc_pairs cf \<Longrightarrow> co_callees s ! i = Trying (rc_agents cf) \<Longrightarrow>
     coord_step cf s (callee_fails i s)"
| callees_out: "co_phase s = Callees \<Longrightarrow> list_all settled (co_callees s) \<Longrightarrow> coord_step cf s (s\<lparr>co_phase := Callers\<rparr>)"
| caller_try: "co_phase s = Callers \<Longrightarrow> i < rc_pairs cf \<Longrightarrow> caller_turn cf i s \<Longrightarrow> co_callers s ! i = Trying k \<Longrightarrow>
     k < rc_agents cf \<Longrightarrow> coord_step cf s (caller_attempt cf i k taken resp s)"
| caller_fail: "co_phase s = Callers \<Longrightarrow> i < rc_pairs cf \<Longrightarrow> caller_turn cf i s \<Longrightarrow>
     co_callers s ! i = Trying (rc_agents cf) \<Longrightarrow> coord_step cf s (caller_fails cf i s)"
| callers_out: "co_phase s = Callers \<Longrightarrow> list_all settled (co_callers s) \<Longrightarrow> coord_step cf s (s\<lparr>co_phase := Waiting\<rparr>)"
| role_end: "j < length (co_running s) \<Longrightarrow> coord_step cf s (role_ends j agentSig runCaller s)"
| arrive: "co_phase s \<noteq> Finished \<Longrightarrow> j < length (co_posted s) \<Longrightarrow> coord_step cf s (result_arrives cf j s)"
| lose: "j < length (co_posted s) \<Longrightarrow> coord_step cf s (result_lost j s)"
| all_received: "co_phase s = Waiting \<Longrightarrow> co_done (co_collector s) \<Longrightarrow> coord_step cf s (coord_finish cf True s)"
| timed_out: "co_phase s = Waiting \<Longrightarrow> coord_step cf s (coord_finish cf False s)"

section \<open>The invariant\<close>

text \<open>The pairs that an agent works at as a caller, or that have a result, on its way or recorded.\<close>

definition claims :: "coordinator \<Rightarrow> 64 word multiset" where
  "claims s =
     image_mset pr_pair {#r \<in># mset (co_running s). pr_role r = ''caller''#}
     + image_mset pt_pair (mset (co_posted s)) + image_mset pt_pair (mset (co_results (co_collector s)))"

definition settled_pairs :: "run_config \<Rightarrow> coordinator \<Rightarrow> 64 word set" where
  "settled_pairs cf s = of_nat ` {i. i < rc_pairs cf \<and> settled (co_callers s ! i)}"

definition lost_pairs :: "coordinator \<Rightarrow> 64 word multiset" where
  "lost_pairs s = image_mset of_nat (co_lost s)"

text \<open>The agents that refused the caller of a pair in its first \<open>k\<close> attempts.\<close>

definition refused_by :: "run_config \<Rightarrow> nat \<Rightarrow> nat \<Rightarrow> coordinator \<Rightarrow> bool" where
  "refused_by cf i k s \<longleftrightarrow> (\<forall>j < k. (i, (caller_agent (rc_agents cf) i + j) mod rc_agents cf) \<in> co_refused s)"

definition task_ok :: "run_config \<Rightarrow> coordinator \<Rightarrow> nat \<Rightarrow> bool" where
  "task_ok cf s i \<longleftrightarrow>
     (case co_callers s ! i of
        Trying k \<Rightarrow> refused_by cf i k s
      | Handed idx \<Rightarrow> idx < rc_agents cf
      | GivenUp \<Rightarrow> refused_by cf i (rc_agents cf) s \<and> unreachable_result cf i \<in> set (co_results (co_collector s)))"

definition one_each :: "run_config \<Rightarrow> pair_result list \<Rightarrow> bool" where
  "one_each cf results \<longleftrightarrow> mset (map pt_pair results) = mset (map of_nat [0..<rc_pairs cf])"

definition coord_ok :: "run_config \<Rightarrow> coordinator \<Rightarrow> bool" where
  "coord_ok cf s \<longleftrightarrow>
     length (co_callees s) = rc_pairs cf \<and> length (co_callers s) = rc_pairs cf
     \<and> claims s \<subseteq># mset_set (settled_pairs cf s) + lost_pairs s
     \<and> (\<forall>j \<in># co_lost s. j < rc_pairs cf)
     \<and> (\<forall>i < rc_pairs cf. task_ok cf s i)
     \<and> (co_done (co_collector s) \<longrightarrow> rc_pairs cf \<le> length (co_results (co_collector s)))
     \<and> (\<forall>out. co_output s = Some (True, out) \<longrightarrow> rc_pairs cf \<le> length (ou_results out)
          \<and> (co_lost s = {#} \<longrightarrow> one_each cf (ou_results out)))"

lemma pair_words: "rc_pairs cf \<le> 2 ^ 64 \<Longrightarrow> inj_on (of_nat :: nat \<Rightarrow> 64 word) {i. i < rc_pairs cf}"
  by (rule inj_onI) (simp add: word_of_nat_eq_iff take_bit_nat_eq_self)

lemma finite_settled [simp]: "finite (settled_pairs cf s)"
  by (simp add: settled_pairs_def)

lemma settled_pairs_change:
  assumes "length (co_callers s) = rc_pairs cf" and "i < rc_pairs cf" and "\<not> settled (co_callers s ! i)"
    and "co_callers t = (co_callers s)[i := x]"
  shows "settled_pairs cf t = (if settled x then insert (of_nat i) (settled_pairs cf s) else settled_pairs cf s)"
proof -
  have "{j. j < rc_pairs cf \<and> settled ((co_callers s)[i := x] ! j)}
      = (if settled x then insert i {j. j < rc_pairs cf \<and> settled (co_callers s ! j)}
         else {j. j < rc_pairs cf \<and> settled (co_callers s ! j)})"
    using assms(1-3) by (auto simp: nth_list_update)
  then show ?thesis by (simp add: settled_pairs_def assms(4))
qed

lemma unsettled_free:
  assumes "rc_pairs cf \<le> 2 ^ 64" and "i < rc_pairs cf" and "\<not> settled (co_callers s ! i)"
  shows "of_nat i \<notin> settled_pairs cf s"
  using inj_onD [OF pair_words [OF assms(1)], of i] assms(2,3) by (auto simp: settled_pairs_def)

lemma task_ok_mono:
  assumes "task_ok cf s i" and "co_callers t ! i = co_callers s ! i" and "co_refused s \<subseteq> co_refused t"
    and "set (co_results (co_collector s)) \<subseteq> set (co_results (co_collector t))"
  shows "task_ok cf t i"
  using assms by (auto simp: task_ok_def refused_by_def split: task.splits)

lemma recordResult_simps [simp]:
  "co_results (recordResult n r co) = co_results co @ [r]"
  "co_done (recordResult n r co) \<longleftrightarrow> co_done co \<or> n \<le> Suc (length (co_results co))"
  by (simp_all add: recordResult_def Let_def)

lemma start_role_eq: "start_role taken req running = (if taken then running @ [req] else running)"
  by (simp add: start_role_def)

lemma serve_result_eq [simp]: "serve_result n (result_body r) co = (200, recordResult n r co)"
  by (simp add: serve_result_def)

text \<open>When \<open>done\<close> ends the wait and no answer was lost, there is one result for each pair.\<close>

lemma done_complete:
  assumes "rc_pairs cf \<le> 2 ^ 64" and ok: "coord_ok cf s" and "co_done (co_collector s)" and kept: "co_lost s = {#}"
  shows "one_each cf (co_results (co_collector s))"
proof -
  let ?R = "image_mset pt_pair (mset (co_results (co_collector s)))"
    and ?P = "of_nat ` {i. i < rc_pairs cf} :: 64 word set"
  have "?R \<subseteq># claims s" by (simp add: claims_def)
  also have "\<dots> \<subseteq># mset_set (settled_pairs cf s)" using ok kept by (simp add: coord_ok_def lost_pairs_def)
  also have "\<dots> \<subseteq># mset_set ?P"
    by (rule subset_imp_msubset_mset_set) (auto simp: settled_pairs_def)
  finally have sub: "?R \<subseteq># mset_set ?P" .
  have "card ?P = rc_pairs cf" using card_image [OF pair_words [OF assms(1)]] by simp
  moreover have "rc_pairs cf \<le> size ?R" using ok assms(3) by (simp add: coord_ok_def)
  ultimately have "\<not> ?R \<subset># mset_set ?P" using mset_subset_size by fastforce
  with sub have "?R = mset_set ?P" by (simp add: subset_mset.le_less)
  also have "\<dots> = image_mset of_nat (mset_set {i. i < rc_pairs cf})"
    by (rule image_mset_mset_set [OF pair_words [OF assms(1)], symmetric])
  also have "{i. i < rc_pairs cf} = set [0..<rc_pairs cf]" by auto
  finally show ?thesis
    by (simp add: one_each_def mset_set_set)
qed

section \<open>Every step keeps it\<close>

text \<open>A step is either one that leaves the callers alone and adds no claim, or one that moves the
  caller of one pair, which claims it as it settles.\<close>

lemma coord_ok_same:
  assumes ok: "coord_ok cf s" and same: "length (co_callees t) = length (co_callees s)" "co_callers t = co_callers s"
    "co_refused t = co_refused s" "co_lost t = co_lost s" and claims: "claims t \<subseteq># claims s"
    and results: "set (co_results (co_collector s)) \<subseteq> set (co_results (co_collector t))"
    and fin: "co_done (co_collector t) \<Longrightarrow> rc_pairs cf \<le> length (co_results (co_collector t))"
    and out: "\<And>out. co_output t = Some (True, out) \<Longrightarrow> rc_pairs cf \<le> length (ou_results out)
       \<and> (co_lost s = {#} \<longrightarrow> one_each cf (ou_results out))"
  shows "coord_ok cf t"
proof -
  have "settled_pairs cf t = settled_pairs cf s" by (simp add: settled_pairs_def same)
  moreover have "claims s \<subseteq># mset_set (settled_pairs cf s) + lost_pairs s" using ok by (simp add: coord_ok_def)
  moreover have "lost_pairs t = lost_pairs s" by (simp add: lost_pairs_def same)
  ultimately have "claims t \<subseteq># mset_set (settled_pairs cf t) + lost_pairs t" using subset_mset.order_trans [OF claims] by simp
  moreover have "task_ok cf t i" if "i < rc_pairs cf" for i
    using task_ok_mono [of cf s i t] ok that same results by (simp add: coord_ok_def)
  ultimately show ?thesis using ok same fin out by (simp add: coord_ok_def)
qed

lemma coord_ok_caller:
  assumes ok: "coord_ok cf s" and pairs: "rc_pairs cf \<le> 2 ^ 64" and i: "i < rc_pairs cf" "co_callers s ! i = Trying k"
    and t: "co_callees t = co_callees s" "co_callers t = (co_callers s)[i := x]" "co_output t = co_output s"
    and claims: "claims t \<subseteq># claims s + (if settled x then {#of_nat i#} else {#}) + image_mset of_nat d"
    and lost: "co_lost t = co_lost s + d" "set_mset d \<subseteq> {i}"
    and task: "task_ok cf t i" and grow: "co_refused s \<subseteq> co_refused t"
      "set (co_results (co_collector s)) \<subseteq> set (co_results (co_collector t))"
    and fin: "co_done (co_collector t) \<Longrightarrow> rc_pairs cf \<le> length (co_results (co_collector t))"
  shows "coord_ok cf t"
proof -
  have len: "length (co_callers s) = rc_pairs cf" and sub: "claims s \<subseteq># mset_set (settled_pairs cf s) + lost_pairs s"
    using ok by (simp_all add: coord_ok_def)
  have free: "of_nat i \<notin> settled_pairs cf s" by (rule unsettled_free [OF pairs i(1)]) (simp add: i(2))
  have "settled_pairs cf t = (if settled x then insert (of_nat i) (settled_pairs cf s) else settled_pairs cf s)"
    by (rule settled_pairs_change [OF len i(1) _ t(2)]) (simp add: i(2))
  with free have new: "mset_set (settled_pairs cf t) = mset_set (settled_pairs cf s) + (if settled x then {#of_nat i#} else {#})"
    by simp
  have "claims t \<subseteq># mset_set (settled_pairs cf s) + lost_pairs s + (if settled x then {#of_nat i#} else {#}) + image_mset of_nat d"
    by (rule subset_mset.order_trans [OF claims]) (intro subset_mset.add_mono sub subset_mset.order_refl)
  then have "claims t \<subseteq># mset_set (settled_pairs cf t) + lost_pairs t"
    by (simp add: new lost_pairs_def lost(1) ac_simps)
  moreover have "\<forall>j \<in># co_lost t. j < rc_pairs cf"
    using ok lost i(1) by (auto simp: coord_ok_def)
  moreover have "task_ok cf t j" if "j < rc_pairs cf" for j
    using task_ok_mono [OF _ _ grow, of cf j] task ok that by (cases "j = i") (simp_all add: coord_ok_def t(2))
  ultimately show ?thesis using ok t len fin lost(1) by (simp add: coord_ok_def)
qed

lemma claims_remove_running:
  "j < length (co_running s) \<Longrightarrow> {#r \<in># mset (co_running s). P r#}
     = (if P (co_running s ! j) then {#co_running s ! j#} else {#}) + {#r \<in># mset (remove_nth j (co_running s)). P r#}"
  by (simp add: mset_remove_nth [of j "co_running s"])

lemma role_ends_claims:
  assumes "j < length (co_running s)"
  shows "claims (role_ends j agentSig runCaller s) \<subseteq># claims s"
proof -
  let ?r = "co_running s ! j"
  have post: "image_mset pt_pair (mset (case executePairRole agentSig runCaller ?r of None \<Rightarrow> [] | Some (url, res) \<Rightarrow> [res]))
      \<subseteq># (if pr_role ?r = ''caller'' then {#pr_pair ?r#} else {#})"
    by (simp add: executePairRole_def Let_def split: prod.split)
  show ?thesis
    using post by (cases "pr_role ?r = ''caller''")
      (simp_all add: claims_def role_ends_def claims_remove_running [OF assms] ac_simps)
qed

lemma result_arrives_claims: "j < length (co_posted s) \<Longrightarrow> claims (result_arrives cf j s) = claims s"
  by (simp add: claims_def result_arrives_def mset_remove_nth [of j "co_posted s"])

lemma result_lost_claims: "j < length (co_posted s) \<Longrightarrow> claims (result_lost j s) \<subseteq># claims s"
  by (simp add: claims_def result_lost_def mset_remove_nth [of j "co_posted s"])

lemma agent_index: "k < n \<Longrightarrow> (start + k) mod n < (n :: nat)"
  by (rule mod_less_divisor) simp

lemma coord_step_ok:
  assumes "coord_step cf s t" and ok: "coord_ok cf s" and pairs: "rc_pairs cf \<le> 2 ^ 64"
  shows "coord_ok cf t"
  using assms(1)
proof cases
  case (callee_try i k taken resp)
  have "claims t = claims s" by (simp add: callee_try claims_def callee_attempt_def callee_request_def start_role_eq Let_def)
  then show ?thesis using ok by (intro coord_ok_same [OF ok]) (simp_all add: callee_try callee_attempt_def coord_ok_def Let_def)
next
  case (callee_fail i)
  then show ?thesis using ok
    by (intro coord_ok_same [OF ok]) (simp_all add: callee_fails_def claims_def coord_ok_def)
next
  case (caller_try i k taken resp)
  let ?x = "after_attempt ((caller_agent (rc_agents cf) i + k) mod rc_agents cf) k resp"
  let ?d = "if taken \<and> tryPostJSON resp \<noteq> None then {#i#} else {#}"
  have settled: "settled ?x \<longleftrightarrow> tryPostJSON resp = None" by (cases "tryPostJSON resp") (simp_all add: after_attempt_def)
  have len: "length (co_callers s) = rc_pairs cf" using ok by (simp add: coord_ok_def)
  have "task_ok cf s i" using ok caller_try by (simp add: coord_ok_def)
  then have refused: "refused_by cf i k s" by (simp add: task_ok_def caller_try)
  show ?thesis
  proof (rule coord_ok_caller [OF ok pairs caller_try(3,5), where x = ?x and d = ?d])
    show "claims t \<subseteq># claims s + (if settled ?x then {#of_nat i#} else {#}) + image_mset of_nat ?d"
      by (simp add: settled caller_try(1) claims_def caller_attempt_def caller_request_def start_role_eq Let_def)
    show "task_ok cf t i"
      using refused caller_try(3,6) len agent_index [of k "rc_agents cf"]
      by (auto simp: caller_try(1) caller_attempt_def task_ok_def after_attempt_def refused_by_def less_Suc_eq Let_def)
  qed (use ok in \<open>simp_all add: caller_try(1) caller_attempt_def coord_ok_def Let_def\<close>, auto)
next
  case (caller_fail i)
  have len: "length (co_callers s) = rc_pairs cf" using ok by (simp add: coord_ok_def)
  have "task_ok cf s i" using ok caller_fail by (simp add: coord_ok_def)
  then have refused: "refused_by cf i (rc_agents cf) s" by (simp add: task_ok_def caller_fail)
  show ?thesis
  proof (rule coord_ok_caller [OF ok pairs caller_fail(3,5), where x = GivenUp and d = "{#}"])
    show "claims t \<subseteq># claims s + (if settled GivenUp then {#of_nat i#} else {#}) + image_mset of_nat {#}"
      by (simp add: caller_fail(1) claims_def caller_fails_def unreachable_result_def)
    show "task_ok cf t i" using refused caller_fail(3) len
      by (simp add: caller_fail(1) caller_fails_def task_ok_def refused_by_def)
  qed (use ok in \<open>auto simp: caller_fail(1) caller_fails_def coord_ok_def\<close>)
next
  case (role_end j agentSig runCaller)
  from role_ends_claims [OF role_end(2)] ok show ?thesis
    by (intro coord_ok_same [OF ok]) (simp_all add: role_end(1), simp_all add: role_ends_def coord_ok_def)
next
  case (arrive j)
  from result_arrives_claims [OF arrive(3), of cf] ok show ?thesis
    by (intro coord_ok_same [OF ok]) (simp_all add: arrive(1), auto simp: result_arrives_def coord_ok_def)
next
  case (lose j)
  from result_lost_claims [OF lose(2)] ok show ?thesis
    by (intro coord_ok_same [OF ok]) (simp_all add: lose(1), simp_all add: result_lost_def coord_ok_def)
next
  case all_received
  have "claims t = claims s" by (simp add: all_received claims_def coord_finish_def)
  then show ?thesis using ok done_complete [OF pairs ok all_received(3)] all_received(3)
    by (intro coord_ok_same [OF ok]) (auto simp: all_received coord_finish_def coord_ok_def)
next
  case timed_out
  then show ?thesis using ok
    by (intro coord_ok_same [OF ok]) (simp_all add: coord_finish_def claims_def coord_ok_def)
qed (use ok in \<open>simp_all add: coord_ok_def claims_def settled_pairs_def lost_pairs_def task_ok_def refused_by_def cong: task.case_cong\<close>)

lemma coord_start_ok: "coord_ok cf (coord_start cf)"
  by (simp add: coord_ok_def coord_start_def claims_def task_ok_def refused_by_def)

interpretation coord: state_machine "coord_start cf" "coord_step cf" "\<lambda>s. rc_pairs cf \<le> 2 ^ 64 \<longrightarrow> coord_ok cf s"
  by unfold_locales (auto intro: coord_start_ok coord_step_ok)

text \<open>How often a pair has a result.\<close>

lemma claims_counted:
  assumes "claims s \<subseteq># mset_set (settled_pairs cf s) + lost_pairs s"
  shows "count (mset (map pt_pair (co_results (co_collector s)))) a \<le> (if a \<in> settled_pairs cf s then 1 else 0) + count (lost_pairs s) a"
proof -
  let ?R = "mset (map pt_pair (co_results (co_collector s)))"
  have "?R \<subseteq># claims s" by (simp add: claims_def)
  then have "?R \<subseteq># mset_set (settled_pairs cf s) + lost_pairs s" using assms by (rule subset_mset.order_trans)
  from mset_subset_eq_count [OF this, of a] show ?thesis by (cases "a \<in> settled_pairs cf s") simp_all
qed

lemma count_lost:
  assumes "rc_pairs cf \<le> 2 ^ 64" and "\<forall>j \<in># co_lost s. j < rc_pairs cf" and "i < rc_pairs cf"
  shows "count (lost_pairs s) (of_nat i) = count (co_lost s) i"
proof -
  have "count (image_mset of_nat N :: 64 word multiset) (of_nat i) = count N i" if "\<forall>j \<in># N. j < rc_pairs cf" for N
    using that
  proof (induction N)
    case (add j N)
    then have "(of_nat j :: 64 word) = of_nat i \<longleftrightarrow> j = i"
      using inj_onD [OF pair_words [OF assms(1)], of j i] assms(3) by auto
    with add show ?case by simp
  qed simp
  with assms(2) show ?thesis by (simp add: lost_pairs_def)
qed

lemma counted_distinct:
  assumes "claims s \<subseteq># mset_set (settled_pairs cf s) + lost_pairs s" and "co_lost s = {#}"
  shows "distinct (map pt_pair (co_results (co_collector s)))"
proof -
  let ?R = "mset (map pt_pair (co_results (co_collector s)))"
  have le: "count ?R a \<le> 1" for a
    using claims_counted [OF assms(1), of a] assms(2) by (simp add: lost_pairs_def split: if_splits)
  have "count ?R a = (if a \<in># ?R then 1 else 0)" for a
  proof (cases "a \<in># ?R")
    case True
    then have "0 < count ?R a" by (rule count_greater_zero_iff [THEN iffD2])
    with le [of a] have "count ?R a = 1" by linarith
    with True show ?thesis by simp
  next
    case False
    then show ?thesis using not_in_iff [of a ?R] by metis
  qed
  then show ?thesis by (simp add: distinct_count_atmost_1)
qed

lemma results_known:
  assumes "claims s \<subseteq># mset_set (settled_pairs cf s) + lost_pairs s" and "\<forall>j \<in># co_lost s. j < rc_pairs cf"
  shows "pt_pair ` set (co_results (co_collector s)) \<subseteq> of_nat ` {0..<rc_pairs cf}"
proof -
  have "mset (map pt_pair (co_results (co_collector s))) \<subseteq># claims s" by (simp add: claims_def)
  then have "mset (map pt_pair (co_results (co_collector s))) \<subseteq># mset_set (settled_pairs cf s) + lost_pairs s"
    using assms(1) by (rule subset_mset.order_trans)
  from set_mset_mono [OF this] have "pt_pair ` set (co_results (co_collector s)) \<subseteq> settled_pairs cf s \<union> of_nat ` set_mset (co_lost s)"
    by (simp add: lost_pairs_def)
  also have "\<dots> \<subseteq> of_nat ` {0..<rc_pairs cf}" using assms(2) by (auto simp: settled_pairs_def)
  finally show ?thesis .
qed

lemma refused_by_all:
  assumes "refused_by cf i (rc_agents cf) s"
  shows "\<forall>a < rc_agents cf. (i, a) \<in> co_refused s"
proof (intro allI impI)
  fix a assume a: "a < rc_agents cf"
  then have "a \<in> (\<lambda>j. (caller_agent (rc_agents cf) i + j) mod rc_agents cf) ` {0..<rc_agents cf}"
    using agents_in_turn [of "rc_agents cf" "caller_agent (rc_agents cf) i"] by simp
  with assms show "(i, a) \<in> co_refused s" by (auto simp: refused_by_def)
qed

section \<open>Lost answers\<close>

text \<open>A run of two pairs on two agents. The answer to the caller of the first pair is lost, so a second
  agent gets it too; their two results end the wait, and the second pair has none.\<close>

definition two_pairs :: run_config where
  "two_pairs = \<lparr>rc_agents = 2, rc_pairs = 2, rc_signaling = ''central'', rc_callee = (\<lambda>i. []), rc_caller = (\<lambda>i. []),
     rc_callback = ''/result''\<rparr>"

definition lost_answer_run :: "(coordinator \<Rightarrow> coordinator) list" where
  "lost_answer_run =
     [callee_attempt two_pairs 0 0 True (Inr 202), callee_attempt two_pairs 1 0 True (Inr 202), (\<lambda>s. s\<lparr>co_phase := Callers\<rparr>),
      caller_attempt two_pairs 0 0 True (Inl syntax_error), caller_attempt two_pairs 0 1 True (Inr 202), caller_attempt two_pairs 1 0 True (Inr 202),
      (\<lambda>s. s\<lparr>co_phase := Waiting\<rparr>), role_ends 2 [] (\<lambda>r. (1, None)), role_ends 2 [] (\<lambda>r. (1, None)),
      result_arrives two_pairs 0, result_arrives two_pairs 0, coord_finish two_pairs True]"

primrec all_steps :: "run_config \<Rightarrow> (coordinator \<Rightarrow> coordinator) list \<Rightarrow> coordinator \<Rightarrow> bool" where
  "all_steps cf [] s \<longleftrightarrow> True"
| "all_steps cf (f # ops) s \<longleftrightarrow> coord_step cf s (f s) \<and> all_steps cf ops (f s)"

lemma all_steps_reach: "all_steps cf ops s \<Longrightarrow> (coord_step cf)\<^sup>*\<^sup>* s (fold (\<lambda>f s. f s) ops s)"
  by (induction ops arbitrary: s) (auto intro: converse_rtranclp_into_rtranclp)

lemmas run_simps = coord_start_def callee_attempt_def caller_attempt_def role_ends_def result_arrives_def coord_finish_def
  start_role_eq callee_request_def caller_request_def after_attempt_def executePairRole_def callee_agent_def caller_agent_def
  caller_turn_def caller_stagger_def over_dht_def recordResult_def start_delay_def remove_nth_def

lemma replicate_numeral: "replicate (numeral n) x = x # replicate (pred_numeral n) x"
  by (simp add: numeral_eq_Suc)

lemma lost_answer_steps: "all_steps two_pairs lost_answer_run (coord_start two_pairs)"
  unfolding lost_answer_run_def all_steps.simps
  by (intro conjI TrueI coord_step.intros)
    (simp_all add: two_pairs_def run_simps Let_def replicate_numeral)

lemma lost_answer_output:
  "map_option (\<lambda>(by_done, out). (by_done, map pt_pair (ou_results out)))
     (co_output (fold (\<lambda>f s. f s) lost_answer_run (coord_start two_pairs))) = Some (True, [0, 0])"
  by (simp add: lost_answer_run_def two_pairs_def run_simps Let_def)

text \<open>A run of one pair on one agent, on which all goes well.\<close>

definition one_pair :: run_config where
  "one_pair = two_pairs\<lparr>rc_agents := 1, rc_pairs := 1\<rparr>"

definition good_run :: "(coordinator \<Rightarrow> coordinator) list" where
  "good_run =
     [callee_attempt one_pair 0 0 True (Inr 202), (\<lambda>s. s\<lparr>co_phase := Callers\<rparr>), caller_attempt one_pair 0 0 True (Inr 202),
      (\<lambda>s. s\<lparr>co_phase := Waiting\<rparr>), role_ends 1 [] (\<lambda>r. (1, None)), result_arrives one_pair 0,
      coord_finish one_pair True]"

lemma good_run_steps: "all_steps one_pair good_run (coord_start one_pair)"
  unfolding good_run_def all_steps.simps
  by (intro conjI TrueI coord_step.intros)
    (simp_all add: one_pair_def two_pairs_def run_simps Let_def)

lemma good_run_kept: "co_lost (fold (\<lambda>f s. f s) good_run (coord_start one_pair)) = {#}"
  by (simp add: good_run_def one_pair_def two_pairs_def run_simps Let_def)

end
