(* ===== verification/Bench_Guarantees.thy ===== *)
theory Bench_Guarantees
  imports Bench_Raw Bench_Local_Main Bench_Dht_Run Bench_Coordinator
begin

text \<open>What makes the measurements of the benchmarks meaningful.\<close>

section \<open>The transport benchmark\<close>

text \<open>An iteration of the transport benchmark measures a whole transfer: the server answers the
  request for a size with the frames of its blob of that size, and the client's receiver hands
  exactly that blob to the iteration that waits, however many there were before; the median it
  reports is one of the durations, with at least half of them on either side.\<close>

theorem bench_measures_transfer:
  assumes "blobs sz = Some blob" and "blob \<noteq> []" and "length blob \<le> max_alloc" and "max_alloc < 2 ^ 64"
    and "ds \<noteq> []"
  shows "bench_iteration max_alloc (serve_size blobs True (bench_request sz) []) rx =
       Some (rx\<lparr>br_buf := None, br_notif := None, br_done := br_done rx @ [Some blob]\<rparr>)
     \<and> medianDur ds \<in> set ds
     \<and> length ds \<le> 2 * length (filter (\<lambda>d. d \<le> medianDur ds) ds)
     \<and> length ds \<le> 2 * length (filter (\<lambda>d. medianDur ds \<le> d) ds)"
  using bench_transfer [OF assms(2-4)] bench_served [where blobs = blobs, OF assms(1)]
    medianDur_middle [OF assms(5)] by simp

lemma bench_measures_transfer_witness:
  "bench_iteration 10 (serve_size [1 \<mapsto> [7]] True (bench_request 1) [])
     \<lparr>br_buf = None, br_notif = None, br_done = []\<rparr>
   = Some \<lparr>br_buf = None, br_notif = None, br_done = [Some [7]]\<rparr>"
  using bench_measures_transfer [where blobs = "[1 \<mapsto> [7]]" and sz = 1 and blob = "[7]" and max_alloc = 10
      and ds = "[3]" and rx = "\<lparr>br_buf = None, br_notif = None, br_done = []\<rparr>"] by simp

text \<open>A run of the client whose requests are all answered reports every size, with a result for each
  iteration.\<close>

theorem transport_run_complete:
  assumes "2 ^ 22 \<le> max_alloc" and "max_alloc < 2 ^ 64" and "\<And>sz. sz \<in> set blobSizes \<Longrightarrow> all_answered rnd sz (its sz)"
  shows "runClient_loop max_alloc its = Some (map (\<lambda>sz. report_size sz (map it_elapsed (its sz))) blobSizes,
       results_to_json transport_result_to_json (concat (map (\<lambda>sz. complete_results sz (its sz)) blobSizes)))"
  using sizes_complete [OF order_refl assms(1,2), of rnd its "[]" "\<lparr>br_buf = None, br_notif = None, br_done = []\<rparr>"] assms(3)
  by (auto simp: runClient_loop_def)

text \<open>Whatever arrives and fails, a result is of a blob of the measured size, and a size has one for an
  iteration at most, which are the durations of its report.\<close>

theorem transport_results_sound:
  assumes "runClient_loop max_alloc its = Some (reports, out)"
  obtains news where "out = results_to_json transport_result_to_json (concat news)"
    and "reports = map2 (\<lambda>sz new. report_size sz (map tp_duration new)) blobSizes news"
    and "list_all2 (\<lambda>sz new. results_of sz 0 (length (its sz)) new) blobSizes news"
proof -
  from assms obtain results rx where "client_sizes max_alloc its blobSizes ([], \<lparr>br_buf = None, br_notif = None, br_done = []\<rparr>)
      = Some (reports, results, rx)" and "out = results_to_json transport_result_to_json results"
    by (auto simp: runClient_loop_def)
  with sizes_results [of max_alloc its blobSizes "[]"] that show thesis by fastforce
qed

section \<open>The local test\<close>

lemma size_ref_eq [simp]: "size_ref n = size_ref m \<longleftrightarrow> n = m"
proof
  assume "size_ref n = size_ref m"
  then have "int_text (int n) = int_text (int m)" by (simp add: size_ref_def int_text_def)
  moreover have "parse_int (int_text i) = Some (i, [])" for i
    using parse_int_text [of "[]" i] by (simp add: starts_digit_def)
  ultimately have "int n = int m" by (metis option.inject prod.inject)
  then show "n = m" by simp
qed simp

lemma local_blobs_get: "n \<in> set sizes \<Longrightarrow> local_blobs rnd sizes (size_ref n) = Some (copy_into n (rnd n))"
  unfolding local_blobs_def by (induction sizes rule: rev_induct) auto

text \<open>A fetch of the local test gives the blob of its size, so its duration counts.\<close>

lemma local_fetch_counts:
  assumes "n \<in> set sizes" and "0 < n" and "length rid = 32"
    and resp: "rtc_respond (Some blob_server) server True [] (fetch_request client rid (size_ref n))
        (local_blobs rnd sizes) = ((ctl, frames), s')"
    and "filter (\<lambda>f. frame_id f = rid) (List.map_filter blob_of as) = frames"
    and "\<And>a. a \<in> set as \<Longrightarrow> \<not> control_for rid a"
  shows "fetch_durations n [(fst (FetchBlob_rtc rid None as prefer p), elapsed)] = [elapsed]"
proof -
  have blob: "h_fetch_blob blob_server (Some client) (size_ref n) (local_blobs rnd sizes) = Inr (copy_into n (rnd n))"
    by (simp add: blob_server_def local_blobs_get [OF assms(1)])
  have n: "length (copy_into n (rnd n)) = n" by simp
  with assms(2) have ne: "copy_into n (rnd n) \<noteq> []" by (metis length_0_conv less_irrefl)
  have "fst (FetchBlob_rtc rid None as prefer p) = Inr (copy_into n (rnd n))"
    using fetched_blob [OF blob ne assms(3) resp assms(5) assms(6)] by blast
  then show ?thesis by (simp add: n)
qed

text \<open>The two medians agree, the one of the local test, over an insertion sort written out, and
  the one of the transport benchmark, over \<open>sort.Slice\<close>; the range the local test prints is that of
  its durations, with the median in it.\<close>

theorem bench_statistics:
  "median ds = medianDur ds
   \<and> (ds = [] \<or> fetch_range ds = (Min (set ds), Max (set ds)) \<and> median ds \<in> {fst (fetch_range ds)..snd (fetch_range ds)})"
  using median_medianDur medianDur_middle(1) [of ds] fetch_range_spec [of ds] by auto

section \<open>The raw benchmark\<close>

text \<open>Without failures every size is reported with its number of iterations, and no connection stays
  open; a negotiation that fails for every size leaves two open for each.\<close>

theorem raw_benchmark:
  "(\<And>sz. sz \<in> set sizes \<Longrightarrow> 0 < sz \<and> fst (setupPair (lib sz)) = None \<and> (\<forall>i. fst (run sz i) = raw_sends sz 0)) \<Longrightarrow>
     raw_main lib run sizes = (map (\<lambda>sz. raw_result_of sz (map (\<lambda>i. snd (run sz i)) [0..<raw_iters sz])) sizes, 0)"
  "(\<And>sz. sz \<in> set sizes \<Longrightarrow> new_pc (offering (lib sz)) = None \<and> new_pc (answering (lib sz)) = None
       \<and> negotiate_pair (lib sz) \<noteq> None) \<Longrightarrow>
     raw_main lib run sizes = ([], 2 * length sizes)"
  by (rule raw_main_complete, blast) (rule raw_main_leaks, blast)

section \<open>The DHT benchmark\<close>

text \<open>The coordinator returns for every schedule once one registration can be read, with one result for
  each run of the nodes that it read; without any it gives up.\<close>

theorem coordinator_measures:
  assumes "start_member dial rnd parseIP udp rtc name localAddr dhtPort sigPort w = Some (info, s)"
    and "runnable sha (fst s)" and "bootstrapAddr = [] \<or> (\<exists>hp. splitHostPort bootstrapAddr = Inr hp)"
    and nodes: "nodes = List.map_filter info_of_body bodies"
  shows "\<exists>r. runCoordinator dial rnd parseIP udp rtc splitHostPort scan rnd' env n bodies val runs
       name localAddr dhtPort sigPort bootstrapAddr w = Done r
     \<and> (r = None \<longleftrightarrow> nodes = [])
     \<and> (\<forall>results st s'. r = Some (results, st, s') \<longrightarrow> dr_nodes st = nodes \<and> dr_done st
         \<and> map bd_iteration results = [0..<length runs] \<and> (\<forall>x \<in> set results. bd_node_count x = length nodes))"
proof -
  let ?st = "fold (\<lambda>body st. snd (register_node n (info_of_body body) st)) bodies \<lparr>dr_nodes = [], dr_all = False, dr_done = False\<rparr>"
  have st: "dr_nodes ?st = nodes" by (simp add: registered_nodes nodes)
  obtain s1 where 1: "bootstrapNode splitHostPort scan rnd' parseIP env bootstrapAddr s = Done (Some s1)" "runnable sha (fst s1)"
    using bootstrapNode_runs [OF assms(2), of bootstrapAddr splitHostPort scan rnd' parseIP env] assms(3) by blast
  define s2 where "s2 = (if name = ''udp'' then s1 else s)"
  have run: "runCoordinator dial rnd parseIP udp rtc splitHostPort scan rnd' env n bodies val runs
       name localAddr dhtPort sigPort bootstrapAddr w = measure_stores name val runs ?st s2"
    using assms(1) 1(1) by (simp add: runCoordinator_def s2_def)
  have s2: "runnable sha (fst s2)" using 1(2) assms(2) by (simp add: s2_def)
  show ?thesis
  proof (cases "nodes = []")
    case True
    then show ?thesis using run not_measured [of ?st] st by simp
  next
    case False
    then have ne: "dr_nodes ?st \<noteq> []" using st by simp
    obtain results s' where
      "measure_stores name val runs ?st s2 = Done (Some (results, ?st\<lparr>dr_done := True\<rparr>, s'))" "runnable sha (fst s')"
      "map bd_iteration results = [0..<length runs]"
      "\<forall>r \<in> set results. bd_node_count r = length (dr_nodes ?st) \<and> bd_payload r = length val"
      using measure_stores_run [OF s2 ne, of name val runs] .
    with False run st show ?thesis by simp
  qed
qed

text \<open>No node leaves while the coordinator still measures, and every round comes to an end; but a node
  can be left asking a coordinator that has exited, for ever.\<close>

theorem nodes_stay_up:
  "(round_step n)\<^sup>*\<^sup>* (new_round infos) s \<Longrightarrow> br_phase s \<in> {Collects, Measures} \<Longrightarrow> Left \<notin> set (br_nodes s)"
  "\<exists>t. (round_step n)\<^sup>*\<^sup>* (new_round infos) t \<and> (\<nexists>u. round_step n t u)"
  by (rule nodes_stay) (use round.stops [OF round.ok_start] in blast)+

theorem node_left_polling:
  assumes "infos \<noteq> []"
  shows "\<exists>s. (round_step n)\<^sup>*\<^sup>* (new_round infos) s \<and> dr_done (br_registry s)
     \<and> (\<forall>t. (round_step n)\<^sup>*\<^sup>* s t \<longrightarrow> br_nodes t ! 0 = Polling)"
proof -
  obtain info rest where infos: "infos = info # rest" using assms by (cases infos) simp_all
  let ?a = "node_posts n 0 info (new_round infos)"
  let ?b = "close_done (proceed ?a)"
  let ?c = "?b\<lparr>br_phase := Exited\<rparr>"
  have "round_step n (new_round infos) ?a" by (rule round_step.post) (simp_all add: new_round_def infos)
  moreover have "round_step n ?a (proceed ?a)" by (rule round_step.wait_ends) (simp add: new_round_def node_posts_def)
  moreover have "round_step n (proceed ?a) ?b"
    by (rule round_step.measured) (simp add: new_round_def node_posts_def proceed_def register_node_def Let_def)
  moreover have "round_step n ?b ?c" by (rule round_step.exits) (simp add: close_done_def)
  ultimately have "(round_step n)\<^sup>*\<^sup>* (new_round infos) ?c" by (meson converse_rtranclp_into_rtranclp rtranclp.rtrancl_refl)
  moreover have "dr_done (br_registry ?c)" by (simp add: close_done_def)
  moreover have "br_nodes ?c ! 0 = Polling" "0 < length (br_nodes ?c)"
    by (simp_all add: close_done_def proceed_def node_posts_def new_round_def infos)
  ultimately show ?thesis using polls_for_ever [of n ?c] by auto
qed

section \<open>The signaling benchmark\<close>

text \<open>With two agents or more, the caller and the callee of a pair start at different agents; a role
  is handed to an agent that accepts it whenever one of them does, and is given up only when all
  of them refuse.\<close>

theorem bench_roles_dispatched:
  assumes "2 \<le> n" and "\<And>idx w. post idx w = ((if idx \<in> up then None else Some err), w)"
  shows "callee_agent n i \<noteq> caller_agent n i
     \<and> (dispatch_role post n start w = (None, w) \<longleftrightarrow> up \<inter> {0..<n} = {})
     \<and> (\<forall>a. dispatch_role post n start w = (Some a, w) \<longrightarrow> a \<in> up \<and> a < n)"
  using roles_apart [OF assms(1)] dispatch_finds [OF assms(2), of n] assms(1) by auto

lemma bench_roles_dispatched_witness: "callee_agent 3 1 \<noteq> caller_agent 3 1"
  using bench_roles_dispatched [of 3 "\<lambda>idx w. (if idx \<in> {} then None else Some ErrNotFound, w)" "{}" ErrNotFound
      1 0 "0 :: nat"] by simp

text \<open>The list of agents comes back from its comma-separated text.\<close>

theorem agents_parsed:
  assumes "xs \<noteq> []" and "xs \<noteq> [[]]" and "\<forall>x \<in> set xs. CHR '','' \<notin> set x"
  shows "parseCSV (separated_by '','' xs) = xs"
proof -
  have "separated_by '','' xs \<noteq> []" using assms(1,2) by (cases xs rule: remdups_adj.cases) auto
  then show ?thesis using parse_csv_fields [OF assms(1,3), of "[]"] by (simp add: parseCSV_def)
qed

text \<open>The two agents of a pair return for every schedule, as \<open>DHTSignaler\<close> does.\<close>

lemma callee_loop_runs:
  "runnable sha (fst s) \<Longrightarrow> \<exists>r s'. callee_loop sha1 env callee ticks s = Done (r, s') \<and> runnable sha (fst s')"
proof (induction ticks arbitrary: s)
  case (Suc ticks)
  obtain r log s1 where 1: "FindValue env (s2DoorbellKey sha1 callee) s = Done (r, log, s1)"
    "runnable sha (fst s1)" using FindValue_runs [OF Suc.prems] .
  show ?case
  proof (cases "long_value 20 r")
    case None
    with 1 Suc.IH show ?thesis by simp
  next
    case (Some bell)
    let ?caller = "key_of_slice bell"
    obtain r' log' s2 where 2: "FindValue env (s2OfferKey sha1 ?caller callee) s1 = Done (r', log', s2)"
      "runnable sha (fst s2)" using FindValue_runs [OF 1(2)] .
    show ?thesis
    proof (cases "long_value 1 r'")
      case None
      with 1 2 Some Suc.IH show ?thesis by (simp add: Let_def)
    next
      case (Some offer)
      obtain e3 l3 s3 where 3: "StoreValue env (s2AnswerKey sha1 ?caller callee)
          (inline_value (Some (bytes_of_string ''answer-to-'' @ offer))) s2 = Done (e3, l3, s3)"
        "runnable sha (fst s3)" using StoreValue_runs [OF 2(2)] .
      obtain e4 l4 s4 where "StoreValue env (s2DoorbellKey sha1 callee) (inline_value None) s3 = Done (e4, l4, s4)"
        "runnable sha (fst s4)" using StoreValue_runs [OF 3(2)] .
      with 1 2 3 Some \<open>long_value 20 r = Some bell\<close> show ?thesis by (simp add: Let_def)
    qed
  qed
qed simp

lemma caller_wait_runs:
  "runnable sha (fst s) \<Longrightarrow> \<exists>r s'. caller_wait env key ticks s = Done (r, s') \<and> runnable sha (fst s')"
proof (induction ticks arbitrary: s)
  case (Suc ticks)
  obtain r log s1 where "FindValue env key s = Done (r, log, s1)" "runnable sha (fst s1)"
    using FindValue_runs [OF Suc.prems] .
  with Suc.IH show ?case by (cases "long_value 1 r") simp_all
qed simp

lemma runCallerSignaling_runs:
  assumes "runnable sha (fst s)"
  shows "\<exists>r s'. runCallerSignaling_dht sha1 env caller callee pairID ticks s = Done (r, s') \<and> runnable sha (fst s')"
proof -
  obtain e1 l1 s1 where 1: "StoreValue env (s2OfferKey sha1 caller callee)
      (inline_value (Some (bytes_of_string (''offer-'' @ nat_digits pairID)))) s = Done (e1, l1, s1)"
    "runnable sha (fst s1)" using StoreValue_runs [OF assms] .
  obtain e2 l2 s2 where 2: "StoreValue env (s2DoorbellKey sha1 callee) (inline_value (Some (key_bytes caller))) s1
      = Done (e2, l2, s2)" "runnable sha (fst s2)" using StoreValue_runs [OF 1(2)] .
  from caller_wait_runs [OF 2(2)] 1 2 show ?thesis
    by (cases e1; cases e2) (simp_all add: runCallerSignaling_dht_def)
qed

section \<open>The coordinator of the signaling benchmark\<close>

text \<open>C39: the results of the signaling benchmark, whatever order the goroutines, agents and results
  come in, and whatever becomes of the posts: each result is of one of the pairs; a pair has
  at most one result more than it has lost answers, that is agents which took its caller although the
  coordinator saw a refusal, and none before its caller is settled unless an answer was lost; a
  wait that \<open>done\<close> ends leaves at least as many results as pairs; and a pair is recorded as unreachable
  only after every agent refused it. If no answer was lost, no pair has two results, and a
  wait that \<open>done\<close> ends leaves exactly one for each pair.\<close>

theorem coordinator_results:
  assumes "(coord_step cf)\<^sup>*\<^sup>* (coord_start cf) s" and "rc_pairs cf \<le> 2 ^ 64"
  shows "pt_pair ` set (co_results (co_collector s)) \<subseteq> of_nat ` {0..<rc_pairs cf}
     \<and> (\<forall>i < rc_pairs cf. count (mset (map pt_pair (co_results (co_collector s)))) (of_nat i)
          \<le> (if settled (co_callers s ! i) then 1 else 0) + count (co_lost s) i)
     \<and> (\<forall>out. co_output s = Some (True, out) \<longrightarrow> rc_pairs cf \<le> length (ou_results out))
     \<and> (\<forall>i < rc_pairs cf. co_callers s ! i = GivenUp \<longrightarrow>
          (\<forall>a < rc_agents cf. (i, a) \<in> co_refused s) \<and> unreachable_result cf i \<in> set (co_results (co_collector s)))
     \<and> (co_lost s = {#} \<longrightarrow> distinct (map pt_pair (co_results (co_collector s)))
          \<and> (\<forall>out. co_output s = Some (True, out) \<longrightarrow>
               mset (map pt_pair (ou_results out)) = mset (map of_nat [0..<rc_pairs cf])))"
proof -
  have ok: "coord_ok cf s" using coord.reachable_ok [OF assms(1)] assms(2) by blast
  then have sub: "claims s \<subseteq># mset_set (settled_pairs cf s) + lost_pairs s" and lost: "\<forall>j \<in># co_lost s. j < rc_pairs cf"
    by (simp_all add: coord_ok_def)
  note counts = claims_counted [OF sub]
  have "pt_pair ` set (co_results (co_collector s)) \<subseteq> of_nat ` {0..<rc_pairs cf}" by (rule results_known [OF sub lost])
  moreover have "count (mset (map pt_pair (co_results (co_collector s)))) (of_nat i)
      \<le> (if settled (co_callers s ! i) then 1 else 0) + count (co_lost s) i" if "i < rc_pairs cf" for i
    using counts [of "of_nat i"] count_lost [OF assms(2) lost that] unsettled_free [OF assms(2) that, of s]
    by (auto split: if_splits)
  moreover have "(\<forall>a < rc_agents cf. (i, a) \<in> co_refused s) \<and> unreachable_result cf i \<in> set (co_results (co_collector s))"
    if "i < rc_pairs cf" "co_callers s ! i = GivenUp" for i
    using ok that refused_by_all [of cf i s] by (auto simp: coord_ok_def task_ok_def)
  moreover have "distinct (map pt_pair (co_results (co_collector s)))" if "co_lost s = {#}"
    by (rule counted_distinct [OF sub that])
  moreover have "rc_pairs cf \<le> length (ou_results out) \<and> (co_lost s = {#} \<longrightarrow> one_each cf (ou_results out))"
    if "co_output s = Some (True, out)" for out using ok that by (simp add: coord_ok_def)
  ultimately show ?thesis unfolding one_each_def by blast
qed

lemma coordinator_results_witness:
  "map_option (\<lambda>(by_done, out). (by_done, mset (map pt_pair (ou_results out))))
     (co_output (fold (\<lambda>f s. f s) good_run (coord_start one_pair))) = Some (True, {#0#})"
proof -
  let ?s = "fold (\<lambda>f s. f s) good_run (coord_start one_pair)"
  have pairs: "rc_pairs one_pair = 1" by (simp add: one_pair_def)
  obtain out where out: "co_output ?s = Some (True, out)" by (simp add: good_run_def coord_finish_def)
  have "mset (map pt_pair (ou_results out)) = mset (map of_nat [0..<rc_pairs one_pair])"
    using coordinator_results [OF all_steps_reach [OF good_run_steps]] out pairs good_run_kept by simp
  with out pairs show ?thesis by simp
qed

text \<open>With a lost answer a wait can end with two results of one pair and none of another.\<close>

theorem lost_answer_duplicates:
  "\<exists>s out. (coord_step two_pairs)\<^sup>*\<^sup>* (coord_start two_pairs) s \<and> co_output s = Some (True, out)
     \<and> map pt_pair (ou_results out) = [0, 0]"
  using all_steps_reach [OF lost_answer_steps] lost_answer_output by auto

text \<open>An agent whose \<open>/info\<close> has no id makes the coordinator slice an empty string; so does every agent
  if the compiler reads \<open>info\<close> before the call that decodes it.\<close>

theorem short_id_panics:
  "coordinator_setup call_first (\<lambda>url. Inr (print_json (JObj []))) ''agent'' = SetupPanic
   \<and> coordinator_setup False (\<lambda>url. Inr (info_body k)) ''agent'' = SetupPanic
   \<and> coordinator_setup True (\<lambda>url. Inr (info_body k)) ''agent'' = Ready [''agent'']"
  by (simp add: coordinator_setup_def parseCSV_def getAgentInfo_body id_hex_def Let_def del: print_json.simps)
    (simp add: getAgentInfo_def decode_body_def info_of_json_def field_def get_string_def del: print_json.simps)

text \<open>Over the central signaler the callee's answer to the offer of its pair ends the caller's wait.\<close>

theorem central_pair_answered:
  assumes "bench_nodeIDFromHex (pr_callee req) = callee" and "bench_nodeIDFromHex (pr_caller req) = caller"
  shows "fst (runCaller_central None None None
     [m \<leftarrow> fst (runCallee_central None None [offer_msg caller callee (bench_offer req)] req). sm_type m = ''answer''] None req) = None"
  using central_pair(2) [OF refl assms] .

end
