(* ===== verification/Udp_Demo.thy ===== *)
theory Udp_Demo
  imports Udp_Guarantees Demo_Network
begin

text \<open>
  \<open>cmd/demo/main.go\<close>: two nodes over UDP. One joins through the other, a value is stored at one
  and found at the other. While a node runs an operation the other one serves its requests;
  the network delivers every datagram.
\<close>

section \<open>Taking turns\<close>

text \<open>
  The world of the node that calls: the other node, its own surroundings \<open>'e\<close>, and the response
  on its way back. A node at rest has the transport \<open>far\<close> to those surroundings; its handlers
  use it only to ping the oldest contact of a full bucket.
\<close>

type_synonym 'e udp_world = "('e node \<times> 'e) \<times> message option"

definition with_transport :: "'v transport \<Rightarrow> 'w node \<Rightarrow> 'v node" where
  "with_transport tr n =
     \<lparr>node_self = node_self n, node_storage = node_storage n, node_transport = Some tr,
      node_rt = \<lparr>nodeId = nodeId (node_rt n), buckets = buckets (node_rt n),
        ping = Some (ping_peer (Some tr))\<rparr>\<rparr>"

text \<open>The scheduler and the clock of the surroundings; \<open>context.Background()\<close> never ends.\<close>

definition background :: "'e env \<Rightarrow> 'e udp_world env" where
  "background env =
     \<lparr>ctx_err = (\<lambda>w. None),
      sched = (\<lambda>((n, e), inbox). let (i, e) = sched env e in (i, (n, e), inbox)),
      sort_ties = (\<lambda>((n, e), inbox). sort_ties env e)\<rparr>"

definition at_node ::
  "bytes \<Rightarrow> 'e transport \<Rightarrow>
     ('e udp_world node \<times> 'e udp_world \<Rightarrow> ('r \<times> 'e udp_world node \<times> 'e udp_world) outcome) \<Rightarrow>
     'e node \<Rightarrow> 'e node \<Rightarrow> 'e \<Rightarrow> ('r \<times> 'e node \<times> 'e node \<times> 'e) outcome"
where
  "at_node rnd far operation client server e =
     (let tr = udp_node (node_self client) (node_self server) rnd (\<lambda>n ref w. (Inl ErrNotFound, w)) in
      and_then (operation (with_transport tr client, (server, e), None))
        (\<lambda>(r, client, (server, e), inbox). Done (r, with_transport far client, server, e)))"

section \<open>The program\<close>

datatype demo_end = Fatal | Retrieved bytes | Not_found

text \<open>From the two nodes on; an error of \<open>Bootstrap\<close> is logged only.\<close>

definition store_and_find ::
  "bytes \<Rightarrow> 'e transport \<Rightarrow> 'e env \<Rightarrow> dht_key \<Rightarrow> value_meta \<Rightarrow> 'e node \<Rightarrow> 'e node \<Rightarrow> 'e \<Rightarrow> demo_end outcome"
where
  "store_and_find rnd far env key data node1 node2 e =
     and_then (at_node rnd far (Bootstrap (background env) [node_self node1]) node2 node1 e)
       (\<lambda>(err, node2, node1, e).
          and_then (at_node rnd far
              (\<lambda>s. and_then (StoreValue (background env) key data s) (\<lambda>(err, sent, s). Done (err, s)))
              node1 node2 e)
            (\<lambda>(err, node1, node2, e).
               if err \<noteq> None then Done Fatal
               else
                 and_then (at_node rnd far
                     (\<lambda>s. and_then (FindValue (background env) key s) (\<lambda>(r, log, s). Done (r, s)))
                     node2 node1 e)
                   (\<lambda>((val, err), node2, node1, e).
                      Done (if err \<noteq> None then Fatal
                            else case val of
                                   Some v \<Rightarrow> Retrieved (slice_bytes (Data v))
                                 | None \<Rightarrow> Not_found))))"

definition demo_main ::
  "(bytes \<Rightarrow> bytes) \<Rightarrow> (string \<Rightarrow> bytes option) \<Rightarrow> bytes \<Rightarrow> bytes \<Rightarrow> bytes \<Rightarrow> 'e transport \<Rightarrow> 'e env \<Rightarrow> 'e \<Rightarrow>
     demo_end outcome"
where
  "demo_main sha1 parseIP rnd1 rnd2 rnd far env e =
     (let net1 = NewNetworkNode rnd1 parseIP ''127.0.0.1'' 8000;
          node1 = NewNode net1 (Some far)
      in case Start (node1, e) of
           (Some err, s) \<Rightarrow> Done Fatal
         | (None, node1, e) \<Rightarrow>
             let net2 = NewNetworkNode rnd2 parseIP ''127.0.0.1'' 8001;
                 node2 = NewNode net2 (Some far)
             in (case Start (node2, e) of
                   (Some err, s) \<Rightarrow> Done Fatal
                 | (None, node2, e) \<Rightarrow>
                     store_and_find rnd far env (KeyFromString sha1 ''test_key'')
                       \<lparr>Inline = True, Data = Some (bytes_of_string ''Hello world''), BlobRef = [],
                        BlobNode = key_of_slice [], Size = 0, MimeType = []\<rparr>
                       node1 node2 e))"

section \<open>A node that knows one other\<close>

definition acquainted :: "network_node \<Rightarrow> 'w node \<Rightarrow> bool" where
  "acquainted n node \<longleftrightarrow>
     node_inv (\<lambda>b. b) node \<and> set (contacts (node_rt node)) \<subseteq> {n} \<and> nn_id n \<noteq> nn_id (node_self node)"

lemma Add_only:
  assumes wf: "wf_rt rt" and n: "nn_id n \<noteq> nodeId rt" and only: "set (contacts rt) \<subseteq> {n}"
  obtains rt' where "\<And>w. Add rt n w = (rt', w)" and "contacts rt' = [n]"
proof -
  let ?i = "dist_index (nodeId rt) (nn_id n)"
  let ?b = "buckets rt ! ?i"
  have i: "?i < length (buckets rt)" using wf dist_index_less by (simp add: wf_rt_def placed_rt_def)
  then have "set ?b \<subseteq> set (contacts rt)" unfolding contacts_iff subset_iff by blast
  then have "set ?b \<subseteq> {n}" using only by blast
  moreover have "distinct (ids ?b)" using wf_rt_bucket [OF wf dist_index_less] by blast
  ultimately have b: "?b = [] \<or> ?b = [n]" by (cases ?b; cases "tl ?b") auto
  have add: "Add rt n w = (set_bucket rt ?i [n], w)" for w
    using b by (elim disjE) (simp_all add: Add_eq_lru [OF wf n] must_ping_def lru_add_def K_def Let_def)
  have "n \<in> set (contacts (set_bucket rt ?i [n]))" using i by (auto simp: contacts_iff)
  moreover have "set (contacts (set_bucket rt ?i [n])) \<subseteq> {n}" using set_contacts_bucket [of rt ?i "[n]"] only by auto
  moreover have "distinct (ids (contacts (set_bucket rt ?i [n])))"
    using Add_wf [OF wf, of n] add by (intro wf_rt_distinct_contacts) (metis fst_conv)
  ultimately have "contacts (set_bucket rt ?i [n]) = [n]"
    by (cases "contacts (set_bucket rt ?i [n])"; cases "tl (contacts (set_bucket rt ?i [n]))") auto
  with add show thesis by (rule that)
qed

lemma acquainted_add:
  assumes "acquainted n node"
  obtains node' where "\<And>w. add_contact n (node, w) = (node', w)" and "acquainted n node'"
    and "contacts (node_rt node') = [n]" and "node_storage node' = node_storage node"
    and "node_self node' = node_self node" and "node_transport node' = node_transport node"
proof -
  have s: "wf_rt (node_rt node)" "nn_id n \<noteq> nodeId (node_rt node)" "set (contacts (node_rt node)) \<subseteq> {n}"
    using assms by (auto simp: acquainted_def node_inv_def)
  obtain rt' where rt: "\<And>w. Add (node_rt node) n w = (rt', w)" "contacts rt' = [n]" using Add_only [OF s] by blast
  show thesis
  proof
    show add: "add_contact n (node, w) = (node\<lparr>node_rt := rt'\<rparr>, w)" for w
      by (simp add: add_contact_def rt(1))
    show "acquainted n (node\<lparr>node_rt := rt'\<rparr>)"
      using assms rt(2) add_contact_inv [of "\<lambda>b. b" "(node, undefined)" n] by (simp add: acquainted_def add)
  qed (simp_all add: rt(2))
qed

lemma with_transport_simps [simp]:
  "node_self (with_transport tr n) = node_self n" "node_storage (with_transport tr n) = node_storage n"
  "node_transport (with_transport tr n) = Some tr" "contacts (node_rt (with_transport tr n)) = contacts (node_rt n)"
  "node_inv sha (with_transport tr n) = node_inv sha n"
  "acquainted p (with_transport tr n) = acquainted p n"
  by (simp_all add: with_transport_def contacts_def acquainted_def node_inv_def wf_rt_def placed_rt_def)

lemma FindClosest_single: "contacts rt = [n] \<Longrightarrow> FindClosest rt t K = [n]"
  by (simp add: FindClosest_def K_def sort_slice_def sort_key_def)

lemma background_simps [simp]:
  "ctx_err (background env) w = None"
  "sched (background env) ((n, e), inbox) = (fst (sched env e), (n, snd (sched env e)), inbox)"
  by (simp_all add: background_def split: prod.splits)

section \<open>A lookup between two nodes\<close>

lemma run_round_single:
  "run_round env fv t [n] [] rd =
     and_then (do_call fv t n (snd (draw env (launch_next n (snd (draw env rd))))))
       (\<lambda>(ans, rd). absorb ans (snd (draw env rd)))"
proof -
  have Done: "and_then (absorb ans rd) (run_round env fv t [] []) = absorb ans rd" for ans rd
    by (cases "absorb ans rd") (simp_all add: run_round.simps)
  have answered: "run_round env fv t [] [Answered ans] rd = absorb ans (snd (draw env rd))" for ans rd
    by (simp add: run_round.simps [of env fv t "[]" "[Answered ans]"] Done split: prod.splits)
  have "run_round env fv t [] [Calling n] rd =
      and_then (do_call fv t n (snd (draw env rd))) (\<lambda>(ans, rd). absorb ans (snd (draw env rd)))" for rd
    by (simp add: run_round.simps [of env fv t "[]" "[Calling n]"] answered case_prod_unfold Let_def)
  then show ?thesis by (simp add: run_round.simps [of env fv t "[n]"] split: prod.splits)
qed

lemma merge_single: "merge_closest ties t [n] [] = [n]"
proof -
  have "mset (sort_nodes ties t [n]) = {#n#}" by simp
  then have "sort_nodes ties t [n] = [n]" unfolding mset_single_iff .
  then show ?thesis by (simp add: merge_closest_eq K_def)
qed

lemma two_node_lookup:
  assumes client: "node_inv sha c" "contacts (node_rt c) = [node_self srv]"
    and tr: "node_transport c = Some (udp_node (node_self c) (node_self srv) rnd fetch)"
    and srv': "\<And>w. add_contact (node_self c) (srv, w) = (srv', w)" "contacts (node_rt srv') = [node_self c]"
  obtains log e' where "LookupNode (background env) t (c, (srv, e), None) =
     Done (([node_self srv], None), log, c, (srv', e'), None)"
proof -
  let ?env = "background env" and ?n = "node_self srv"
  let ?rd = "\<lparr>rd_state = (c, (srv, e), None), rd_visited = {}, rd_new = [], rd_found = None, rd_log = []\<rparr>"
  have served: "observePeer (Some (node_self c)) (srv, w) = (srv', w)" for w
    by (simp add: observePeer_def srv'(1))
  have answer: "FindClosest (node_rt srv') t K = [node_self c]" using srv'(2) by (rule FindClosest_single)
  obtain log e' where round: "run_round ?env False t [?n] [] ?rd =
      Done \<lparr>rd_state = (c, (srv', e'), None), rd_visited = {nn_id ?n}, rd_new = [], rd_found = None, rd_log = log\<rparr>"
    by (simp add: run_round_single draw_def launch_next_def do_call_def tr query_def udp_find_node
        served answer absorb_def)
  have "iterativeSearch ?env t False (c, (srv, e), None) =
      Done (([?n], None, None), log, c, (srv', e'), None)"
    using round by (simp add: iterativeSearch_eq [of sha] client(1) client(2) FindClosest_single
        search_loop.simps to_query_def Alpha_def merge_single)
  then have "LookupNode ?env t (c, (srv, e), None) = Done (([?n], None), log, c, (srv', e'), None)"
    by (simp add: LookupNode_def)
  then show thesis by (rule that)
qed

section \<open>The three operations\<close>

lemma norm_meta_slice [simp]: "slice_bytes (Data (norm_meta v)) = slice_bytes (Data v)"
  by (simp add: norm_meta_def slice_bytes_def split: option.split)

lemma joined:
  fixes e :: 'e
  assumes c: "acquainted (node_self srv) c" and srv: "acquainted (node_self c) srv"
  obtains c' srv' e' where
    "at_node rnd far (Bootstrap (background env) [node_self srv]) c srv e = Done (None, c', srv', e')"
    and "acquainted (node_self srv) c'" and "acquainted (node_self c) srv'"
    and "contacts (node_rt c') = [node_self srv]" and "contacts (node_rt srv') = [node_self c]"
    and "node_self c' = node_self c" and "node_self srv' = node_self srv"
proof -
  let ?tr = "udp_node (node_self c) (node_self srv) rnd (\<lambda>n ref w. (Inl ErrNotFound, w)) :: 'e udp_world transport"
  have "acquainted (node_self srv) (with_transport ?tr c)" using c by simp
  from acquainted_add [OF this] obtain c' where c1: "\<And>w. add_contact (node_self srv) (with_transport ?tr c, w) = (c', w)"
    "acquainted (node_self srv) c'" "contacts (node_rt c') = [node_self srv]"
    "node_storage c' = node_storage (with_transport ?tr c)"
    "node_self c' = node_self (with_transport ?tr c)" "node_transport c' = node_transport (with_transport ?tr c)"
    by blast
  then have c': "\<And>w. add_contact (node_self srv) (with_transport ?tr c, w) = (c', w)"
    "acquainted (node_self srv) c'" "contacts (node_rt c') = [node_self srv]" "node_self c' = node_self c"
    "node_transport c' = Some ?tr" by simp_all
  obtain srv' where srv': "\<And>w. add_contact (node_self c) (srv, w) = (srv', w)"
    "acquainted (node_self c) srv'" "contacts (node_rt srv') = [node_self c]" "node_self srv' = node_self srv"
    using acquainted_add [OF srv] by blast
  have inv: "node_inv (\<lambda>b. b) c'" using c'(2) by (simp add: acquainted_def)
  obtain log e' where "LookupNode (background env) (nn_id (node_self c)) (c', (srv, e), None) =
      Done (([node_self srv], None), log, c', (srv', e'), None)"
    using two_node_lookup [OF inv c'(3), of rnd _ srv' env "nn_id (node_self c)" e] c'(4,5) srv' by auto
  then have "at_node rnd far (Bootstrap (background env) [node_self srv]) c srv e =
      Done (None, with_transport far c', srv', e')"
    by (simp add: at_node_def Bootstrap_def c'(1,4) Let_def)
  then show thesis by (rule that) (use c' srv' in simp_all)
qed

lemma stored:
  fixes e :: 'e
  assumes c: "acquainted (node_self srv) c" "contacts (node_rt c) = [node_self srv]"
    and srv: "acquainted (node_self c) srv"
  obtains c' srv' e' where
    "at_node rnd far
       (\<lambda>s. and_then (StoreValue (background env) key data s) (\<lambda>(err, sent, s). Done (err, s))) c srv e
     = Done (None, c', srv', e')"
    and "acquainted (node_self srv) c'" and "acquainted (node_self c) srv'"
    and "node_self c' = node_self c" and "node_self srv' = node_self srv"
    and "storage_view (node_storage srv') key = Some (storage_norm (node_storage srv) (norm_meta data))"
proof -
  let ?tr = "udp_node (node_self c) (node_self srv) rnd (\<lambda>n ref w. (Inl ErrNotFound, w)) :: 'e udp_world transport"
  let ?c = "with_transport ?tr c"
  obtain srv1 where srv1: "\<And>w. add_contact (node_self c) (srv, w) = (srv1, w)"
    "acquainted (node_self c) srv1" "contacts (node_rt srv1) = [node_self c]" "node_self srv1 = node_self srv"
    "node_storage srv1 = node_storage srv"
    using acquainted_add [OF srv] by metis
  obtain srv2 where srv2: "\<And>w. add_contact (node_self c) (srv1, w) = (srv2, w)"
    "acquainted (node_self c) srv2" "node_self srv2 = node_self srv" "node_storage srv2 = node_storage srv"
    using acquainted_add [OF srv1(2)] srv1(4,5) by metis
  define srv3 where "srv3 = srv2\<lparr>node_storage := storage_put (node_storage srv) key (norm_meta data)\<rparr>"
  have inv: "node_inv (\<lambda>b. b) ?c" using c(1) by (simp add: acquainted_def)
  have st: "storage_inv (\<lambda>b. b) (node_storage srv)" using srv by (simp add: acquainted_def node_inv_def)
  obtain log e1 where look: "LookupNode (background env) key (?c, (srv, e), None) =
      Done (([node_self srv], None), log, ?c, (srv1, e1), None)"
    using two_node_lookup [OF inv, of srv rnd _ srv1 env key e] c(2) srv1 by auto
  have put: "OnStore (Some (node_self c)) key (norm_meta data) (srv1, w) = (None, srv3, w)" for w
    by (simp add: OnStore_eq observePeer_def srv2(1) srv1(5) srv3_def)
  obtain sent e2 where "store_all (background env) ?tr key data [node_self srv] [] ((srv1, e1), None) =
      (sent, (srv3, e2), None)"
    by (simp add: store_all.simps udp_store put Let_def)
  with look have "at_node rnd far
       (\<lambda>s. and_then (StoreValue (background env) key data s) (\<lambda>(err, sent, s). Done (err, s))) c srv e
     = Done (None, with_transport far ?c, srv3, e2)"
    by (simp add: at_node_def StoreValue_def StoreK_def Let_def)
  then show thesis
  proof (rule that)
    show "acquainted (node_self c) srv3"
      using srv2(2) node_inv_storage [of "\<lambda>b. b" srv2] storage_put_spec(2) [OF st]
      by (simp add: acquainted_def srv3_def)
  qed (use c srv2 st in \<open>simp_all add: srv3_def\<close>)
qed

lemma found:
  assumes "acquainted (node_self srv) c" and "storage_view (node_storage c) key = Some v"
  shows "\<exists>c' srv' e'. at_node rnd far
       (\<lambda>s. and_then (FindValue (background env) key s) (\<lambda>(r, log, s). Done (r, s))) c srv e
     = Done ((Some v, None), c', srv', e')"
proof -
  have "storage_inv (\<lambda>b. b) (node_storage c)" using assms(1) by (simp add: acquainted_def node_inv_def)
  from storage_get_spec(1) [OF this, of key] assms(2)
  obtain st where "storage_get (node_storage c) key = (Some v, st)" by (metis prod.collapse)
  then show ?thesis by (simp add: at_node_def FindValue_def Let_def)
qed

lemma two_nodes_run:
  assumes "acquainted (node_self node1) node2" and "acquainted (node_self node2) node1"
  shows "store_and_find rnd far env key data node1 node2 e = Done (Retrieved (slice_bytes (Data data)))"
proof -
  obtain b a e1 where 1: "at_node rnd far (Bootstrap (background env) [node_self node1]) node2 node1 e = Done (None, b, a, e1)"
    "acquainted (node_self node1) b" "acquainted (node_self node2) a" "contacts (node_rt a) = [node_self node2]"
    "node_self b = node_self node2" "node_self a = node_self node1"
    by (rule joined [OF assms]) blast
  have known: "acquainted (node_self b) a" "contacts (node_rt a) = [node_self b]" "acquainted (node_self a) b"
    using 1 by simp_all
  obtain a' b' e2 where 2: "at_node rnd far
       (\<lambda>s. and_then (StoreValue (background env) key data s) (\<lambda>(err, sent, s). Done (err, s))) a b e1
     = Done (None, a', b', e2)"
    "acquainted (node_self a) b'" "node_self a' = node_self a"
    "storage_view (node_storage b') key = Some (storage_norm (node_storage b) (norm_meta data))"
    by (rule stored [OF known]) blast
  have data: "slice_bytes (Data (storage_norm st (norm_meta data))) = slice_bytes (Data data)" for st
    by (cases st) simp_all
  have "acquainted (node_self a') b'" using 2(2,3) by simp
  from found [OF this 2(4)] 1(1) 2(1) show ?thesis
    by (fastforce simp: store_and_find_def data)
qed

lemma NewNode_simps [simp]:
  "node_self (NewNode n tr) = n" "node_transport (NewNode n tr) = tr" "node_storage (NewNode n tr) = new_memory"
  by (simp_all add: NewNode_def NewNodeWithStorage_def)

lemma demo_nodes_acquainted:
  "nn_id n \<noteq> nn_id m \<Longrightarrow> acquainted n (NewNode m tr)"
  using NewNode_inv [of "\<lambda>b. b" m tr]
  by (simp add: acquainted_def NewNode_def NewNodeWithStorage_def contacts_def SetPing_def NewRoutingTable_def)

text \<open>So the program prints its text if the two random ids differ and both nodes start.\<close>

lemma demo_retrieves:
  assumes "copy_into 20 rnd1 \<noteq> copy_into 20 rnd2" and "\<And>e. fst (tr_listen far e) = None"
  shows "demo_main sha1 parseIP rnd1 rnd2 rnd far env e = Done (Retrieved (bytes_of_string ''Hello world''))"
proof -
  obtain e1 where 1: "tr_listen far e = (None, e1)" using assms(2) by (metis prod.collapse)
  obtain e2 where 2: "tr_listen far e1 = (None, e2)" using assms(2) by (metis prod.collapse)
  let ?n1 = "NewNetworkNode rnd1 parseIP ''127.0.0.1'' 8000" and ?n2 = "NewNetworkNode rnd2 parseIP ''127.0.0.1'' 8001"
  have ne: "nn_id ?n1 \<noteq> nn_id ?n2" using assms(1) by (simp add: NewNetworkNode_def GenerateKey_def key_of_slice_eq_iff)
  show ?thesis
    using ne by (simp add: demo_main_def Start_def 1 2 Let_def two_nodes_run demo_nodes_acquainted)
qed

text \<open>Two nodes that talk over UDP, the second joining through the first, share their values:
  whatever the schedule, \<open>Bootstrap\<close>, \<open>StoreValue\<close> at the first node and \<open>FindValue\<close> at the
  second succeed and give the bytes that were stored.\<close>

theorem two_nodes_share:
  assumes "acquainted (node_self node1) node2" and "acquainted (node_self node2) node1"
  shows "store_and_find rnd far env key data node1 node2 e = Done (Retrieved (slice_bytes (Data data)))"
  using two_nodes_run [OF assms] .

lemma two_nodes_share_witness:
  "store_and_find [] demo_transport demo_env zero_key (zero_meta\<lparr>Inline := True, Data := Some [42]\<rparr>)
     (NewNode (peer 0 1) None) (NewNode (peer 0 2) None) 0 = Done (Retrieved [42])"
proof -
  have "acquainted (peer 0 1) (NewNode (peer 0 2) None :: nat node)"
    "acquainted (peer 0 2) (NewNode (peer 0 1) None :: nat node)"
    by (rule demo_nodes_acquainted; simp)+
  then show ?thesis
    by (subst two_nodes_share) simp_all
qed

end
