(* ===== verification/Cluster.thy ===== *)
theory Cluster
  imports Udp_Demo Webrtc_Guarantees Search
begin

text \<open>
  A cluster: any number of nodes that call each other over one of the transports, one of them
  running an operation while the others serve its requests. \<open>Udp_Demo\<close> is the case of two nodes.
\<close>

section \<open>Links\<close>

text \<open>
  A link is the transport of a client to one server: its calls act on the server and its
  surroundings \<open>'e\<close>. The interface states what the calls do to a node at the other end; both
  transports over a network that delivers satisfy it.
\<close>

type_synonym 'e link = "network_node \<Rightarrow> network_node \<Rightarrow> ('e node \<times> 'e) transport"

locale delivering_link =
  fixes link :: "'e link"
  assumes link_ping: "tr_ping (link c srv) t s = (None, observePeer (Some c) s)"
    and link_store: "tr_store (link c srv) t k v s = (None, snd (OnStore (Some c) k (norm_meta v) s))"
    and link_find_node: "tr_find_node (link c srv) t k s =
      (Inr (map Some (FindClosest (node_rt (fst (observePeer (Some c) s))) k K)), observePeer (Some c) s)"
    and link_find_value: "node_inv sha (fst s) \<Longrightarrow> tr_find_value (link c srv) t k s =
      (case node_view s k of
         Some v \<Rightarrow> Inr (Some (norm_meta v), [])
       | None \<Rightarrow> Inr (None, map Some (FindClosest (node_rt (fst (observePeer (Some c) s))) k K)),
       snd (OnFindValue (Some c) k s))"
    and link_fetch: "OnFetchBlob (Some c) ref (fst s) = Inr data \<Longrightarrow> data \<noteq> [] \<Longrightarrow> length data < 2 ^ 64 \<Longrightarrow>
      length ref = 64 \<Longrightarrow> tr_fetch_blob (link c srv) t ref s = (Inr data, s)"
    and link_well_behaved: "well_behaved (link c srv)"

text \<open>A call over a network whose world also has the response on its way back.\<close>

definition one_call :: "('s \<times> 'm option \<Rightarrow> 'r \<times> 's \<times> 'm option) \<Rightarrow> 's \<Rightarrow> 'r \<times> 's" where
  "one_call call s = (case call (s, None) of (r, s', inbox) \<Rightarrow> (r, s'))"

text \<open>UDP, with blobs over TCP; the client's memory takes any size the field can hold.\<close>

definition udp_link :: "bytes \<Rightarrow> 'e link" where
  "udp_link rnd client server =
     (let tr = udp_node client server rnd (\<lambda>n ref w. (Inl ErrNotFound, w)) in
      \<lparr>tr_ping = (\<lambda>t. one_call (tr_ping tr t)),
       tr_store = (\<lambda>t k v. one_call (tr_store tr t k v)),
       tr_find_node = (\<lambda>t k. one_call (tr_find_node tr t k)),
       tr_find_value = (\<lambda>t k. one_call (tr_find_value tr t k)),
       tr_fetch_blob = (\<lambda>t ref s. the (FetchBlob_tcp (2 ^ 64 - 1) (blob_link (Some node_handler)) t ref s)),
       tr_listen = (\<lambda>s. (None, s)), tr_close = (\<lambda>s. (None, s))\<rparr>)"

text \<open>WebRTC; what the server sends for a blob arrives in order, and nothing else.\<close>

definition rtc_fetch :: "bytes \<Rightarrow> network_node \<Rightarrow> network_node \<Rightarrow> string \<Rightarrow> 'e node \<times> 'e \<Rightarrow> (go_error + bytes) \<times> 'e node \<times> 'e" where
  "rtc_fetch rnd client server ref s =
     (let rid = genReqID rnd;
          ((resp, frames), s) = rtc_respond (Some node_handler) server True [] (fetch_request client rid ref) s;
          arrivals = map BlobMsg frames @ (case resp of None \<Rightarrow> [] | Some m \<Rightarrow> [ControlMsg m])
      in (fst (FetchBlob_rtc rid None arrivals True newPeerConn), s))"

definition rtc_link :: "bytes \<Rightarrow> 'e link" where
  "rtc_link rnd client server =
     (let net = direct_rtc (Some node_handler) server rnd in
      \<lparr>tr_ping = (\<lambda>t. one_call (Ping_rtc net client t)),
       tr_store = (\<lambda>t k v. one_call (Store_rtc net client t k v)),
       tr_find_node = (\<lambda>t k. one_call (FindNode_rtc net client t k)),
       tr_find_value = (\<lambda>t k. one_call (FindValue_rtc net client t k)),
       tr_fetch_blob = (\<lambda>t ref. rtc_fetch rnd client server ref),
       tr_listen = (\<lambda>s. (None, s)), tr_close = (\<lambda>s. (None, s))\<rparr>)"

section \<open>The cluster\<close>

text \<open>The nodes by the address and port that requests are sent to.\<close>

type_synonym endpoint = "bytes option \<times> int"

definition endpoint :: "network_node \<Rightarrow> endpoint" where
  "endpoint n = (nn_address n, nn_port n)"

record 'e cluster =
  cl_nodes :: "endpoint \<rightharpoonup> 'e node"
  cl_env :: 'e

definition unreachable :: go_error where
  "unreachable = timeout_error"

definition deliver ::
  "'e link \<Rightarrow> network_node \<Rightarrow> network_node \<Rightarrow> (go_error \<Rightarrow> 'r) \<Rightarrow>
     (('e node \<times> 'e) transport \<Rightarrow> 'e node \<times> 'e \<Rightarrow> 'r \<times> 'e node \<times> 'e) \<Rightarrow> 'e cluster \<Rightarrow> 'r \<times> 'e cluster"
where
  "deliver link self t failed call w =
     (case cl_nodes w (endpoint t) of
        None \<Rightarrow> (failed unreachable, w)
      | Some srv \<Rightarrow>
          let (r, srv, e) = call (link self (node_self srv)) (srv, cl_env w) in
          (r, \<lparr>cl_nodes = (cl_nodes w)(endpoint t \<mapsto> srv), cl_env = e\<rparr>))"

definition cluster_transport :: "'e link \<Rightarrow> network_node \<Rightarrow> 'e cluster transport" where
  "cluster_transport link self =
     \<lparr>tr_ping = (\<lambda>t. deliver link self t Some (\<lambda>tr. tr_ping tr t)),
      tr_store = (\<lambda>t k v. deliver link self t Some (\<lambda>tr. tr_store tr t k v)),
      tr_find_node = (\<lambda>t k. deliver link self t Inl (\<lambda>tr. tr_find_node tr t k)),
      tr_find_value = (\<lambda>t k. deliver link self t Inl (\<lambda>tr. tr_find_value tr t k)),
      tr_fetch_blob = (\<lambda>t ref. deliver link self t Inl (\<lambda>tr. tr_fetch_blob tr t ref)),
      tr_listen = (\<lambda>w. (None, w)), tr_close = (\<lambda>w. (None, w))\<rparr>"

text \<open>The scheduler of the surroundings; the context is \<open>context.Background()\<close>.\<close>

definition cluster_env :: "'e env \<Rightarrow> 'e cluster env" where
  "cluster_env env =
     \<lparr>ctx_err = (\<lambda>w. None),
      sched = (\<lambda>w. let (i, e) = sched env (cl_env w) in (i, w\<lparr>cl_env := e\<rparr>)),
      sort_ties = (\<lambda>w. sort_ties env (cl_env w))\<rparr>"

text \<open>
  One node runs an operation: it leaves the served nodes, calls them through the link, and
  comes back. \<open>far\<close> is the transport of a node at rest, for the pings of its handlers.
\<close>

definition run_at ::
  "'e transport \<Rightarrow> 'e link \<Rightarrow> network_node \<Rightarrow>
     ('e cluster node \<times> 'e cluster \<Rightarrow> ('r \<times> 'e cluster node \<times> 'e cluster) outcome) \<Rightarrow> 'e cluster \<Rightarrow>
     ('r \<times> 'e cluster) outcome"
where
  "run_at far link p operation w =
     (let c = the (cl_nodes w (endpoint p)) in
      and_then (operation (with_transport (cluster_transport link (node_self c)) c,
          w\<lparr>cl_nodes := (cl_nodes w)(endpoint p := None)\<rparr>))
        (\<lambda>(r, c, w). Done (r, w\<lparr>cl_nodes := (cl_nodes w)(endpoint p \<mapsto> with_transport far c)\<rparr>)))"

text \<open>The operations of \<open>dht/logic.go\<close>, without the ghosts.\<close>

definition bootstrap_at :: "'e transport \<Rightarrow> 'e link \<Rightarrow> 'e env \<Rightarrow> network_node list \<Rightarrow> network_node \<Rightarrow> 'e cluster \<Rightarrow>
    (go_error option \<times> 'e cluster) outcome" where
  "bootstrap_at far link env ns p = run_at far link p (Bootstrap (cluster_env env) ns)"

definition store_at :: "'e transport \<Rightarrow> 'e link \<Rightarrow> 'e env \<Rightarrow> dht_key \<Rightarrow> value_meta \<Rightarrow> network_node \<Rightarrow> 'e cluster \<Rightarrow>
    (go_error option \<times> 'e cluster) outcome" where
  "store_at far link env key data p =
     run_at far link p (\<lambda>s. and_then (StoreValue (cluster_env env) key data s) (\<lambda>(err, sent, s). Done (err, s)))"

definition find_at :: "'e transport \<Rightarrow> 'e link \<Rightarrow> 'e env \<Rightarrow> dht_key \<Rightarrow> network_node \<Rightarrow> 'e cluster \<Rightarrow>
    ((value_meta option \<times> go_error option) \<times> 'e cluster) outcome" where
  "find_at far link env key p =
     run_at far link p (\<lambda>s. and_then (FindValue (cluster_env env) key s) (\<lambda>(r, log, s). Done (r, s)))"

definition store_blob_at :: "'e transport \<Rightarrow> 'e link \<Rightarrow> (bytes \<Rightarrow> bytes) \<Rightarrow> 'e env \<Rightarrow> dht_key \<Rightarrow> bytes \<Rightarrow> string \<Rightarrow>
    network_node \<Rightarrow> 'e cluster \<Rightarrow> (go_error option \<times> 'e cluster) outcome" where
  "store_blob_at far link sha256 env key data mime p =
     run_at far link p (\<lambda>s. and_then (StoreBlob sha256 (cluster_env env) key data mime s) (\<lambda>(err, sent, s). Done (err, s)))"

definition fetch_at :: "'e transport \<Rightarrow> 'e link \<Rightarrow> value_meta option \<Rightarrow> network_node \<Rightarrow> 'e cluster \<Rightarrow>
    ((go_error + bytes option) \<times> 'e cluster) outcome" where
  "fetch_at far link meta p =
     run_at far link p (\<lambda>s. and_then (FetchBlob meta s) (\<lambda>(r, w). Done (r, fst s, w)))"

section \<open>Both transports deliver\<close>

lemma one_call_eq: "call (s, None) = (r, s', inbox) \<Longrightarrow> one_call call s = (r, s')"
  by (simp add: one_call_def)

lemma udp_link_simps:
  "tr_ping (udp_link rnd c srv) t s = (None, observePeer (Some c) s)"
  "tr_store (udp_link rnd c srv) t k v s = (None, snd (OnStore (Some c) k (norm_meta v) s))"
  "tr_find_node (udp_link rnd c srv) t k s =
     (Inr (map Some (FindClosest (node_rt (fst (observePeer (Some c) s))) k K)), observePeer (Some c) s)"
  by (simp_all add: udp_link_def Let_def one_call_def udp_ping udp_store udp_find_node OnPing_def)

lemma rtc_link_simps:
  "tr_ping (rtc_link rnd c srv) t s = (None, observePeer (Some c) s)"
  "tr_store (rtc_link rnd c srv) t k v s = (None, snd (OnStore (Some c) k (norm_meta v) s))"
  "tr_find_node (rtc_link rnd c srv) t k s =
     (Inr (map Some (FindClosest (node_rt (fst (observePeer (Some c) s))) k K)), observePeer (Some c) s)"
  by (simp_all add: rtc_link_def Let_def one_call_def rtc_ping rtc_store rtc_find_node OnPing_def)

lemmas one_answer_simps = call_find_value_def rpc_names reply_result_def no_nil_def Let_def

lemma udp_find_value_no_nil: "no_nil (fst (tr_find_value (udp_node c srv rnd fetch) t k (s, None)))"
  by (auto simp: udp_client_def sendReq_direct udp_respond_def one_answer_simps
      split: prod.splits sum.splits option.splits)

lemma rtc_find_value_no_nil: "no_nil (fst (FindValue_rtc (direct_rtc (Some node_handler) srv rnd) c t k (s, None)))"
  by (auto simp: rtc_calls sendRPC_direct rtc_respond_def one_answer_simps
      split: prod.splits sum.splits option.splits)

lemma fst_one_call: "fst (one_call call s) = fst (call (s, None))"
  by (simp add: one_call_def split: prod.splits)

lemma well_behavedI:
  assumes "\<And>n k s. \<exists>ns s'. tr_find_node tr n k s = (Inr (map Some ns), s')"
    and "\<And>n k s. no_nil (fst (tr_find_value tr n k s))"
  shows "well_behaved tr"
  unfolding well_behaved_def
proof (intro allI)
  fix fv n k s
  obtain ns s' where "tr_find_node tr n k s = (Inr (map Some ns), s')" using assms(1) by blast
  then show "no_nil (fst (query fv tr n k s))"
    using assms(2) by (auto simp: query_def no_nil_def)
qed

lemma OnFetchBlob_sender: "OnFetchBlob p ref n = OnFetchBlob q ref n"
  by (simp add: OnFetchBlob_def)

interpretation udp_link: delivering_link "udp_link rnd"
proof
  show "tr_find_value (udp_link rnd c srv) t k s =
      (case node_view s k of
         Some v \<Rightarrow> Inr (Some (norm_meta v), [])
       | None \<Rightarrow> Inr (None, map Some (FindClosest (node_rt (fst (observePeer (Some c) s))) k K)),
       snd (OnFindValue (Some c) k s))"
    if "node_inv sha (fst s)" for sha c srv t k and s :: "'e node \<times> 'e"
    by (simp add: udp_link_def Let_def one_call_def udp_find_value [OF that])
  show "well_behaved (udp_link rnd c srv)" for c srv
  proof (rule well_behavedI)
    show "no_nil (fst (tr_find_value (udp_link rnd c srv) n k s))" for n k and s :: "'e node \<times> 'e"
      by (simp add: udp_link_def Let_def fst_one_call udp_find_value_no_nil)
  qed (simp add: udp_link_simps)
  show "tr_fetch_blob (udp_link rnd c srv) t ref s = (Inr data, s)"
    if "OnFetchBlob (Some c) ref (fst s) = Inr data" "data \<noteq> []" "length data < 2 ^ 64" "length ref = 64"
    for c srv t ref data and s :: "'e node \<times> 'e"
  proof -
    have "OnFetchBlob None ref (fst s) = Inr data" using that(1) OnFetchBlob_sender by metis
    then show ?thesis using fetched_tcp [of ref "2 ^ 64 - 1" node_handler s t] that(2-4)
      by (simp add: udp_link_def Let_def)
  qed
qed (rule udp_link_simps)+

lemma blobs_of_frames: "List.map_filter blob_of (map BlobMsg bs) = bs"
  by (induction bs) (simp_all add: map_filter_simps)

interpretation rtc_link: delivering_link "rtc_link rnd"
proof
  show "tr_find_value (rtc_link rnd c srv) t k s =
      (case node_view s k of
         Some v \<Rightarrow> Inr (Some (norm_meta v), [])
       | None \<Rightarrow> Inr (None, map Some (FindClosest (node_rt (fst (observePeer (Some c) s))) k K)),
       snd (OnFindValue (Some c) k s))"
    if "node_inv sha (fst s)" for sha c srv t k and s :: "'e node \<times> 'e"
    by (simp add: rtc_link_def Let_def one_call_def rtc_find_value [OF that])
  show "well_behaved (rtc_link rnd c srv)" for c srv
  proof (rule well_behavedI)
    show "no_nil (fst (tr_find_value (rtc_link rnd c srv) n k s))" for n k and s :: "'e node \<times> 'e"
      by (simp add: rtc_link_def Let_def fst_one_call rtc_find_value_no_nil)
  qed (simp add: rtc_link_simps)
  show "tr_fetch_blob (rtc_link rnd c srv) t ref s = (Inr data, s)"
    if "OnFetchBlob (Some c) ref (fst s) = Inr data" "data \<noteq> []" "length data < 2 ^ 64" "length ref = 64"
    for c srv t ref data and s :: "'e node \<times> 'e"
  proof -
    let ?rid = "genReqID rnd" and ?frames = "fst (sendBlobChunked (genReqID rnd) data [])"
    have rid: "length ?rid = 32" by (simp add: genReqID_def)
    have h: "h_fetch_blob node_handler (Some c) ref s = Inr data" using that(1) by simp
    have resp: "rtc_respond (Some node_handler) srv True [] (fetch_request c ?rid ref) s = ((None, ?frames), s)"
      using h by (simp add: rtc_respond_fetch)
    have "filter (\<lambda>f. frame_id f = ?rid) (List.map_filter blob_of (map BlobMsg ?frames)) = ?frames"
      unfolding blobs_of_frames using rid by (simp add: sendBlobChunked_ok filter_id_conv)
    moreover have "\<not> control_for ?rid a" if "a \<in> set (map BlobMsg ?frames)" for a using that by auto
    ultimately have "fst (FetchBlob_rtc ?rid None (map BlobMsg ?frames) True newPeerConn) = Inr data"
      using fetched_blob [OF h that(2) rid resp, of "map BlobMsg ?frames" True newPeerConn] by blast
    then show ?thesis using resp by (simp add: rtc_link_def rtc_fetch_def Let_def)
  qed
qed (rule rtc_link_simps)+

end
