(* ===== verification/Cluster_Search.thy ===== *)
theory Cluster_Search
  imports Cluster
begin

text \<open>
  Lookups in a cluster whose members know only members: no bucket is ever full, so that contacts
  are only gained; every asked member then knows the asking one, and tells it all it knows.
\<close>

section \<open>Members\<close>

definition members_ok :: "network_node set \<Rightarrow> bool" where
  "members_ok M \<longleftrightarrow> finite M \<and> inj_on nn_id M \<and> inj_on endpoint M \<and> card M \<le> Suc K"

lemma members_ok_list:
  "distinct (ids ns) \<Longrightarrow> distinct (map endpoint ns) \<Longrightarrow> length ns \<le> Suc K \<Longrightarrow> members_ok (set ns)"
  using le_trans [OF card_length] by (simp add: members_ok_def distinct_map)

definition member :: "(bytes \<Rightarrow> bytes) \<Rightarrow> network_node set \<Rightarrow> network_node \<Rightarrow> 'w node \<Rightarrow> bool" where
  "member sha M m n \<longleftrightarrow> node_self n = m \<and> node_inv sha n \<and> set (contacts (node_rt n)) \<subseteq> M - {m}"

text \<open>What a storage holds: its values, and its blobs, if it takes any, by the data they are of.\<close>

type_synonym contents = "(dht_key \<rightharpoonup> value_meta) \<times> (bytes \<Rightarrow> go_error + bytes) option"

definition contents :: "(bytes \<Rightarrow> bytes) \<Rightarrow> storage \<Rightarrow> contents" where
  "contents sha st =
     (storage_view st, case st of Memory m \<Rightarrow> None | Disk d \<Rightarrow> Some (\<lambda>data. GetBlob d (blob_ref sha data)))"

lemma contents_get: "storage_inv sha st \<Longrightarrow> contents sha (snd (storage_get st k)) = contents sha st"
  by (cases st) (simp_all add: contents_def fun_eq_iff mem.get_view)

lemma contents_put:
  "storage_inv sha st \<Longrightarrow>
     contents sha (storage_put st k (norm_meta v)) = ((fst (contents sha st))(k \<mapsto> norm_meta v), snd (contents sha st))"
  by (cases st) (simp_all add: contents_def fun_eq_iff disk.put_get_blob mem.put_view disk.put_view)

section \<open>The contacts of a member\<close>

lemma Add_member:
  assumes wf: "wf_rt rt" and sub: "set (contacts rt) \<subseteq> S" and S: "finite S" "card S \<le> K" "inj_on nn_id S"
    and n: "n \<in> S" "nn_id n \<noteq> nodeId rt"
  obtains rt' where "\<And>w. Add rt n w = (rt', w)" and "set (contacts rt') = insert n (set (contacts rt))"
proof -
  let ?i = "dist_index (nodeId rt) (nn_id n)"
  let ?b = "buckets rt ! ?i"
  let ?b' = "lru_add True ?b n"
  have i: "?i < length (buckets rt)" using wf dist_index_less by (simp add: wf_rt_def placed_rt_def)
  then have "set ?b \<subseteq> set (contacts rt)" unfolding contacts_iff subset_iff by blast
  with sub have b: "set ?b \<subseteq> S" by blast
  have d: "distinct (ids ?b)" using wf_rt_bucket [OF wf dist_index_less] by blast
  have known: "n \<in> set ?b" if "nn_id n \<in> set (ids ?b)" using that b S(3) n(1) by (auto dest: inj_onD)
  have room: "length ?b < K" if "nn_id n \<notin> set (ids ?b)"
  proof -
    have "set ?b \<subset> S" using b that n(1) by force
    then have "card (set ?b) < card S" using S(1) by (rule psubset_card_mono [rotated])
    with S(2) d show ?thesis by (simp add: distinct_card distinct_map)
  qed
  then have "\<not> must_ping ?b n" by (auto simp: must_ping_def not_le)
  moreover have alive: "lru_add a ?b n = ?b'" for a using room by (auto simp: lru_add_def)
  ultimately have add: "Add rt n w = (set_bucket rt ?i ?b', w)" for w
    unfolding Add_eq_lru [OF wf n(2)] by (simp add: Let_def alive [of False])
  have b': "set ?b' = insert n (set ?b)"
  proof (cases "nn_id n \<in> set (ids ?b)")
    case True
    then have "set (filter (\<lambda>m. nn_id m \<noteq> nn_id n) ?b) = set ?b - {n}"
      using b S(3) n(1) by (auto dest: inj_onD)
    with True known show ?thesis by (auto simp: lru_add_def)
  qed (use room in \<open>simp add: lru_add_def\<close>)
  have "set (contacts (set_bucket rt ?i ?b')) = insert n (set (contacts rt))"
  proof
    show "set (contacts (set_bucket rt ?i ?b')) \<subseteq> insert n (set (contacts rt))"
      using set_contacts_bucket [of rt ?i ?b'] b' \<open>set ?b \<subseteq> set (contacts rt)\<close> by blast
    have "m \<in> set (contacts (set_bucket rt ?i ?b'))" if "m \<in> insert n (set (contacts rt))" for m
    proof (cases "m = n")
      case True
      then show ?thesis using i b' by (auto simp: contacts_iff)
    next
      case False
      with that obtain j where "j < length (buckets rt)" "m \<in> set (buckets rt ! j)" by (auto simp: contacts_iff)
      then show ?thesis using b' unfolding contacts_iff
        by (intro exI [of _ j]) (cases "j = ?i"; simp)
    qed
    then show "insert n (set (contacts rt)) \<subseteq> set (contacts (set_bucket rt ?i ?b'))" by blast
  qed
  with add show thesis by (rule that)
qed

lemma members_others:
  assumes "members_ok M" and "m \<in> M"
  shows "finite (M - {m})" "card (M - {m}) \<le> K" "inj_on nn_id (M - {m})" "m \<noteq> q \<Longrightarrow> q \<in> M \<Longrightarrow> nn_id q \<noteq> nn_id m"
    "m \<noteq> q \<Longrightarrow> q \<in> M \<Longrightarrow> endpoint q \<noteq> endpoint m"
  using assms by (auto simp: members_ok_def intro: inj_on_subset dest: inj_onD)

lemma members_id: "members_ok M \<Longrightarrow> x \<in> M \<Longrightarrow> y \<in> M \<Longrightarrow> nn_id x = nn_id y \<longleftrightarrow> x = y"
  by (auto simp: members_ok_def dest: inj_onD)

lemma member_add:
  assumes M: "members_ok M" "m \<in> M" and n: "member sha M m n" and q: "q \<in> M - {m}"
  obtains n' where "\<And>w. add_contact q (n, w) = (n', w)" and "member sha M m n'"
    and "set (contacts (node_rt n')) = insert q (set (contacts (node_rt n)))"
    and "node_storage n' = node_storage n" and "node_transport n' = node_transport n"
proof -
  have rt: "wf_rt (node_rt n)" "nodeId (node_rt n) = nn_id m" "set (contacts (node_rt n)) \<subseteq> M - {m}"
    using n by (simp_all add: member_def node_inv_def)
  have "nn_id q \<noteq> nodeId (node_rt n)" using members_others(4) [OF M, of q] q rt(2) by auto
  with Add_member [OF rt(1,3) members_others(1-3) [OF M] q] obtain rt' where
    rt': "\<And>w. Add (node_rt n) q w = (rt', w)" "set (contacts rt') = insert q (set (contacts (node_rt n)))" by blast
  show thesis
  proof
    show add: "add_contact q (n, w) = (n\<lparr>node_rt := rt'\<rparr>, w)" for w by (simp add: add_contact_def rt'(1))
    show "member sha M m (n\<lparr>node_rt := rt'\<rparr>)"
      using n q rt'(2) add_contact_inv [of sha "(n, undefined)" q] by (auto simp: member_def add)
  qed (simp_all add: rt'(2))
qed

lemma member_closest:
  assumes M: "members_ok M" "m \<in> M" and n: "member sha M m n"
  shows "set (FindClosest (node_rt n) k K) = set (contacts (node_rt n))"
    and "distinct (ids (FindClosest (node_rt n) k K))"
proof -
  have wf: "wf_rt (node_rt n)" and sub: "set (contacts (node_rt n)) \<subseteq> M - {m}"
    using n by (simp_all add: member_def node_inv_def)
  show d: "distinct (ids (FindClosest (node_rt n) k K))" by (rule distinct_FindClosest [OF wf])
  have "distinct (contacts (node_rt n))" using wf_rt_distinct_contacts [OF wf] by (simp add: distinct_map)
  then have "length (contacts (node_rt n)) = card (set (contacts (node_rt n)))" by (simp add: distinct_card)
  also have "\<dots> \<le> K" using card_mono [OF members_others(1) [OF M] sub] members_others(2) [OF M] by simp
  finally show "set (FindClosest (node_rt n) k K) = set (contacts (node_rt n))" by (simp add: FindClosest_def)
qed

section \<open>The members that serve\<close>

text \<open>
  \<open>X\<close> are the members that serve, \<open>D\<close> what their storages hold, and \<open>L\<close> contacts they know at
  least.
\<close>

definition served ::
  "(bytes \<Rightarrow> bytes) \<Rightarrow> network_node set \<Rightarrow> network_node set \<Rightarrow> (network_node \<Rightarrow> contents) \<Rightarrow>
     (network_node \<Rightarrow> network_node set) \<Rightarrow> 'e cluster \<Rightarrow> bool"
where
  "served sha M X D L w \<longleftrightarrow>
     (\<forall>m \<in> X. \<exists>n. cl_nodes w (endpoint m) = Some n \<and> member sha M m n
        \<and> contents sha (node_storage n) = D m \<and> L m \<subseteq> set (contacts (node_rt n)))"

lemma servedE:
  assumes "served sha M X D L w" and "m \<in> X"
  obtains n where "cl_nodes w (endpoint m) = Some n" and "member sha M m n"
    and "contents sha (node_storage n) = D m" and "L m \<subseteq> set (contacts (node_rt n))"
  using assms unfolding served_def by blast

lemma served_cong: "served sha M X D L w \<Longrightarrow> cl_nodes w' = cl_nodes w \<Longrightarrow> served sha M X D L w'"
  by (simp add: served_def)

lemma served_mono: "served sha M X D L w \<Longrightarrow> (\<And>m. m \<in> X \<Longrightarrow> L' m \<subseteq> L m) \<Longrightarrow> served sha M X D L' w"
  unfolding served_def by (meson subset_trans)

lemma served_update:
  assumes w: "served sha M X D L w" and X: "X \<subseteq> M" "m \<in> M" "members_ok M"
    and n: "member sha M m n" "contents sha (node_storage n) = d" "l \<subseteq> set (contacts (node_rt n))"
  shows "served sha M (insert m X) (D(m := d)) (L(m := l)) \<lparr>cl_nodes = (cl_nodes w)(endpoint m \<mapsto> n), cl_env = e\<rparr>"
  unfolding served_def
proof
  fix q assume q: "q \<in> insert m X"
  show "\<exists>n'. cl_nodes \<lparr>cl_nodes = (cl_nodes w)(endpoint m \<mapsto> n), cl_env = e\<rparr> (endpoint q) = Some n'
      \<and> member sha M q n' \<and> contents sha (node_storage n') = (D(m := d)) q \<and> (L(m := l)) q \<subseteq> set (contacts (node_rt n'))"
  proof (cases "q = m")
    case True
    with n show ?thesis by simp
  next
    case False
    with q X have "q \<in> X" "endpoint q \<noteq> endpoint m" using members_others(5) [OF X(3,2), of q] by auto
    with w False show ?thesis by (simp add: served_def)
  qed
qed

text \<open>What a member answers when \<open>p\<close> asks it for \<open>k\<close>.\<close>

definition member_answers ::
  "network_node set \<Rightarrow> network_node \<Rightarrow> (network_node \<Rightarrow> contents) \<Rightarrow> (network_node \<Rightarrow> network_node set) \<Rightarrow>
     bool \<Rightarrow> dht_key \<Rightarrow> network_node \<Rightarrow> answer \<Rightarrow> bool"
where
  "member_answers M p D L fv k m ans \<longleftrightarrow>
     (case (if fv then fst (D m) k else None) of
        Some v \<Rightarrow> ans = Inr (Some (norm_meta v), [])
      | None \<Rightarrow> \<exists>ns. ans = Inr (None, map Some ns) \<and> insert p (L m) \<subseteq> set ns \<and> set ns \<subseteq> M - {m} \<and> distinct (ids ns))"

lemma member_answers_mono:
  assumes "member_answers M p D L fv k m ans" and "L' m \<subseteq> L m"
  shows "member_answers M p D L' fv k m ans"
proof (cases "if fv then fst (D m) k else None")
  case None
  with assms(1) obtain ns where ns: "ans = Inr (None, map Some ns)" "insert p (L m) \<subseteq> set ns"
    "set ns \<subseteq> M - {m}" "distinct (ids ns)"
    unfolding member_answers_def by (simp only: option.case) blast
  from ns(2) assms(2) have "insert p (L' m) \<subseteq> set ns" by blast
  with ns None show ?thesis unfolding member_answers_def by (simp only: option.case) blast
next
  case (Some v)
  with assms(1) show ?thesis unfolding member_answers_def by (simp only: option.case)
qed

section \<open>A search in progress\<close>

definition told_by :: "answer \<Rightarrow> network_node set" where
  "told_by ans = {n. \<exists>ns. ans = Inr (None, map Some ns) \<and> n \<in> set ns}"

text \<open>
  The members asked are those of the log. Every answer is one of a member, and waits to be
  absorbed or has been, so that its contacts are known.
\<close>

definition asked :: "query_log \<Rightarrow> network_node set" where
  "asked log = fst ` set log"

definition log_ok ::
  "network_node set \<Rightarrow> network_node \<Rightarrow> (network_node \<Rightarrow> contents) \<Rightarrow> (network_node \<Rightarrow> network_node set) \<Rightarrow>
     bool \<Rightarrow> dht_key \<Rightarrow> network_node set \<Rightarrow> flight list \<Rightarrow> query_log \<Rightarrow> bool"
where
  "log_ok M p D L fv k known fl log \<longleftrightarrow>
     (\<forall>(m, ans) \<in> set log. m \<in> M - {p} \<and> member_answers M p D L fv k m ans
        \<and> (Answered ans \<in> set fl \<or> told_by ans \<subseteq> insert p known))
     \<and> (\<forall>ans. Answered ans \<in> set fl \<longrightarrow> ans \<in> snd ` set log)"

lemma log_ok_Nil [simp]: "log_ok M p D L fv k known [] []"
  by (simp add: log_ok_def)

lemma log_okD:
  assumes "log_ok M p D L fv k known fl log" and "(m, ans) \<in> set log"
  shows "m \<in> M - {p}" "member_answers M p D L fv k m ans" "Answered ans \<in> set fl \<or> told_by ans \<subseteq> insert p known"
  using assms unfolding log_ok_def by blast+

lemma log_ok_call:
  assumes "log_ok M p D L fv k known fl log" and "\<And>a. Answered a \<in> set fl \<Longrightarrow> Answered a \<in> set fl'"
    and "Answered ans \<in> set fl'" and "\<And>a. Answered a \<in> set fl' \<Longrightarrow> Answered a \<in> set fl \<or> a = ans"
    and "m \<in> M - {p}" and "member_answers M p D L fv k m ans"
  shows "log_ok M p D L fv k known fl' (log @ [(m, ans)])"
  unfolding log_ok_def
proof (intro conjI ballI allI impI)
  fix x assume x: "x \<in> set (log @ [(m, ans)])"
  obtain q a where qa: "x = (q, a)" by fastforce
  with x consider "(q, a) \<in> set log" | "q = m" "a = ans" by auto
  then show "case x of (m, ans) \<Rightarrow> m \<in> M - {p} \<and> member_answers M p D L fv k m ans
      \<and> (Answered ans \<in> set fl' \<or> told_by ans \<subseteq> insert p known)"
  proof cases
    case 1
    from log_okD [OF assms(1) this] assms(2) show ?thesis by (auto simp: qa)
  next
    case 2
    with assms(3,5,6) show ?thesis by (simp add: qa)
  qed
next
  fix a assume "Answered a \<in> set fl'"
  then consider "Answered a \<in> set fl" | "a = ans" using assms(4) by blast
  then show "a \<in> snd ` set (log @ [(m, ans)])"
    using assms(1) by cases (auto simp: log_ok_def)
qed

lemma log_ok_absorb:
  assumes "log_ok M p D L fv k known fl log" and "\<And>a. Answered a \<in> set fl \<Longrightarrow> Answered a \<in> set fl' \<or> a = ans"
    and "set fl' \<subseteq> set fl" and "known \<subseteq> known'" and "told_by ans \<subseteq> insert p known'"
  shows "log_ok M p D L fv k known' fl' log"
  unfolding log_ok_def
proof (intro conjI ballI allI impI)
  fix x assume x: "x \<in> set log"
  obtain m a where ma: "x = (m, a)" by fastforce
  have "Answered a \<in> set fl' \<or> told_by a \<subseteq> insert p known'"
    using log_okD(3) [OF assms(1) x [unfolded ma]] assms(2) [of a] assms(4,5) by blast
  with log_okD(1,2) [OF assms(1) x [unfolded ma]] show "case x of (m, ans) \<Rightarrow> m \<in> M - {p} \<and> member_answers M p D L fv k m ans
      \<and> (Answered ans \<in> set fl' \<or> told_by ans \<subseteq> insert p known')"
    by (simp add: ma)
next
  fix a assume "Answered a \<in> set fl'"
  with assms(1,3) show "a \<in> snd ` set log" by (auto simp: log_ok_def)
qed

definition searching ::
  "(bytes \<Rightarrow> bytes) \<Rightarrow> 'e link \<Rightarrow> network_node set \<Rightarrow> network_node \<Rightarrow> (endpoint \<rightharpoonup> 'e node) \<Rightarrow>
     (network_node \<Rightarrow> contents) \<Rightarrow> (network_node \<Rightarrow> network_node set) \<Rightarrow> bool \<Rightarrow> dht_key \<Rightarrow> network_node list \<Rightarrow> flight list \<Rightarrow>
     'e cluster round \<Rightarrow> bool"
where
  "searching sha link M p F D L fv k todo fl rd \<longleftrightarrow>
     member sha M p (fst (rd_state rd)) \<and> node_transport (fst (rd_state rd)) = Some (cluster_transport link p)
     \<and> L p \<subseteq> set (contacts (node_rt (fst (rd_state rd))))
     \<and> served sha M (M - {p}) D (\<lambda>m. L m \<union> (if m \<in> asked (rd_log rd) then {p} else {})) (snd (rd_state rd))
     \<and> set todo \<subseteq> M - {p} \<and> (\<forall>n. Calling n \<in> set fl \<longrightarrow> n \<in> M - {p}) \<and> set (rd_new rd) \<subseteq> M - {p}
     \<and> log_ok M p D L fv k (set (contacts (node_rt (fst (rd_state rd))))) fl (rd_log rd)
     \<and> (\<forall>x \<in> - (endpoint ` M). cl_nodes (snd (rd_state rd)) x = F x)"

lemma member_add_all:
  assumes M: "members_ok M" "m \<in> M" and "member sha M m n" and "set ns \<subseteq> M - {m}"
  obtains n' where "\<And>w. fold add_contact ns (n, w) = (n', w)" and "member sha M m n'"
    and "set (contacts (node_rt n')) = set ns \<union> set (contacts (node_rt n))"
    and "node_storage n' = node_storage n" and "node_transport n' = node_transport n"
  using assms(3,4)
proof (induction ns arbitrary: n thesis)
  case (Cons q ns)
  from member_add [OF M Cons.prems(2), of q] Cons.prems(3) obtain n1 where n1:
    "\<And>w. add_contact q (n, w) = (n1, w)" "member sha M m n1"
    "set (contacts (node_rt n1)) = insert q (set (contacts (node_rt n)))"
    "node_storage n1 = node_storage n" "node_transport n1 = node_transport n" by auto
  from Cons.IH [OF _ n1(2)] Cons.prems(3) obtain n2 where n2: "\<And>w. fold add_contact ns (n1, w) = (n2, w)"
    "member sha M m n2" "set (contacts (node_rt n2)) = set ns \<union> set (contacts (node_rt n1))"
    "node_storage n2 = node_storage n1" "node_transport n2 = node_transport n1" by auto
  show ?case
    by (rule Cons.prems(1) [of n2]) (use n1 n2 in auto)
qed auto

context delivering_link
begin

lemma cluster_transport_simps:
  "tr_ping (cluster_transport link p) t = deliver link p t Some (\<lambda>tr. tr_ping tr t)"
  "tr_store (cluster_transport link p) t k v = deliver link p t Some (\<lambda>tr. tr_store tr t k v)"
  "tr_find_node (cluster_transport link p) t k = deliver link p t Inl (\<lambda>tr. tr_find_node tr t k)"
  "tr_find_value (cluster_transport link p) t k = deliver link p t Inl (\<lambda>tr. tr_find_value tr t k)"
  "tr_fetch_blob (cluster_transport link p) t ref = deliver link p t Inl (\<lambda>tr. tr_fetch_blob tr t ref)"
  by (simp_all add: cluster_transport_def)

lemma cluster_well_behaved: "well_behaved (cluster_transport link p)"
  unfolding well_behaved_def
proof (intro allI)
  fix fv t k w
  have "no_nil (fst (tr_find_value (link p srv) t k s))" for srv s
    using link_well_behaved [of p srv, unfolded well_behaved_def, THEN spec, of True]
    by (cases s) (simp add: query_def)
  then have "no_nil r" if "tr_find_value (link p srv) t k s = (r, s')" for srv s r s'
    using that by (metis fst_conv)
  then show "no_nil (fst (query fv (cluster_transport link p) t k w))"
    by (auto simp: query_def cluster_transport_simps deliver_def link_find_node no_nil_def [of "Inl _"]
        no_nil_def [of "Inr (None, _)"] Let_def split: option.splits prod.splits)
qed

lemma query_member:
  assumes M: "members_ok M" "p \<in> M" "m \<in> M - {p}" and w: "served sha M (M - {p}) D L w"
    and q: "query fv (cluster_transport link p) m k w = (ans, w')"
  shows "member_answers M p D L fv k m ans" and "served sha M (M - {p}) D (L(m := insert p (L m))) w'"
proof -
  from w M(3) obtain n where n: "cl_nodes w (endpoint m) = Some n" "member sha M m n"
    "contents sha (node_storage n) = D m" "L m \<subseteq> set (contacts (node_rt n))" by (rule servedE)
  have m: "m \<in> M" "p \<in> M - {m}" using M by auto
  have inv: "node_inv sha n" using n(2) by (simp add: member_def)
  have st: "storage_inv sha (node_storage n)" using inv by (simp add: node_inv_def)
  from member_add [OF M(1) m(1) n(2) m(2)] obtain n1 where n1: "\<And>w. add_contact p (n, w) = (n1, w)" "member sha M m n1"
    "set (contacts (node_rt n1)) = insert p (set (contacts (node_rt n)))" "node_storage n1 = node_storage n" by metis
  have obs: "observePeer (Some p) (n, e) = (n1, e)" for e by (simp add: observePeer_def n1(1))
  let ?ns = "FindClosest (node_rt n1) k K"
  have ns: "insert p (L m) \<subseteq> set ?ns" "set ?ns \<subseteq> M - {m}" "distinct (ids ?ns)"
    using member_closest [OF M(1) m(1) n1(2), of k] n1(2,3) n(4) by (auto simp: member_def)
  define n2 where "n2 = n1\<lparr>node_storage := snd (storage_get (node_storage n) k)\<rparr>"
  have n2: "member sha M m n2" "contents sha (node_storage n2) = D m" "insert p (L m) \<subseteq> set (contacts (node_rt n2))"
    using n1 n(3,4) contents_get [OF st, of k] node_inv_storage [of sha n1] storage_get_spec(3) [OF st, of k]
    by (auto simp: n2_def member_def)
  note upd = served_update [OF w _ m(1) M(1), of _ "D m" "insert p (L m)"]
  have X: "insert m (M - {p}) = M - {p}" "M - {p} \<subseteq> M" using M(3) by auto
  show "member_answers M p D L fv k m ans"
  proof (cases fv)
    case True
    have "fst (D m) k = storage_view (node_storage n) k" using n(3) [symmetric] by (simp add: contents_def)
    with True q n(1) inv ns show ?thesis
      by (auto simp: query_def cluster_transport_simps deliver_def link_find_value obs member_answers_def Let_def
          split: option.splits prod.splits)
  next
    case False
    with q n(1) ns show ?thesis
      by (auto simp: query_def cluster_transport_simps deliver_def link_find_node obs member_answers_def Let_def)
  qed
  show "served sha M (M - {p}) D (L(m := insert p (L m))) w'"
  proof (cases fv)
    case True
    have "snd (OnFindValue (Some p) k (n, e)) = (n2, e)" for e
      by (simp add: OnFindValue_eq obs n2_def Let_def)
    with True q n(1) inv have "w' = \<lparr>cl_nodes = (cl_nodes w)(endpoint m \<mapsto> n2), cl_env = cl_env w\<rparr>"
      by (auto simp: query_def cluster_transport_simps deliver_def link_find_value Let_def)
    with upd [OF X(2) n2] show ?thesis by (simp add: X)
  next
    case False
    with q n(1) have "w' = \<lparr>cl_nodes = (cl_nodes w)(endpoint m \<mapsto> n1), cl_env = cl_env w\<rparr>"
      by (auto simp: query_def cluster_transport_simps deliver_def link_find_node obs Let_def)
    with upd [OF X(2) n1(2)] n1(3,4) n(3,4) show ?thesis by (auto simp: X)
  qed
qed

lemma query_elsewhere:
  assumes "query fv (cluster_transport link p) m k w = (ans, w')" and "x \<noteq> endpoint m"
  shows "cl_nodes w' x = cl_nodes w x"
  using assms by (auto simp: query_def cluster_transport_simps deliver_def Let_def split: if_splits option.splits prod.splits)

lemma searching_draw:
  "searching sha link M p F D L fv k todo fl rd \<Longrightarrow> searching sha link M p F D L fv k todo fl (snd (draw (cluster_env env) rd))"
proof -
  have "cl_nodes (snd (rd_state (snd (draw (cluster_env env) rd)))) = cl_nodes (snd (rd_state rd))"
    by (simp add: draw_def cluster_env_def split: prod.splits)
  then show "searching sha link M p F D L fv k todo fl rd \<Longrightarrow> ?thesis" by (auto simp: searching_def intro: served_cong)
qed

lemma searching_launch:
  "searching sha link M p F D L fv k (n # todo) fl rd \<Longrightarrow> searching sha link M p F D L fv k todo (fl @ [Calling n]) (launch_next n rd)"
  by (simp add: searching_def log_ok_def)

lemma searching_call:
  assumes M: "members_ok M" "p \<in> M"
    and step: "searching sha link M p F D L fv k todo fl rd" "j < length fl" "fl ! j = Calling n" "do_call fv k n rd = Done (ans, rd')"
  shows "searching sha link M p F D L fv k todo (fl[j := Answered ans]) rd'"
proof -
  have "Calling n \<in> set fl" using step(2,3) by (metis nth_mem)
  with step(1) have n: "n \<in> M - {p}" unfolding searching_def by blast
  obtain c w where s: "rd_state rd = (c, w)" by fastforce
  have tr: "node_transport c = Some (cluster_transport link p)" using step(1) s by (simp add: searching_def)
  obtain w' where q: "query fv (cluster_transport link p) n k w = (ans, w')"
    and rd': "rd' = rd\<lparr>rd_state := (c, w'), rd_log := rd_log rd @ [(n, ans)]\<rparr>"
    using step(4) by (auto simp: do_call_def s tr Let_def split: prod.splits)
  have served: "served sha M (M - {p}) D (\<lambda>m. L m \<union> (if m \<in> asked (rd_log rd) then {p} else {})) w"
    using step(1) s by (simp add: searching_def)
  note ans = query_member [OF M n served q]
  have keep: "Answered a \<in> set (fl[j := Answered ans])" if "Answered a \<in> set fl" for a
  proof -
    from that obtain i where "i < length fl" "fl ! i = Answered a" by (metis in_set_conv_nth)
    with step(3) have "fl[j := Answered ans] ! i = Answered a" by (cases "i = j") simp_all
    with \<open>i < length fl\<close> show ?thesis by (metis length_list_update nth_mem)
  qed
  have new: "Answered ans \<in> set (fl[j := Answered ans])" using step(2) by (rule set_update_memI)
  have old: "x \<in> set fl \<or> x = Answered ans" if "x \<in> set (fl[j := Answered ans])" for x
    using that set_update_subset_insert [of fl j "Answered ans"] by auto
  have w': "served sha M (M - {p}) D (\<lambda>m. L m \<union> (if m \<in> asked (rd_log rd') then {p} else {})) w'"
    by (rule served_mono [OF ans(2)]) (auto simp: rd' asked_def)
  have "member_answers M p D L fv k n ans" using ans(1) by (rule member_answers_mono) auto
  moreover have log: "log_ok M p D L fv k (set (contacts (node_rt c))) fl (rd_log rd)"
    using step(1) s by (simp add: searching_def)
  ultimately have "log_ok M p D L fv k (set (contacts (node_rt c))) (fl[j := Answered ans]) (rd_log rd @ [(n, ans)])"
    using old n by (intro log_ok_call [OF log keep new]) auto
  moreover have "n' \<in> M - {p}" if "Calling n' \<in> set (fl[j := Answered ans])" for n'
    using old [OF that] step(1) by (auto simp: searching_def)
  moreover have "cl_nodes w' x = F x" if "x \<notin> endpoint ` M" for x
  proof -
    have "x \<noteq> endpoint n" "cl_nodes w x = F x" using that n step(1) s by (auto simp: searching_def)
    with query_elsewhere [OF q] show ?thesis by simp
  qed
  ultimately show ?thesis
    using step(1) w' s unfolding searching_def rd' by simp
qed

lemma searching_answer:
  assumes "searching sha link M p F D L fv k todo fl rd" "j < length fl" "fl ! j = Answered ans"
  obtains m where "(m, ans) \<in> set (rd_log rd)" "m \<in> M - {p}" "member_answers M p D L fv k m ans"
proof -
  have "Answered ans \<in> set fl" using assms(2,3) by (metis nth_mem)
  moreover have log: "log_ok M p D L fv k (set (contacts (node_rt (fst (rd_state rd))))) fl (rd_log rd)"
    using assms(1) by (simp add: searching_def)
  ultimately obtain m where "(m, ans) \<in> set (rd_log rd)" unfolding log_ok_def by force
  with log_okD(1,2) [OF log this] show thesis by (intro that)
qed

lemma searching_absorb:
  assumes M: "members_ok M" "p \<in> M"
    and step: "searching sha link M p F D L fv k todo fl rd" "j < length fl" "fl ! j = Answered ans" "absorb ans rd = Done rd'"
  shows "searching sha link M p F D L fv k todo (remove_nth j fl) rd'"
proof -
  obtain c w where s: "rd_state rd = (c, w)" by fastforce
  have c: "member sha M p c" "node_transport c = Some (cluster_transport link p)"
    using step(1) s by (simp_all add: searching_def)
  have log: "log_ok M p D L fv k (set (contacts (node_rt c))) fl (rd_log rd)" using step(1) s by (simp add: searching_def)
  from searching_answer [OF step(1-3)] obtain m where ma: "m \<in> M - {p}" "member_answers M p D L fv k m ans" .
  have left: "Answered a \<in> set (remove_nth j fl) \<or> a = ans" if "Answered a \<in> set fl" for a
    using that set_remove_nth [OF step(2)] step(3) by auto
  have sub: "set (remove_nth j fl) \<subseteq> set fl" by (rule set_remove_nth_subset)
  show ?thesis
  proof (cases "if fv then fst (D m) k else None")
    case (Some v)
    then have ans: "ans = Inr (Some (norm_meta v), [])"
      using ma(2) unfolding member_answers_def by (simp only: option.case)
    then have "told_by ans = {}" by (simp add: told_by_def)
    then show ?thesis
      using log_ok_absorb [OF log left sub, of "set (contacts (node_rt c))"] step(1,4) sub s
      unfolding searching_def by (auto simp: absorb_def ans)
  next
    case None
    then obtain ns where ns: "ans = Inr (None, map Some ns)" "set ns \<subseteq> M - {m}"
      using ma(2) unfolding member_answers_def by (simp only: option.case) blast
    let ?l = "learned (nn_id p) (map Some ns)"
    have p: "node_self c = p" using c(1) by (simp add: member_def)
    have l: "set ?l = set ns - {p}"
      using ns(2) members_id [OF M(1) _ M(2)] by auto
    then have "set ?l \<subseteq> M - {p}" using ns(2) by auto
    from member_add_all [OF M c(1) this] obtain c' where c': "\<And>w. fold add_contact ?l (c, w) = (c', w)"
      "member sha M p c'" "set (contacts (node_rt c')) = set ?l \<union> set (contacts (node_rt c))"
      "node_transport c' = node_transport c" by metis
    have rd': "rd' = rd\<lparr>rd_state := (c', w), rd_new := rd_new rd @ filter (\<lambda>n. nn_id n \<notin> rd_visited rd) ?l\<rparr>"
      using step(4) by (auto simp: absorb_cases ns(1) s c'(1) p Let_def split: if_splits)
    have "told_by ans \<subseteq> insert p (set (contacts (node_rt c')))"
      using l c'(3) by (auto simp: told_by_def ns(1) inj_map_eq_map)
    moreover have "set (contacts (node_rt c)) \<subseteq> set (contacts (node_rt c'))" using c'(3) by blast
    ultimately have "log_ok M p D L fv k (set (contacts (node_rt c'))) (remove_nth j fl) (rd_log rd)"
      by (intro log_ok_absorb [OF log left sub])
    moreover have "set (filter (\<lambda>n. nn_id n \<notin> rd_visited rd) ?l) \<subseteq> M - {p}" using l ns(2) by auto
    ultimately show ?thesis
      using step(1) sub c' c(2) unfolding searching_def rd' s by auto
  qed
qed

lemma searching_round:
  assumes M: "members_ok M" "p \<in> M"
    and run: "run_round (cluster_env env) fv k todo [] rd = Done rd'"
    and start: "searching sha link M p F D L fv k todo [] rd"
  shows "searching sha link M p F D L fv k [] [] rd'"
  using run start
  by (rule run_round_invariant [where P = "searching sha link M p F D L fv k"])
    (rule searching_draw searching_launch searching_call [OF M] searching_absorb [OF M]; assumption)+

section \<open>A whole search\<close>

text \<open>Between two rounds, nothing is in flight.\<close>

lemma between_rounds:
  "searching sha link M p F D L fv k [] [] rd \<Longrightarrow> set todo \<subseteq> M - {p} \<Longrightarrow>
     searching sha link M p F D L fv k todo [] (round_start (rd_state rd) visited (rd_log rd))"
  by (simp add: searching_def)

lemma searching_loop:
  assumes M: "members_ok M" "p \<in> M"
    and run: "search_loop (cluster_env env) fv k closest visited log s = Done ((nodes, val, err), log', s')"
    and start: "searching sha link M p F D L fv k [] [] (round_start s visited log)" and closest: "set closest \<subseteq> M - {p}"
  shows "searching sha link M p F D L fv k [] [] (round_start s' {} log') \<and> set nodes \<subseteq> M - {p}
     \<and> set log \<subseteq> set log' \<and> set (to_query visited closest) \<subseteq> asked log'"
proof -
  have "searching sha link M p F D L fv k [] [] (round_start s' {} log') \<and> set nodes \<subseteq> M - {p}
     \<and> set log \<subseteq> set log' \<and> set (to_query visited closest) \<subseteq> asked log'"
    if "search_loop env' fv k closest visited log s = Done ((nodes, val, err), log', s')" "env' = cluster_env env"
      "searching sha link M p F D L fv k [] [] (round_start s visited log)" "set closest \<subseteq> M - {p}" for env'
    using that
  proof (induction env' fv k closest visited log s rule: search_loop.induct)
    case (1 env' fv k closest visited log s)
    let ?todo = "to_query visited closest"
    have ctx: "ctx_err env' (snd s) = None" using 1(3) by (simp add: cluster_env_def)
    have todo: "set ?todo \<subseteq> M - {p}" using set_to_query 1(5) by blast
    show ?case
    proof (cases "?todo = []")
      case True
      with 1(2,4,5) ctx show ?thesis by (auto simp: search_loop.simps searching_def)
    next
      case False
      with 1(2) ctx obtain rd
        where run: "run_round env' fv k ?todo [] (round_start s visited log) = Done rd"
          and rest: "(case rd_found rd of
                 Some v \<Rightarrow> Done (([], Some v, None), rd_log rd, rd_state rd)
               | None \<Rightarrow> search_loop env' fv k
                   (merge_closest (sort_ties env' (snd (rd_state rd))) k closest (rd_new rd))
                   (rd_visited rd) (rd_log rd) (rd_state rd)) = Done ((nodes, val, err), log', s')"
        by (auto simp: search_loop.simps [of env' fv k] round_start_def Let_def)
      have rd: "searching sha link M p F D L fv k [] [] rd"
        using searching_round [OF M, of env fv k ?todo "round_start s visited log" rd] run 1(3)
          between_rounds [OF 1(4) todo, of visited] by simp
      have log: "set log \<subseteq> set (rd_log rd)" using run_round_log_mono [OF run] by simp
      have "mset (map fst (rd_log rd)) = mset (map fst log) + mset ?todo" using run_round_log [OF run] by simp
      from arg_cong [OF this, of set_mset] have asked: "set ?todo \<subseteq> asked (rd_log rd)" by (auto simp: asked_def)
      show ?thesis
      proof (cases "rd_found rd")
        case (Some v)
        with rest between_rounds [OF rd, of "[]" "{}"] log asked show ?thesis by auto
      next
        case None
        let ?c = "merge_closest (sort_ties env' (snd (rd_state rd))) k closest (rd_new rd)"
        have "set ?c \<subseteq> M - {p}" using set_merge_closest rd 1(5) unfolding searching_def by blast
        moreover from None rest have "search_loop env' fv k ?c (rd_visited rd) (rd_log rd) (rd_state rd)
            = Done ((nodes, val, err), log', s')" by simp
        ultimately have "searching sha link M p F D L fv k [] [] (round_start s' {} log') \<and> set nodes \<subseteq> M - {p}
            \<and> set (rd_log rd) \<subseteq> set log'"
          using 1(1) [OF ctx refl False run [unfolded round_start_def] None _ 1(3)] between_rounds [OF rd, of "[]"] by auto
        moreover from this have "asked (rd_log rd) \<subseteq> asked log'" unfolding asked_def by (intro image_mono) blast
        ultimately show ?thesis using log asked by blast
      qed
    qed
  qed
  from this [OF run refl start closest] show ?thesis .
qed

lemma searching_start:
  assumes M: "members_ok M" "p \<in> M" and c: "member sha M p c" "node_transport c = Some (cluster_transport link p)"
    and L: "L p \<subseteq> set (contacts (node_rt c))" and w: "served sha M (M - {p}) D L w"
  shows "searching sha link M p (cl_nodes w) D L fv k [] [] (round_start (c, w) visited [])"
  using c L w by (simp add: searching_def asked_def)

text \<open>The caller's view of a whole search, when it knows someone.\<close>

lemma cluster_search:
  assumes M: "members_ok M" "p \<in> M" and c: "member sha M p c" "node_transport c = Some (cluster_transport link p)"
    and known: "contacts (node_rt c) \<noteq> []" and L: "L p \<subseteq> set (contacts (node_rt c))"
    and w: "served sha M (M - {p}) D L w"
  obtains nodes val err log c' w' where
    "iterativeSearch (cluster_env env) k fv (c, w) = Done ((nodes, val, err), log, c', w')"
    and "searching sha link M p (cl_nodes w) D L fv k [] [] (round_start (c', w') {} log)" and "set nodes \<subseteq> M - {p}"
    and "set (take Alpha (FindClosest (node_rt c) k K)) \<subseteq> asked log" and "evolves c c'"
    and "search_ends (cluster_env env) fv (nn_id p) (set (contacts (node_rt c))) k (nodes, val, err) log w'"
proof -
  have inv: "node_inv sha c" and p: "node_self c = p" using c(1) by (simp_all add: member_def)
  let ?closest = "FindClosest (node_rt c) k K"
  have "calls_ok (fst (c, w))" using c(2) cluster_well_behaved by (auto simp: calls_ok_def)
  from search_loop_Done [OF this] obtain r where
    r: "search_loop (cluster_env env) fv k ?closest {} [] (c, w) = Done r" by blast
  obtain nodes val err log c' w' where r': "r = ((nodes, val, err), log, c', w')" by (metis prod.collapse)
  have i: "iterativeSearch (cluster_env env) k fv (c, w) = Done ((nodes, val, err), log, c', w')"
    using r r' known by (simp add: iterativeSearch_eq [of sha] inv)
  have cl: "set ?closest \<subseteq> M - {p}" using set_FindClosest [of "node_rt c" k K] c(1) by (auto simp: member_def)
  have "to_query {} ?closest = take Alpha ?closest" by (simp add: to_query_def)
  with searching_loop [OF M r [unfolded r'] searching_start [OF M c L w] cl] iterativeSearch_ends [of sha "(c, w)", OF _ _ i] inv known
  show thesis by (intro that [OF i]) (auto simp: p)
qed

end

end
