(* ===== verification/Cluster_Replicas.thy ===== *)
theory Cluster_Replicas
  imports Cluster_Search
begin

text \<open>
  The replicas of a small cluster: a node with two contacts that know each other asks both in one
  round, and what their answers repeat leaves room for both among the \<open>StoreK\<close> targets of a store.
\<close>

section \<open>A round with two contacts\<close>

text \<open>
  Before \<open>y\<close> is marked as visited, only the answer of \<open>x\<close> can be absorbed, which may add \<open>y\<close> again.
\<close>

definition two_in_round :: "network_node \<Rightarrow> network_node \<Rightarrow> network_node list \<Rightarrow> flight list \<Rightarrow> 'w round \<Rightarrow> bool" where
  "two_in_round x y todo fl rd \<longleftrightarrow>
     rd_found rd = None
     \<and> ((todo = [x, y] \<and> fl = [] \<and> rd_new rd = [] \<and> rd_visited rd = {})
        \<or> (todo = [y] \<and> length fl = 1 \<and> rd_new rd = [] \<and> rd_visited rd = {nn_id x})
        \<or> (todo = [y] \<and> fl = [] \<and> rd_new rd \<in> {[], [y]} \<and> rd_visited rd = {nn_id x})
        \<or> (todo = [] \<and> rd_new rd \<in> {[], [y]} \<and> rd_visited rd = {nn_id x, nn_id y}))"

lemma subsingleton_list: "set xs \<subseteq> {y} \<Longrightarrow> distinct xs \<Longrightarrow> xs \<in> {[], [y]}"
  by (cases xs; cases "tl xs") auto

context delivering_link
begin

lemma two_absorb:
  assumes M: "members_ok M" "p \<in> M" and xy: "M - {p} = {x, y}" "x \<noteq> y"
    and s: "searching sha link M p F D L False k todo fl rd" "j < length fl" "fl ! j = Answered ans" "absorb ans rd = Done rd'"
    and two: "two_in_round x y todo fl rd"
  shows "two_in_round x y todo (remove_nth j fl) rd'"
proof -
  from searching_answer [OF s(1-3)] obtain m where m: "m \<in> M - {p}" "member_answers M p D L False k m ans" .
  then obtain ns where ns: "ans = Inr (None, map Some ns)" "set ns \<subseteq> M - {m}" "distinct (ids ns)"
    by (auto simp: member_answers_def)
  have p: "node_self (fst (rd_state rd)) = p" using s(1) by (simp add: searching_def member_def)
  let ?l = "learned (nn_id p) (map Some ns)" and ?new = "filter (\<lambda>n. nn_id n \<notin> rd_visited rd) (learned (nn_id p) (map Some ns))"
  have rd': "rd_found rd' = rd_found rd" "rd_visited rd' = rd_visited rd" "rd_new rd' = rd_new rd @ ?new"
    using s(4) by (auto simp: absorb_cases ns(1) p Let_def split: if_splits)
  have l: "set ?l \<subseteq> {x, y}"
  proof
    fix n assume n: "n \<in> set ?l"
    then have "n \<in> M" "n \<noteq> p" using ns(2) by auto
    with xy(1) show "n \<in> {x, y}" by blast
  qed
  have d: "distinct ?new" using ns(3) by (induction ns) (auto simp: distinct_map)
  have fl: "length (remove_nth j fl) = length fl - 1" using s(2) by (simp add: remove_nth_def)
  from two consider (one) "todo = [y]" "length fl = 1" "rd_new rd = []" "rd_visited rd = {nn_id x}"
    | (both) "todo = []" "rd_new rd \<in> {[], [y]}" "rd_visited rd = {nn_id x, nn_id y}"
    using s(2) by (auto simp: two_in_round_def)
  then show ?thesis
  proof cases
    case one
    then have "set ?new \<subseteq> {y}" using l unfolding set_filter by fastforce
    from subsingleton_list [OF this d] one rd' fl two show ?thesis
      by (auto simp: two_in_round_def)
  next
    case both
    then have "?new = []" using l by (auto simp: filter_empty_conv)
    with both rd' two show ?thesis by (auto simp: two_in_round_def)
  qed
qed

lemma two_round:
  assumes M: "members_ok M" "p \<in> M" and xy: "M - {p} = {x, y}" "x \<noteq> y"
    and run: "run_round (cluster_env env) False k [x, y] [] (round_start s {} []) = Done rd"
    and start: "searching sha link M p F D L False k [x, y] [] (round_start s {} [])"
  shows "rd_found rd = None" "rd_new rd \<in> {[], [y]}" "rd_visited rd = {nn_id x, nn_id y}"
proof -
  let ?P = "\<lambda>todo fl rd. searching sha link M p F D L False k todo fl rd \<and> two_in_round x y todo fl rd"
  have "?P [] [] rd"
    using run
  proof (induction rule: run_round_invariant [where P = ?P])
    case start
    show ?case using assms(6) by (simp add: two_in_round_def)
  next
    case (draw todo fl rd)
    then show ?case using searching_draw by (auto simp: two_in_round_def)
  next
    case (launch n todo fl rd)
    then show ?case using searching_launch by (auto simp: two_in_round_def launch_next_def insert_commute)
  next
    case (call todo fl rd j n ans rd')
    have "rd_found rd' = rd_found rd" "rd_new rd' = rd_new rd" "rd_visited rd' = rd_visited rd"
      using call(4) by (auto simp: do_call_def split: option.splits prod.splits)
    with call searching_call [OF M conjunct1 [OF call(1)] call(2-4)] show ?case by (auto simp: two_in_round_def)
  next
    case (absorb todo fl rd j ans rd')
    from searching_absorb [OF M conjunct1 [OF absorb(1)] absorb(2-4)]
      two_absorb [OF M xy conjunct1 [OF absorb(1)] absorb(2-4) conjunct2 [OF absorb(1)]] show ?case ..
  qed
  then show "rd_found rd = None" "rd_new rd \<in> {[], [y]}" "rd_visited rd = {nn_id x, nn_id y}"
    by (auto simp: two_in_round_def)
qed

text \<open>A lookup among three members therefore returns both others, with at most one of them twice.\<close>

lemma two_search:
  assumes M: "members_ok M" "p \<in> M" and card: "card (M - {p}) = 2"
    and c: "member sha M p c" "node_transport c = Some (cluster_transport link p)" "set (contacts (node_rt c)) = M - {p}"
    and L: "L p = M - {p}" and w: "served sha M (M - {p}) D L w"
    and run: "iterativeSearch (cluster_env env) k False (c, w) = Done ((nodes, val, err), r)"
  shows "set nodes = M - {p}" "length nodes \<le> StoreK"
proof -
  let ?closest = "FindClosest (node_rt c) k K"
  have inv: "node_inv sha c" using c(1) by (simp add: member_def)
  have cl: "set ?closest = M - {p}" "distinct (ids ?closest)" using member_closest [OF M c(1)] c(3) by simp_all
  then have "length ?closest = 2" using card by (simp add: distinct_card [symmetric] distinct_map)
  then obtain x y where xy: "?closest = [x, y]" by (auto simp: length_Suc_conv numeral_2_eq_2)
  with cl have set: "M - {p} = {x, y}" "x \<noteq> y" "nn_id x \<noteq> nn_id y" by auto
  have ne: "contacts (node_rt c) \<noteq> []" using set(1) c(3) by (metis insert_not_empty list.set(1))
  have loop: "search_loop (cluster_env env) False k [x, y] {} [] (c, w) = Done ((nodes, val, err), r)"
    using run ne by (simp add: iterativeSearch_eq [of sha] inv xy)
  have q: "to_query {} [x, y] = [x, y]" by (simp add: to_query_def Alpha_def)
  have ctx: "ctx_err (cluster_env env) w = None" for w by (simp add: cluster_env_def)
  from loop obtain rd where rd: "run_round (cluster_env env) False k [x, y] [] (round_start (c, w) {} []) = Done rd"
    and rest: "(case rd_found rd of
           Some v \<Rightarrow> Done (([], Some v, None), rd_log rd, rd_state rd)
         | None \<Rightarrow> search_loop (cluster_env env) False k
             (merge_closest (sort_ties (cluster_env env) (snd (rd_state rd))) k [x, y] (rd_new rd))
             (rd_visited rd) (rd_log rd) (rd_state rd)) = Done ((nodes, val, err), r)"
    by (auto simp: search_loop.simps [of "cluster_env env" False k "[x, y]"] round_start_def ctx q Let_def)
  have "L p \<subseteq> set (contacts (node_rt c))" using L c(3) by simp
  from between_rounds [OF searching_start [OF M c(1,2) this w, of False k "{}"], of "[x, y]" "{}"] set(1)
  have "searching sha link M p (cl_nodes w) D L False k [x, y] [] (round_start (c, w) {} [])" by simp
  note two = two_round [OF M set(1,2) rd this]
  let ?c = "merge_closest (sort_ties (cluster_env env) (snd (rd_state rd))) k [x, y] (rd_new rd)"
  have len: "length ?c \<le> 3" using two(2) by auto
  have "length ([x, y] @ rd_new rd) \<le> K" using two(2) by (auto simp: K_def)
  then have "set ?c = set ([x, y] @ rd_new rd)" by (simp add: merge_closest_eq)
  then have sc: "set ?c = {x, y}" using two(2) by auto
  then have "to_query {nn_id x, nn_id y} ?c = []" by (auto simp: to_query_def filter_empty_conv)
  with rest two(1,3) have "nodes = ?c" by (auto simp: search_loop.simps [of "cluster_env env" False k ?c] ctx)
  with sc set(1) len show "set nodes = M - {p}" "length nodes \<le> StoreK" by (simp_all add: StoreK_def)
qed

end

end
