(* ===== verification/Cluster_Map.thy ===== *)
theory Cluster_Map
  imports Cluster_Replicas
begin

text \<open>
  The operations of a cluster whose members know each other: it is a map from keys to values, of
  which each key is written once, readable and writable at every member.
\<close>

section \<open>The nearest member\<close>

definition nearest :: "dht_key \<Rightarrow> network_node set \<Rightarrow> network_node \<Rightarrow> bool" where
  "nearest k X a \<longleftrightarrow> a \<in> X \<and> (\<forall>b \<in> X. GetKeyDistance (nn_id a) k \<le> GetKeyDistance (nn_id b) k)"

lemma nearest_exists: "finite X \<Longrightarrow> X \<noteq> {} \<Longrightarrow> \<exists>a. nearest k X a"
  using ex_min_if_finite [of "(\<lambda>a. GetKeyDistance (nn_id a) k) ` X"] by (fastforce simp: nearest_def not_less)

lemma nearest_closer:
  assumes "nearest k X a" and "inj_on nn_id X" and "b \<in> X" and "GetKeyDistance (nn_id b) k \<le> GetKeyDistance (nn_id a) k"
  shows "b = a"
proof -
  have "GetKeyDistance (nn_id a) k = GetKeyDistance (nn_id b) k" using assms(1,3,4) by (auto simp: nearest_def intro: antisym)
  then have "nn_id a = nn_id b" by simp
  with assms show ?thesis by (auto simp: nearest_def dest: inj_onD)
qed

text \<open>The members of \<open>X\<close> that are nearer to a key than \<open>a\<close>.\<close>

definition rank :: "dht_key \<Rightarrow> network_node set \<Rightarrow> network_node \<Rightarrow> nat" where
  "rank k X a = card {b \<in> X. GetKeyDistance (nn_id b) k < GetKeyDistance (nn_id a) k}"

lemma rank_nearest:
  assumes "nearest k (M - {p}) a"
  shows "rank k (M - {q}) a < Alpha"
proof -
  have "{b \<in> M - {q}. GetKeyDistance (nn_id b) k < GetKeyDistance (nn_id a) k} \<subseteq> {p}"
    using assms by (auto simp: nearest_def not_less [symmetric])
  from card_mono [OF _ this] show ?thesis by (simp add: rank_def Alpha_def)
qed

lemma rank_small: "finite X \<Longrightarrow> a \<in> X \<Longrightarrow> rank k X a < card X"
  unfolding rank_def by (rule psubset_card_mono) auto

text \<open>A search begins with the contacts of the least ranks.\<close>

lemma rank_asked:
  assumes M: "members_ok M" "q \<in> M" and c: "member sha M q c" "set (contacts (node_rt c)) = M - {q}"
    and a: "a \<in> M - {q}" "rank k (M - {q}) a < n"
  shows "a \<in> set (take n (FindClosest (node_rt c) k K))"
proof -
  let ?L = "FindClosest (node_rt c) k K" and ?f = "\<lambda>n. GetKeyDistance (nn_id n) k"
  have L: "set ?L = M - {q}" "distinct (ids ?L)" "sorted (map ?f ?L)"
    using member_closest [OF M c(1)] c(2) by (simp_all add: sorted_FindClosest)
  from a(1) L(1) obtain i where i: "i < length ?L" "?L ! i = a" by (metis in_set_conv_nth)
  have "?f (?L ! j) < ?f a" if "j < i" for j
  proof -
    have "?f (?L ! j) \<le> ?f a" using L(3) that i by (auto simp: sorted_iff_nth_mono dest: spec)
    moreover have "nn_id (?L ! j) \<noteq> nn_id a"
      using nth_eq_iff_index_eq [OF L(2), of j i] that i by simp
    ultimately show ?thesis by (simp add: order_less_le)
  qed
  then have "\<forall>b \<in> set (take i ?L). ?f b < ?f a" using i(1) by (auto simp: in_set_conv_nth)
  then have "set (take i ?L) \<subseteq> {b \<in> M - {q}. ?f b < ?f a}" using L(1) set_take_subset [of i ?L] by blast
  from card_mono [OF _ this] have "card (set (take i ?L)) \<le> rank k (M - {q}) a"
    using members_others(1) [OF M] by (simp add: rank_def)
  moreover have "distinct (take i ?L)" using L(2) by (simp add: distinct_map)
  ultimately have "i < n" using i(1) a(2) by (simp add: distinct_card)
  with i show ?thesis by (auto simp: in_set_conv_nth intro!: exI [of _ i])
qed

section \<open>Running an operation at a member\<close>

lemma member_with_transport [simp]: "member sha M m (with_transport tr n) = member sha M m n"
  by (simp add: member_def)

text \<open>A cluster: every member is served, holds \<open>D\<close> and knows \<open>L\<close>.\<close>

abbreviation cluster ::
  "(bytes \<Rightarrow> bytes) \<Rightarrow> network_node set \<Rightarrow> (network_node \<Rightarrow> contents) \<Rightarrow> (network_node \<Rightarrow> network_node set) \<Rightarrow>
     'e cluster \<Rightarrow> bool"
where
  "cluster sha M D L w \<equiv> served sha M M D L w"

text \<open>Every member knows every other.\<close>

abbreviation complete ::
  "(bytes \<Rightarrow> bytes) \<Rightarrow> network_node set \<Rightarrow> (network_node \<Rightarrow> contents) \<Rightarrow> 'e cluster \<Rightarrow> bool" where
  "complete sha M D w \<equiv> cluster sha M D (\<lambda>m. M - {m}) w"

lemma take_out:
  assumes M: "members_ok M" "p \<in> M" and w: "cluster sha M D L w"
  obtains c where "cl_nodes w (endpoint p) = Some c" and "node_self c = p"
    and "member sha M p (with_transport tr c)" and "contents sha (node_storage c) = D p"
    and "L p \<subseteq> set (contacts (node_rt c))"
    and "served sha M (M - {p}) D L (w\<lparr>cl_nodes := (cl_nodes w)(endpoint p := None)\<rparr>)"
proof -
  from w M(2) obtain c where c: "cl_nodes w (endpoint p) = Some c" "member sha M p c"
    "contents sha (node_storage c) = D p" "L p \<subseteq> set (contacts (node_rt c))" by (rule servedE)
  have "endpoint m \<noteq> endpoint p" if "m \<in> M - {p}" for m
    using members_others(5) [OF M, of m] that by auto
  then have "served sha M (M - {p}) D L (w\<lparr>cl_nodes := (cl_nodes w)(endpoint p := None)\<rparr>)"
    using w by (simp add: served_def)
  moreover have "node_self c = p" using c(2) by (simp add: member_def)
  ultimately show thesis using c by (intro that [of c]) simp_all
qed

lemma put_back:
  assumes M: "members_ok M" "p \<in> M" and w: "served sha M (M - {p}) D L w"
    and c: "member sha M p c" "contents sha (node_storage c) = d" "l \<subseteq> set (contacts (node_rt c))"
  shows "cluster sha M (D(p := d)) (L(p := l)) (w\<lparr>cl_nodes := (cl_nodes w)(endpoint p \<mapsto> with_transport far c)\<rparr>)"
proof -
  have "insert p (M - {p}) = M" using M(2) by auto
  then have "cluster sha M (D(p := d)) (L(p := l))
      \<lparr>cl_nodes = (cl_nodes w)(endpoint p \<mapsto> with_transport far c), cl_env = cl_env w\<rparr>"
    using served_update [OF w _ M(2,1), of "with_transport far c" d l "cl_env w"] c by simp
  then show ?thesis by (rule served_cong) simp
qed

section \<open>Storing at the targets\<close>

definition with_value :: "dht_key \<Rightarrow> value_meta \<Rightarrow> contents \<Rightarrow> contents" where
  "with_value k v d = ((fst d)(k \<mapsto> v), snd d)"

lemma with_value_again [simp]: "with_value k v (with_value k v d) = with_value k v d"
  by (simp add: with_value_def)

context delivering_link
begin

lemma store_member:
  assumes M: "members_ok M" "p \<in> M" "t \<in> M - {p}" and w: "served sha M (M - {p}) D L w"
    and q: "tr_store (cluster_transport link p) t k v w = (err, w')"
  shows "err = None" and "served sha M (M - {p}) (D(t := with_value k (norm_meta v) (D t))) L w'"
proof -
  from w M(3) obtain n where n: "cl_nodes w (endpoint t) = Some n" "member sha M t n"
    "contents sha (node_storage n) = D t" "L t \<subseteq> set (contacts (node_rt n))" by (rule servedE)
  have t: "t \<in> M" "p \<in> M - {t}" using M by auto
  have inv: "node_inv sha n" using n(2) by (simp add: member_def)
  have st: "storage_inv sha (node_storage n)" using inv by (simp add: node_inv_def)
  from member_add [OF M(1) t(1) n(2) t(2)] obtain n1 where n1: "\<And>w. add_contact p (n, w) = (n1, w)" "member sha M t n1"
    "set (contacts (node_rt n1)) = insert p (set (contacts (node_rt n)))" "node_storage n1 = node_storage n" by metis
  have obs: "observePeer (Some p) (n, e) = (n1, e)" for e by (simp add: observePeer_def n1(1))
  define n2 where "n2 = n1\<lparr>node_storage := storage_put (node_storage n) k (norm_meta v)\<rparr>"
  have n2: "member sha M t n2" "contents sha (node_storage n2) = with_value k (norm_meta v) (D t)"
    "L t \<subseteq> set (contacts (node_rt n2))"
    using n1 n(4) contents_put [OF st, of k v] n(3) node_inv_storage [of sha n1] storage_put_spec(2) [OF st]
    by (auto simp: n2_def member_def with_value_def)
  have "snd (OnStore (Some p) k (norm_meta v) (n, e)) = (n2, e)" for e
    by (simp add: OnStore_eq obs n2_def)
  with q n(1) have r: "err = None" "w' = \<lparr>cl_nodes = (cl_nodes w)(endpoint t \<mapsto> n2), cl_env = cl_env w\<rparr>"
    by (auto simp: cluster_transport_simps deliver_def link_store Let_def)
  have X: "insert t (M - {p}) = M - {p}" "M - {p} \<subseteq> M" using M(3) by auto
  show "err = None" by (rule r(1))
  show "served sha M (M - {p}) (D(t := with_value k (norm_meta v) (D t))) L w'"
    using served_update [OF w X(2) t(1) M(1) n2, of "cl_env w"] by (simp add: X r(2))
qed

lemma store_members:
  assumes M: "members_ok M" "p \<in> M" and targets: "set targets \<subseteq> M - {p}" and w: "served sha M (M - {p}) D L w"
    and q: "store_all (cluster_env env) (cluster_transport link p) k v targets sent w = (sent', w')"
  shows "served sha M (M - {p}) (\<lambda>m. if m \<in> set targets then with_value k (norm_meta v) (D m) else D m) L w'"
proof -
  have "served sha M (M - {p}) (\<lambda>m. if m \<in> set targets then with_value k (norm_meta v) (D m) else D m) L w'"
    if "store_all env' tr k v targets sent w = (sent', w')" "env' = cluster_env env" "tr = cluster_transport link p"
      "set targets \<subseteq> M - {p}" "served sha M (M - {p}) D L w" for env' tr
    using that
  proof (induction env' tr k v targets sent w arbitrary: D rule: store_all.induct)
    case (1 env' tr k v targets sent w)
    show ?case
    proof (cases "targets = []")
      case True
      with 1 show ?thesis by (simp add: store_all.simps)
    next
      case False
      obtain i w1 where i: "sched env' w = (i, w1)" by fastforce
      let ?j = "i mod length targets"
      let ?t = "targets ! ?j"
      have j: "?j < length targets" using False by simp
      obtain err w2 where s: "tr_store tr ?t k v w1 = (err, w2)" by fastforce
      have rest: "store_all env' tr k v (remove_nth ?j targets) (sent @ [(?t, err)]) w2 = (sent', w')"
        using 1(2) False i s by (simp add: store_all.simps [of env' tr k v targets] Let_def)
      have "cl_nodes w1 = cl_nodes w" using i 1(3) by (auto simp: cluster_env_def split: prod.splits)
      then have w1: "served sha M (M - {p}) D L w1" using served_cong [OF 1(6)] by blast
      have t: "?t \<in> M - {p}" using 1(5) nth_mem [OF j] by blast
      let ?D = "D(?t := with_value k (norm_meta v) (D ?t))"
      have "served sha M (M - {p}) ?D L w2" using store_member(2) [OF M t w1] s 1(4) by simp
      from 1(1) [OF False i [symmetric] refl refl s [symmetric] refl rest 1(3,4) _ this] set_remove_nth_subset [of ?j targets] 1(5)
      have "served sha M (M - {p}) (\<lambda>m. if m \<in> set (remove_nth ?j targets) then with_value k (norm_meta v) (?D m) else ?D m) L w'"
        by blast
      moreover have "(if m \<in> set (remove_nth ?j targets) then with_value k (norm_meta v) (?D m) else ?D m)
          = (if m \<in> set targets then with_value k (norm_meta v) (D m) else D m)" for m
        using set_remove_nth [OF j] set_remove_nth_subset [of ?j targets] nth_mem [OF j] by auto
      ultimately show ?thesis by simp
    qed
  qed
  from this [OF q refl refl targets w] show ?thesis .
qed

section \<open>Looking up, storing and finding\<close>

lemma told_value_member:
  assumes "searching sha link M p F D L fv k [] [] (round_start s visited log)" and "told_value log v"
  shows "\<exists>m \<in> M - {p}. \<exists>v'. fv \<and> fst (D m) k = Some v' \<and> v = norm_meta v'"
proof -
  from assms(2) obtain m res where mem: "(m, Inr (Some v, res)) \<in> set log" by (auto simp: told_value_def)
  have log: "log_ok M p D L fv k (set (contacts (node_rt (fst s)))) [] log" using assms(1) by (simp add: searching_def)
  note ans = log_okD(1,2) [OF log mem]
  show ?thesis
  proof (cases "if fv then fst (D m) k else None")
    case None
    with ans(2) show ?thesis unfolding member_answers_def by (simp only: option.case) auto
  next
    case (Some v')
    with ans(2) have "v = norm_meta v'" unfolding member_answers_def by (simp only: option.case) auto
    with ans(1) Some show ?thesis by (auto split: if_splits)
  qed
qed

lemma cluster_lookup:
  assumes M: "members_ok M" "p \<in> M" "M \<noteq> {p}" and c: "member sha M p c" "node_transport c = Some (cluster_transport link p)"
    and L: "L p = M - {p}" "set (contacts (node_rt c)) = M - {p}" and w: "served sha M (M - {p}) D L w"
  obtains nodes log c' w' where
    "LookupNode (cluster_env env) k (c, w) = Done ((nodes, None), log, c', w')"
    and "searching sha link M p (cl_nodes w) D L False k [] [] (round_start (c', w') {} log)" and "set nodes \<subseteq> M - {p}"
    and "nodes \<noteq> []" and "nearest k (M - {p}) (hd nodes)" and "evolves c c'"
proof -
  have ne: "M - {p} \<noteq> {}" using M(2,3) by blast
  have "contacts (node_rt c) \<noteq> []" using L(2) ne by (metis list.set(1))
  have "L p \<subseteq> set (contacts (node_rt c))" using L by simp
  from cluster_search [OF M(1,2) c \<open>contacts (node_rt c) \<noteq> []\<close> this w, where env = env and k = k and fv = False]
  obtain nodes val err log c' w' where
    i: "iterativeSearch (cluster_env env) k False (c, w) = Done ((nodes, val, err), log, c', w')"
    and s: "searching sha link M p (cl_nodes w) D L False k [] [] (round_start (c', w') {} log)" and nodes: "set nodes \<subseteq> M - {p}"
    and "set (take Alpha (FindClosest (node_rt c) k K)) \<subseteq> asked log" and ev: "evolves c c'"
    and ends: "search_ends (cluster_env env) False (nn_id p) (set (contacts (node_rt c))) k (nodes, val, err) log w'" .
  have "\<not> told_value log v" for v using told_value_member [OF s] by blast
  moreover have "ctx_err (cluster_env env) w' = None" by (simp add: cluster_env_def)
  ultimately have si: "search_inv (nn_id p) (M - {p}) k nodes (nn_id ` fst ` set log) log" and err: "err = None"
    using ends unfolding search_ends_def L(2) case_prod_conv by (elim disjE exE conjE; simp)+
  from nearest_exists [OF _ ne] M(1) obtain a where a: "nearest k (M - {p}) a" by (auto simp: members_ok_def)
  then have "a \<in> heard (nn_id p) (M - {p}) log" by (simp add: heard_def nearest_def)
  with si have cov: "covered k nodes (nn_id a)" by (simp add: search_inv_def)
  then have ne_nodes: "nodes \<noteq> []" by (auto simp: covered_def K_def)
  have "GetKeyDistance (nn_id (hd nodes)) k \<le> GetKeyDistance (nn_id n) k" if "n \<in> set nodes" for n
  proof -
    have "sorted (map (\<lambda>n. GetKeyDistance (nn_id n) k) nodes)" using si by (simp add: search_inv_def)
    with ne_nodes that show ?thesis by (cases nodes) auto
  qed
  with cov ne_nodes have "GetKeyDistance (nn_id (hd nodes)) k \<le> GetKeyDistance (nn_id a) k"
    by (auto simp: covered_def)
  moreover have "hd nodes \<in> M - {p}" using hd_in_set [OF ne_nodes] nodes by blast
  ultimately have "hd nodes = a"
    using nearest_closer [OF a] M(1) by (auto simp: members_ok_def intro: inj_on_subset)
  with i s nodes ne_nodes a ev err show thesis
    by (intro that [of nodes log c' w']) (simp_all add: LookupNode_def)
qed

lemma member_stores:
  assumes M: "members_ok M" "p \<in> M" "M \<noteq> {p}" and c: "member sha M p c" "node_transport c = Some (cluster_transport link p)"
    and known: "M - {p} \<subseteq> set (contacts (node_rt c))" and w: "served sha M (M - {p}) D (\<lambda>m. M - {m}) w"
  obtains targets sent c' w' where "StoreValue (cluster_env env) k v (c, w) = Done (None, sent, c', w')"
    and "set targets \<subseteq> M - {p}" and "nearest k (M - {p}) (hd targets)" and "targets \<noteq> []"
    and "served sha M (M - {p}) (\<lambda>m. if m \<in> set targets then with_value k (norm_meta v) (D m) else D m) (\<lambda>m. M - {m}) w'"
    and "member sha M p c'" and "M - {p} \<subseteq> set (contacts (node_rt c'))" and "evolves c c'"
    and "card (M - {p}) \<le> 2 \<longrightarrow> set targets = M - {p}"
proof -
  have all_known: "set (contacts (node_rt c)) = M - {p}" using c(1) known by (auto simp: member_def)
  from cluster_lookup [OF M c refl this w] obtain nodes log c' w1 where
    look: "LookupNode (cluster_env env) k (c, w) = Done ((nodes, None), log, c', w1)"
    and s: "searching sha link M p (cl_nodes w) D (\<lambda>m. M - {m}) False k [] [] (round_start (c', w1) {} log)"
    and nodes: "set nodes \<subseteq> M - {p}" "nodes \<noteq> []" "nearest k (M - {p}) (hd nodes)" and ev: "evolves c c'" .
  have c': "member sha M p c'" "node_transport c' = Some (cluster_transport link p)" "M - {p} \<subseteq> set (contacts (node_rt c'))"
    and "served sha M (M - {p}) D (\<lambda>m. M - {m} \<union> (if m \<in> asked log then {p} else {})) w1"
    using s by (simp_all add: searching_def)
  then have w1: "served sha M (M - {p}) D (\<lambda>m. M - {m}) w1" by (auto elim: served_mono)
  let ?targets = "take StoreK nodes"
  obtain sent w2 where all: "store_all (cluster_env env) (cluster_transport link p) k v ?targets [] w1 = (sent, w2)" by fastforce
  have t: "?targets \<noteq> []" "hd ?targets = hd nodes" "set ?targets \<subseteq> M - {p}"
    using nodes set_take_subset [of StoreK nodes] by (auto simp: StoreK_def)
  have "StoreValue (cluster_env env) k v (c, w) = Done (None, sent, c', w2)"
    using look all nodes(2) t(1) c'(2) by (cases "StoreK < length nodes") (simp_all add: StoreValue_def Let_def)
  moreover have "set ?targets = M - {p}" if small: "card (M - {p}) \<le> 2"
  proof (cases "card (M - {p}) = 2")
    case True
    from look obtain val where "iterativeSearch (cluster_env env) k False (c, w) = Done ((nodes, val, None), log, c', w1)"
      by (auto simp: LookupNode_def)
    from two_search [OF M(1,2) True c all_known refl w this] show ?thesis by simp
  next
    case False
    have "finite (M - {p})" using M(1) by (simp add: members_ok_def)
    moreover have "M - {p} \<noteq> {}" using M(2,3) by blast
    ultimately have "card (M - {p}) = 1" using small False by (metis One_nat_def Suc_1 card_0_eq le_SucE le_zero_eq)
    then obtain x where "M - {p} = {x}" by (rule card_1_singletonE)
    with t(1,3) show ?thesis by (metis set_empty subset_singletonD)
  qed
  moreover note store_members [OF M(1,2) t(3) w1 all]
  ultimately show thesis using nodes(3) t c'(1,3) ev by (intro that [of sent c' w2 ?targets]) simp_all
qed

lemma cluster_store:
  assumes M: "members_ok M" "p \<in> M" "M \<noteq> {p}" and w: "complete sha M D w"
  obtains targets w' where "store_at far link env k v p w = Done (None, w')" and "set targets \<subseteq> M - {p}"
    and "nearest k (M - {p}) (hd targets)" and "targets \<noteq> []"
    and "complete sha M (\<lambda>m. if m \<in> set targets then with_value k (norm_meta v) (D m) else D m) w'"
    and "card (M - {p}) \<le> 2 \<longrightarrow> set targets = M - {p}"
proof -
  from take_out [OF M(1,2) w] obtain c where c: "cl_nodes w (endpoint p) = Some c" "node_self c = p"
    "member sha M p (with_transport (cluster_transport link p) c)" "contents sha (node_storage c) = D p"
    "M - {p} \<subseteq> set (contacts (node_rt c))"
    "served sha M (M - {p}) D (\<lambda>m. M - {m}) (w\<lparr>cl_nodes := (cl_nodes w)(endpoint p := None)\<rparr>)" .
  have "node_transport (with_transport (cluster_transport link p) c) = Some (cluster_transport link p)"
    "M - {p} \<subseteq> set (contacts (node_rt (with_transport (cluster_transport link p) c)))" using c(5) by simp_all
  from member_stores [OF M c(3) this c(6), where env = env and k = k and v = v] obtain targets sent c' w' where
    s: "StoreValue (cluster_env env) k v (with_transport (cluster_transport link p) c,
        w\<lparr>cl_nodes := (cl_nodes w)(endpoint p := None)\<rparr>) = Done (None, sent, c', w')"
    and t: "set targets \<subseteq> M - {p}" "nearest k (M - {p}) (hd targets)" "targets \<noteq> []"
    and w': "served sha M (M - {p}) (\<lambda>m. if m \<in> set targets then with_value k (norm_meta v) (D m) else D m) (\<lambda>m. M - {m}) w'"
    and c': "member sha M p c'" "M - {p} \<subseteq> set (contacts (node_rt c'))"
    and ev: "evolves (with_transport (cluster_transport link p) c) c'"
    and few: "card (M - {p}) \<le> 2 \<longrightarrow> set targets = M - {p}" .
  have "contents sha (node_storage c') = (if p \<in> set targets then with_value k (norm_meta v) (D p) else D p)"
    using evolves_fields(2) [OF ev] c(4) t(1) by auto
  from put_back [OF M(1,2) w' c'(1) this c'(2)] s t few show thesis
    by (intro that [of _ targets]) (simp_all add: store_at_def run_at_def c(1,2) Let_def fun_upd_idem)
qed

lemma member_finds:
  assumes M: "members_ok M" "q \<in> M" "M \<noteq> {q}" and c: "member sha M q c" "node_transport c = Some (cluster_transport link q)"
    and d: "contents sha (node_storage c) = D q"
    and known: "M - {q} \<subseteq> set (contacts (node_rt c))" and w: "served sha M (M - {q}) D (\<lambda>m. M - {m}) w"
  obtains val err log c' w' where "FindValue (cluster_env env) k (c, w) = Done ((val, err), log, c', w')"
    and "served sha M (M - {q}) D (\<lambda>m. M - {m}) w'" and "member sha M q c'" and "contents sha (node_storage c') = D q"
    and "M - {q} \<subseteq> set (contacts (node_rt c'))" and "node_transport c' = Some (cluster_transport link q)"
    and "val = None \<longleftrightarrow> err = Some ErrNotFound" and "val \<noteq> None \<longleftrightarrow> err = None"
    and "\<forall>v. val = Some v \<longrightarrow> fst (D q) k = Some v \<or> (\<exists>m \<in> M. \<exists>v'. fst (D m) k = Some v' \<and> v = norm_meta v')"
    and "\<forall>v. fst (D q) k = Some v \<longrightarrow> val = Some v"
    and "\<forall>a. a \<in> M - {q} \<longrightarrow> rank k (M - {q}) a < Alpha \<longrightarrow> fst (D a) k \<noteq> None \<longrightarrow> val \<noteq> None"
proof -
  have inv: "node_inv sha c" using c(1) by (simp add: member_def)
  then have st: "storage_inv sha (node_storage c)" by (simp add: node_inv_def)
  obtain val st' where get: "storage_get (node_storage c) k = (val, st')" by fastforce
  then have val: "val = fst (D q) k" using storage_get_spec(1) [OF st, of k] d [symmetric] by (simp add: contents_def)
  define c0 where "c0 = c\<lparr>node_storage := st'\<rparr>"
  have sub: "set (contacts (node_rt c)) = M - {q}" using c(1) known by (auto simp: member_def)
  have c0: "member sha M q c0" "node_transport c0 = Some (cluster_transport link q)" "set (contacts (node_rt c0)) = M - {q}"
    "contents sha (node_storage c0) = D q"
    using c d sub contents_get [OF st, of k] node_inv_storage [OF inv storage_get_spec(3) [OF st, of k]] get
    by (auto simp: c0_def member_def)
  show thesis
  proof (cases "fst (D q) k")
    case (Some v)
    have "FindValue (cluster_env env) k (c, w) = Done ((Some v, None), [], c0, w)"
      using get val Some by (simp add: FindValue_def c0_def Let_def)
    then show thesis
      using w c0(1,2,4) c0(3) Some by (intro that; simp) fastforce+
  next
    case None
    have "M - {q} \<noteq> {}" using M(2,3) by blast
    then have ne: "contacts (node_rt c0) \<noteq> []" using c0(3) by (metis list.set(1))
    have "M - {q} \<subseteq> set (contacts (node_rt c0))" using c0(3) by simp
    from cluster_search [OF M(1,2) c0(1,2) ne this w, where env = env and k = k and fv = True]
    obtain nodes val err log c' w' where
      i: "iterativeSearch (cluster_env env) k True (c0, w) = Done ((nodes, val, err), log, c', w')"
      and s: "searching sha link M q (cl_nodes w) D (\<lambda>m. M - {m}) True k [] [] (round_start (c', w') {} log)"
      and "set nodes \<subseteq> M - {q}"
      and near: "set (take Alpha (FindClosest (node_rt c0) k K)) \<subseteq> asked log" and ev: "evolves c0 c'"
      and ends: "search_ends (cluster_env env) True (nn_id q) (set (contacts (node_rt c0))) k (nodes, val, err) log w'" .
    have c': "member sha M q c'" "M - {q} \<subseteq> set (contacts (node_rt c'))"
      and log: "log_ok M q D (\<lambda>m. M - {m}) True k (set (contacts (node_rt c'))) [] log"
      and "served sha M (M - {q}) D (\<lambda>m. M - {m} \<union> (if m \<in> asked log then {q} else {})) w'"
      using s by (simp_all add: searching_def)
    then have w': "served sha M (M - {q}) D (\<lambda>m. M - {m}) w'" by (auto elim: served_mono)
    have r: "FindValue (cluster_env env) k (c, w) = Done ((val, err), log, c', w')"
      using get val None i by (simp add: FindValue_def c0_def Let_def)
    have "contents sha (node_storage c') = D q" "node_transport c' = Some (cluster_transport link q)"
      using evolves_fields(2,3) [OF ev] c0(2,4) by simp_all
    note keeps = w' c'(1) this(1) c'(2) this(2)
    show thesis
    proof (rule that [OF r keeps])
      show "val = None \<longleftrightarrow> err = Some ErrNotFound" "val \<noteq> None \<longleftrightarrow> err = None"
        using ends by (auto simp: search_ends_def cluster_env_def)
      have "fst (D q) k = Some v \<or> (\<exists>m \<in> M. \<exists>v'. fst (D m) k = Some v' \<and> v = norm_meta v')" if "val = Some v" for v
      proof -
        have "told_value log v" using ends that by (auto simp: search_ends_def)
        with told_value_member [OF s] show ?thesis by blast
      qed
      then show "\<forall>v. val = Some v \<longrightarrow> fst (D q) k = Some v \<or> (\<exists>m \<in> M. \<exists>v'. fst (D m) k = Some v' \<and> v = norm_meta v')"
        by blast
      show "\<forall>v. fst (D q) k = Some v \<longrightarrow> val = Some v" using None by simp
      have "val \<noteq> None" if a: "a \<in> M - {q}" "rank k (M - {q}) a < Alpha" "fst (D a) k \<noteq> None" for a
      proof -
        from rank_asked [OF M(1,2) c0(1,3) a(1,2)] near have "a \<in> asked log" by blast
        then obtain ans where mem: "(a, ans) \<in> set log" by (auto simp: asked_def)
        obtain v where "fst (D a) k = Some v" using a(3) by blast
        with log_okD(2) [OF log mem] have "told_value log (norm_meta v)"
          using mem by (auto simp: member_answers_def told_value_def)
        with ends show ?thesis by (auto simp: search_ends_def search_inv_def)
      qed
      then show "\<forall>a. a \<in> M - {q} \<longrightarrow> rank k (M - {q}) a < Alpha \<longrightarrow> fst (D a) k \<noteq> None \<longrightarrow> val \<noteq> None" by blast
    qed
  qed
qed

lemma cluster_find:
  assumes M: "members_ok M" "q \<in> M" "M \<noteq> {q}" and w: "complete sha M D w"
  obtains val err w' where "find_at far link env k q w = Done ((val, err), w')" and "complete sha M D w'"
    and "val = None \<longleftrightarrow> err = Some ErrNotFound" and "val \<noteq> None \<longleftrightarrow> err = None"
    and "\<And>v. val = Some v \<Longrightarrow> fst (D q) k = Some v \<or> (\<exists>m \<in> M. \<exists>v'. fst (D m) k = Some v' \<and> v = norm_meta v')"
    and "\<And>v. fst (D q) k = Some v \<Longrightarrow> val = Some v"
    and "\<And>a. a \<in> M - {q} \<Longrightarrow> rank k (M - {q}) a < Alpha \<Longrightarrow> fst (D a) k \<noteq> None \<Longrightarrow> val \<noteq> None"
proof -
  let ?w0 = "w\<lparr>cl_nodes := (cl_nodes w)(endpoint q := None)\<rparr>"
  from take_out [OF M(1,2) w] obtain c where c: "cl_nodes w (endpoint q) = Some c" "node_self c = q"
    "member sha M q (with_transport (cluster_transport link q) c)" "contents sha (node_storage c) = D q"
    "M - {q} \<subseteq> set (contacts (node_rt c))" "served sha M (M - {q}) D (\<lambda>m. M - {m}) ?w0" .
  have c0: "node_transport (with_transport (cluster_transport link q) c) = Some (cluster_transport link q)"
    "contents sha (node_storage (with_transport (cluster_transport link q) c)) = D q"
    "M - {q} \<subseteq> set (contacts (node_rt (with_transport (cluster_transport link q) c)))" using c(4,5) by simp_all
  from member_finds [OF M c(3) c0 c(6), where env = env and k = k] obtain val err log c' w' where
    f: "FindValue (cluster_env env) k (with_transport (cluster_transport link q) c, ?w0) = Done ((val, err), log, c', w')"
    and w': "served sha M (M - {q}) D (\<lambda>m. M - {m}) w'" and c': "member sha M q c'" "contents sha (node_storage c') = D q"
      "M - {q} \<subseteq> set (contacts (node_rt c'))"
    and "node_transport c' = Some (cluster_transport link q)"
    and facts: "val = None \<longleftrightarrow> err = Some ErrNotFound" "val \<noteq> None \<longleftrightarrow> err = None"
      "\<forall>v. val = Some v \<longrightarrow> fst (D q) k = Some v \<or> (\<exists>m \<in> M. \<exists>v'. fst (D m) k = Some v' \<and> v = norm_meta v')"
      "\<forall>v. fst (D q) k = Some v \<longrightarrow> val = Some v"
      "\<forall>a. a \<in> M - {q} \<longrightarrow> rank k (M - {q}) a < Alpha \<longrightarrow> fst (D a) k \<noteq> None \<longrightarrow> val \<noteq> None" .
  have "find_at far link env k q w
      = Done ((val, err), w'\<lparr>cl_nodes := (cl_nodes w')(endpoint q \<mapsto> with_transport far c')\<rparr>)"
    using f by (simp add: find_at_def run_at_def c(1,2) Let_def)
  moreover have "complete sha M D (w'\<lparr>cl_nodes := (cl_nodes w')(endpoint q \<mapsto> with_transport far c')\<rparr>)"
    using put_back [OF M(1,2) w' c'] by (simp add: fun_upd_idem)
  ultimately show thesis by (rule that) (use facts in blast)+
qed

lemma own_copy:
  assumes M: "members_ok M" "p \<in> M" "M \<noteq> {p}" and w: "complete sha M D w" and old: "fst (D p) k = Some old"
  obtains w' w'' where "store_at far link env k v p w = Done (None, w')" and "find_at far link env k p w' = Done ((Some old, None), w'')"
proof -
  from cluster_store [OF M w, of far env k v] obtain targets w' where s: "store_at far link env k v p w = Done (None, w')"
    and t: "set targets \<subseteq> M - {p}" "nearest k (M - {p}) (hd targets)" "targets \<noteq> []"
    and w': "complete sha M (\<lambda>m. if m \<in> set targets then with_value k (norm_meta v) (D m) else D m) w'"
    and "card (M - {p}) \<le> 2 \<longrightarrow> set targets = M - {p}" .
  define D' where "D' = (\<lambda>m. if m \<in> set targets then with_value k (norm_meta v) (D m) else D m)"
  have old': "fst (D' p) k = Some old" using t(1) old by (auto simp: D'_def)
  show thesis
  proof (rule cluster_find [OF M w' [folded D'_def], of far env k])
    fix val err w''
    assume f: "find_at far link env k p w' = Done ((val, err), w'')" and e: "val \<noteq> None \<longleftrightarrow> err = None"
      and own: "\<And>v. fst (D' p) k = Some v \<Longrightarrow> val = Some v"
    from own [OF old'] e f show thesis by (intro that [OF s]) simp
  qed
qed

end

end
