(* ===== verification/Cluster_Signal.thy ===== *)
theory Cluster_Signal
  imports Cluster_Map Dht_Signal
begin

text \<open>
  Signaling over the DHT in a cluster: one member calls another, whose poll loop and handler run
  while the caller waits for the answer, over the same storages.
\<close>

section \<open>The two sides\<close>

text \<open>
  What a member sees of the others while it waits in an operation: it is back among the served
  nodes, and they run.
\<close>

definition meanwhile ::
  "'e transport \<Rightarrow> 'e link \<Rightarrow> network_node \<Rightarrow> ('e cluster \<Rightarrow> 'e cluster outcome) \<Rightarrow> 'e cluster select" where
  "meanwhile far link p others s =
     and_then (others ((snd s)\<lparr>cl_nodes := (cl_nodes (snd s))(endpoint p \<mapsto> with_transport far (fst s))\<rparr>))
       (\<lambda>w. Done (None, with_transport (cluster_transport link p) (the (cl_nodes w (endpoint p))),
          w\<lparr>cl_nodes := (cl_nodes w)(endpoint p := None)\<rparr>))"

text \<open>
  A turn of the callee: a tick of \<open>pollOffers\<close>, and the goroutine that the tick starts, if it
  starts one, to its end.
\<close>

definition callee_turn ::
  "'e transport \<Rightarrow> 'e link \<Rightarrow> (bytes \<Rightarrow> bytes) \<Rightarrow> 'e env \<Rightarrow> 'e env \<Rightarrow> int \<Rightarrow> (signal_payload \<Rightarrow> go_error + string) \<Rightarrow>
     network_node \<Rightarrow> poll_state \<Rightarrow> 'e cluster \<Rightarrow> 'e cluster outcome"
where
  "callee_turn far link sha1 env env' now_ns handler q ps w =
     and_then (run_at far link q (\<lambda>s. poll_tick sha1 (cluster_env env) True (nn_id q) now_ns (ps, s)) w)
       (\<lambda>(ps', w).
          case drop (length (po_running ps)) (po_running ps') of
            [] \<Rightarrow> Done w
          | (caller, entry) # _ \<Rightarrow>
              and_then (run_at far link q
                  (\<lambda>s. and_then (answer_offer sha1 (cluster_env env') (nn_id q) caller (handler (oe_payload entry)) s)
                     (\<lambda>s. Done ((), s))) w)
                (\<lambda>(u, w). Done w))"

text \<open>A member calls another with \<open>SendOffer\<close>, and comes back when the call returns.\<close>

definition call_at ::
  "'e transport \<Rightarrow> 'e link \<Rightarrow> (bytes \<Rightarrow> bytes) \<Rightarrow> 'e env \<Rightarrow> ('e cluster \<Rightarrow> 'e cluster outcome) \<Rightarrow> network_node \<Rightarrow>
     dht_key \<Rightarrow> signal_payload \<Rightarrow> 64 word \<Rightarrow> 'e cluster \<Rightarrow> ((go_error + string) \<times> 'e cluster) outcome option"
where
  "call_at far link sha1 env others p target payload now w =
     map_option
       (\<lambda>res. and_then res
          (\<lambda>(r, c, w). Done (r, w\<lparr>cl_nodes := (cl_nodes w)(endpoint p \<mapsto> with_transport far c)\<rparr>)))
       (SendOffer_dht sha1 (cluster_env env) (meanwhile far link p others) True target payload now
          (with_transport (cluster_transport link p) (the (cl_nodes w (endpoint p))),
           w\<lparr>cl_nodes := (cl_nodes w)(endpoint p := None)\<rparr>))"

section \<open>A value that was written once\<close>

text \<open>One value is stored under the key, also at the member nearest to it for some reader.\<close>

definition written :: "network_node set \<Rightarrow> (network_node \<Rightarrow> contents) \<Rightarrow> dht_key \<Rightarrow> value_meta \<Rightarrow> bool" where
  "written M D k v \<longleftrightarrow>
     (\<forall>m \<in> M. fst (D m) k = None \<or> fst (D m) k = Some v)
     \<and> (\<exists>p \<in> M. \<exists>a. nearest k (M - {p}) a \<and> fst (D a) k = Some v)"

definition unwritten :: "network_node set \<Rightarrow> (network_node \<Rightarrow> contents) \<Rightarrow> dht_key \<Rightarrow> bool" where
  "unwritten M D k \<longleftrightarrow> (\<forall>m \<in> M. fst (D m) k = None)"

text \<open>The contents after a store at some members.\<close>

definition stored_at :: "network_node list \<Rightarrow> dht_key \<Rightarrow> value_meta \<Rightarrow> (network_node \<Rightarrow> contents) \<Rightarrow> network_node \<Rightarrow> contents" where
  "stored_at targets k v D = (\<lambda>m. if m \<in> set targets then with_value k (norm_meta v) (D m) else D m)"

lemma stored_other: "k' \<noteq> k \<Longrightarrow> fst (stored_at targets k v D m) k' = fst (D m) k'"
  by (simp add: stored_at_def with_value_def)

lemma written_other: "k' \<noteq> k \<Longrightarrow> written M (stored_at targets k v D) k' u = written M D k' u"
  by (simp add: written_def stored_other)

lemma unwritten_other: "k' \<noteq> k \<Longrightarrow> unwritten M (stored_at targets k v D) k' = unwritten M D k'"
  by (simp add: unwritten_def stored_other)

lemma written_stored:
  assumes "p \<in> M" and "unwritten M D k" and "nearest k (M - {p}) (hd targets)" and "targets \<noteq> []"
  shows "written M (stored_at targets k v D) k (norm_meta v)"
proof -
  have "fst (stored_at targets k v D (hd targets)) k = Some (norm_meta v)"
    using assms(4) by (simp add: stored_at_def with_value_def)
  moreover have "fst (stored_at targets k v D m) k = None \<or> fst (stored_at targets k v D m) k = Some (norm_meta v)" if "m \<in> M" for m
    using assms(2) that by (simp add: stored_at_def with_value_def unwritten_def)
  ultimately show ?thesis using assms(1,3) unfolding written_def by blast
qed

lemma norm_norm_meta [simp]: "norm_meta (norm_meta v) = norm_meta v"
  by (simp add: norm_meta_def split: option.split)

text \<open>A member in an operation: it is out of the served nodes, knows all others and holds its contents.\<close>

definition busy ::
  "'e link \<Rightarrow> (bytes \<Rightarrow> bytes) \<Rightarrow> network_node set \<Rightarrow> (network_node \<Rightarrow> contents) \<Rightarrow> network_node \<Rightarrow> 'e cluster node \<times> 'e cluster \<Rightarrow> bool"
where
  "busy link sha M D p s \<longleftrightarrow>
     member sha M p (fst s) \<and> node_transport (fst s) = Some (cluster_transport link p)
     \<and> contents sha (node_storage (fst s)) = D p \<and> M - {p} \<subseteq> set (contacts (node_rt (fst s)))
     \<and> served sha M (M - {p}) D (\<lambda>m. M - {m}) (snd s)"

context delivering_link
begin

lemma busy_store:
  assumes M: "members_ok M" "p \<in> M" "M \<noteq> {p}" and s: "busy link sha M D p s"
  obtains targets sent s' where "StoreValue (cluster_env env) k v s = Done (None, sent, s')"
    and "busy link sha M (stored_at targets k v D) p s'" and "nearest k (M - {p}) (hd targets)" and "targets \<noteq> []"
proof -
  obtain c w where [simp]: "s = (c, w)" by fastforce
  have c: "member sha M p c" "node_transport c = Some (cluster_transport link p)" "M - {p} \<subseteq> set (contacts (node_rt c))"
    "served sha M (M - {p}) D (\<lambda>m. M - {m}) w" "contents sha (node_storage c) = D p"
    using s by (simp_all add: busy_def)
  from member_stores [OF M c(1-4), where env = env and k = k and v = v] obtain targets sent c' w' where
    r: "StoreValue (cluster_env env) k v (c, w) = Done (None, sent, c', w')" and t: "set targets \<subseteq> M - {p}"
    and near: "nearest k (M - {p}) (hd targets)" "targets \<noteq> []"
    and w': "served sha M (M - {p}) (\<lambda>m. if m \<in> set targets then with_value k (norm_meta v) (D m) else D m) (\<lambda>m. M - {m}) w'"
    and c': "member sha M p c'" "M - {p} \<subseteq> set (contacts (node_rt c'))" and ev: "evolves c c'"
    and "card (M - {p}) \<le> 2 \<longrightarrow> set targets = M - {p}" .
  have "stored_at targets k v D p = D p" using t by (auto simp: stored_at_def)
  then have "busy link sha M (stored_at targets k v D) p (c', w')"
    using w' c' c(2,5) evolves_fields(2,3) [OF ev] by (simp add: busy_def) (simp add: stored_at_def)
  with r near show thesis by (intro that) simp_all
qed

lemma busy_find:
  assumes M: "members_ok M" "q \<in> M" "M \<noteq> {q}" and s: "busy link sha M D q s"
    and v: "written M D k v" "norm_meta v = v"
  obtains log s' where "FindValue (cluster_env env) k s = Done ((Some v, None), log, s')" and "busy link sha M D q s'"
proof -
  obtain c w where [simp]: "s = (c, w)" by fastforce
  have c: "member sha M q c" "node_transport c = Some (cluster_transport link q)" "contents sha (node_storage c) = D q"
    "M - {q} \<subseteq> set (contacts (node_rt c))" "served sha M (M - {q}) D (\<lambda>m. M - {m}) w"
    using s by (simp_all add: busy_def)
  from member_finds [OF M c, where env = env and k = k] obtain val err log c' w' where
    r: "FindValue (cluster_env env) k (c, w) = Done ((val, err), log, c', w')"
    and w': "served sha M (M - {q}) D (\<lambda>m. M - {m}) w'" "member sha M q c'" "contents sha (node_storage c') = D q"
      "M - {q} \<subseteq> set (contacts (node_rt c'))" "node_transport c' = Some (cluster_transport link q)"
    and "val = None \<longleftrightarrow> err = Some ErrNotFound" and err: "val \<noteq> None \<longleftrightarrow> err = None"
    and from_where: "\<forall>v. val = Some v \<longrightarrow> fst (D q) k = Some v \<or> (\<exists>m \<in> M. \<exists>v'. fst (D m) k = Some v' \<and> v = norm_meta v')"
    and own: "\<forall>v. fst (D q) k = Some v \<longrightarrow> val = Some v"
    and told: "\<forall>a. a \<in> M - {q} \<longrightarrow> rank k (M - {q}) a < Alpha \<longrightarrow> fst (D a) k \<noteq> None \<longrightarrow> val \<noteq> None" .
  from v(1) obtain p a where a: "p \<in> M" "nearest k (M - {p}) a" "fst (D a) k = Some v" by (auto simp: written_def)
  have "val \<noteq> None"
  proof (cases "a = q")
    case True
    with own a(3) show ?thesis by simp
  next
    case False
    with a have "a \<in> M - {q}" by (simp add: nearest_def)
    with told rank_nearest [OF a(2)] a(3) show ?thesis by simp
  qed
  then obtain u where u: "val = Some u" by blast
  have only: "u' = v" if "m \<in> M" "fst (D m) k = Some u'" for m u' using v(1) that unfolding written_def by force
  have "u = v" using from_where u only M(2) v(2) by metis
  with r w' u err show thesis by (intro that [of log "(c', w')"]) (simp_all add: busy_def)
qed

lemma take_out_busy:
  assumes M: "members_ok M" "p \<in> M" and w: "complete sha M D w"
  shows "busy link sha M D p (with_transport (cluster_transport link p) (the (cl_nodes w (endpoint p))),
     w\<lparr>cl_nodes := (cl_nodes w)(endpoint p := None)\<rparr>)"
    and "node_self (the (cl_nodes w (endpoint p))) = p"
proof -
  from take_out [OF M w] obtain c where "cl_nodes w (endpoint p) = Some c" "node_self c = p"
    "member sha M p (with_transport (cluster_transport link p) c)" "contents sha (node_storage c) = D p"
    "M - {p} \<subseteq> set (contacts (node_rt c))"
    "served sha M (M - {p}) D (\<lambda>m. M - {m}) (w\<lparr>cl_nodes := (cl_nodes w)(endpoint p := None)\<rparr>)" .
  then show "busy link sha M D p (with_transport (cluster_transport link p) (the (cl_nodes w (endpoint p))),
     w\<lparr>cl_nodes := (cl_nodes w)(endpoint p := None)\<rparr>)" "node_self (the (cl_nodes w (endpoint p))) = p"
    by (simp_all add: busy_def)
qed

lemma put_back_busy:
  assumes M: "members_ok M" "p \<in> M" and s: "busy link sha M D p s"
  shows "complete sha M D ((snd s)\<lparr>cl_nodes := (cl_nodes (snd s))(endpoint p \<mapsto> with_transport far (fst s))\<rparr>)"
  using put_back [OF M, of sha D "\<lambda>m. M - {m}" "snd s" "fst s" "D p" "M - {p}" far] s
  by (simp add: busy_def fun_upd_idem)

text \<open>An operation of a busy member leaves a complete cluster.\<close>

lemma run_at_busy:
  assumes M: "members_ok M" "p \<in> M" and w: "complete sha M D w"
    and op: "\<And>s. busy link sha M D p s \<Longrightarrow> \<exists>s' D'. operation s = Done (r, s') \<and> busy link sha M D' p s' \<and> P D'"
  obtains w' D' where "run_at far link p operation w = Done (r, w')" and "complete sha M D' w'" and "P D'"
proof -
  note out = take_out_busy [OF M w]
  from op [OF out(1)] obtain s' D' where s': "operation (with_transport (cluster_transport link p) (the (cl_nodes w (endpoint p))),
     w\<lparr>cl_nodes := (cl_nodes w)(endpoint p := None)\<rparr>) = Done (r, s')" "busy link sha M D' p s'" "P D'" by blast
  show thesis
    using s'(1) by (intro that [OF _ put_back_busy [OF M s'(2), where far = far] s'(3)])
      (cases s', simp add: run_at_def Let_def out(2))
qed

section \<open>A call\<close>

lemma busy_offers:
  assumes M: "members_ok M" "p \<in> M" "M \<noteq> {p}" and s: "busy link sha M D p s"
    and keys: "unwritten M D okey" "unwritten M D bkey" "okey \<noteq> bkey"
    and okey: "okey = dhtOfferKey sha1 (sp_caller payload) target" and bkey: "bkey = dhtDoorbellKey sha1 target"
  obtains s' D' where "store_offer sha1 (cluster_env env) target payload now s = Done (None, s')" and "busy link sha M D' p s'"
    and "written M D' okey (norm_meta (inline_value (Some (entry_bytes (offer_entry payload now)))))"
    and "written M D' bkey (norm_meta (inline_value (Some (key_bytes (sp_caller payload)))))"
    and "\<forall>k. k \<noteq> okey \<longrightarrow> k \<noteq> bkey \<longrightarrow> unwritten M D' k = unwritten M D k"
proof -
  let ?v = "inline_value (Some (entry_bytes (offer_entry payload now)))" and ?b = "inline_value (Some (key_bytes (sp_caller payload)))"
  from busy_store [OF M s, where env = env and k = okey and v = ?v] obtain t1 sent1 s1 where
    1: "StoreValue (cluster_env env) okey ?v s = Done (None, sent1, s1)" "busy link sha M (stored_at t1 okey ?v D) p s1"
      "nearest okey (M - {p}) (hd t1)" "t1 \<noteq> []" .
  from busy_store [OF M 1(2), where env = env and k = bkey and v = ?b] obtain t2 sent2 s2 where
    2: "StoreValue (cluster_env env) bkey ?b s1 = Done (None, sent2, s2)" "busy link sha M (stored_at t2 bkey ?b (stored_at t1 okey ?v D)) p s2"
      "nearest bkey (M - {p}) (hd t2)" "t2 \<noteq> []" .
  have "store_offer sha1 (cluster_env env) target payload now s = Done (None, s2)"
    using 1(1) 2(1) by (simp add: store_offer_def Let_def okey bkey)
  moreover have "written M (stored_at t2 bkey ?b (stored_at t1 okey ?v D)) okey (norm_meta ?v)"
    using written_stored [OF M(2) keys(1) 1(3,4)] keys(3) by (simp add: written_other)
  moreover have "written M (stored_at t2 bkey ?b (stored_at t1 okey ?v D)) bkey (norm_meta ?b)"
    using keys(2,3) by (intro written_stored [OF M(2) _ 2(3,4)]) (simp add: unwritten_other)
  moreover have "unwritten M (stored_at t2 bkey ?b (stored_at t1 okey ?v D)) k = unwritten M D k" if "k \<noteq> okey" "k \<noteq> bkey" for k
    using that by (simp add: unwritten_other)
  ultimately show thesis using 2(2) by (intro that [of s2]) blast+
qed

lemma busy_ticks:
  assumes M: "members_ok M" "q \<in> M" "M \<noteq> {q}" and s: "busy link sha M D q s"
    and bell: "written M D (dhtDoorbellKey sha1 (nn_id q)) (norm_meta (inline_value (Some (key_bytes (sp_caller payload)))))"
    and offer: "written M D (dhtOfferKey sha1 (sp_caller payload) (nn_id q))
      (norm_meta (inline_value (Some (entry_bytes (offer_entry payload ts)))))"
    and fresh: "now_ns - sint ts * nano \<le> 30 * nano" "sp_caller payload \<notin> po_processing ps"
  obtains s' where "poll_tick sha1 (cluster_env env) True (nn_id q) now_ns (ps, s)
      = Done (ps\<lparr>po_processing := insert (sp_caller payload) (po_processing ps), po_caller := None,
          po_running := po_running ps @ [(sp_caller payload, offer_entry payload ts)]\<rparr>, s')"
    and "busy link sha M D q s'"
proof -
  let ?caller = "sp_caller payload"
  from busy_find [OF M s bell norm_norm_meta, where env = env] obtain log1 s1 where
    1: "FindValue (cluster_env env) (dhtDoorbellKey sha1 (nn_id q)) s
        = Done ((Some (norm_meta (inline_value (Some (key_bytes ?caller)))), None), log1, s1)" "busy link sha M D q s1" .
  from busy_find [OF M 1(2) offer norm_norm_meta, where env = env] obtain log2 s2 where
    2: "FindValue (cluster_env env) (dhtOfferKey sha1 ?caller (nn_id q)) s1
        = Done ((Some (norm_meta (inline_value (Some (entry_bytes (offer_entry payload ts))))), None), log2, s2)"
      "busy link sha M D q s2" .
  have "bell_caller (Some (norm_meta (inline_value (Some (key_bytes ?caller)))), None) = Some ?caller"
    by (simp add: bell_caller_def norm_meta_def)
  moreover have "poll_offer now_ns (Some (norm_meta (inline_value (Some (entry_bytes (offer_entry payload ts))))), None)
      = Some (offer_entry payload ts)"
    using fresh(1) entry_bytes_nonempty [of "offer_entry payload ts"]
    by (simp add: poll_offer_def norm_meta_def offer_entry_def)
  ultimately show thesis
    using 1(1) 2 fresh(2) by (intro that [of s2]) (cases s2, simp_all add: poll_tick_def poll_decide_def poll_claim_def)
qed

lemma busy_answers:
  assumes M: "members_ok M" "q \<in> M" "M \<noteq> {q}" and s: "busy link sha M D q s"
    and key: "unwritten M D (dhtAnswerKey sha1 caller (nn_id q))" "dhtAnswerKey sha1 caller (nn_id q) \<noteq> dhtDoorbellKey sha1 (nn_id q)"
  obtains s' D' where "answer_offer sha1 (cluster_env env) (nn_id q) caller (Inr answer) s = Done s'" and "busy link sha M D' q s'"
    and "written M D' (dhtAnswerKey sha1 caller (nn_id q)) (norm_meta (inline_value (Some (bytes_of_string answer))))"
proof -
  let ?akey = "dhtAnswerKey sha1 caller (nn_id q)" and ?bkey = "dhtDoorbellKey sha1 (nn_id q)"
  let ?v = "inline_value (Some (bytes_of_string answer))"
  from busy_store [OF M s, where env = env and k = ?akey and v = ?v] obtain t1 sent1 s1 where
    1: "StoreValue (cluster_env env) ?akey ?v s = Done (None, sent1, s1)" "busy link sha M (stored_at t1 ?akey ?v D) q s1"
      "nearest ?akey (M - {q}) (hd t1)" "t1 \<noteq> []" .
  from busy_store [OF M 1(2), where env = env and k = ?bkey and v = "inline_value None"] obtain t2 sent2 s2 where
    2: "StoreValue (cluster_env env) ?bkey (inline_value None) s1 = Done (None, sent2, s2)"
      "busy link sha M (stored_at t2 ?bkey (inline_value None) (stored_at t1 ?akey ?v D)) q s2"
      "nearest ?bkey (M - {q}) (hd t2)" "t2 \<noteq> []" .
  have "written M (stored_at t2 ?bkey (inline_value None) (stored_at t1 ?akey ?v D)) ?akey (norm_meta ?v)"
    using written_stored [OF M(2) key(1) 1(3,4)] key(2) by (simp add: written_other)
  with 1(1) 2(1,2) show thesis by (intro that [of s2]) (simp_all add: answer_offer_def)
qed

text \<open>The callee's turn, from a cluster with an offer for it.\<close>

lemma callee_turns:
  assumes M: "members_ok M" "q \<in> M" "M \<noteq> {q}" and w: "complete sha M D w"
    and bell: "written M D (dhtDoorbellKey sha1 (nn_id q)) (norm_meta (inline_value (Some (key_bytes (sp_caller payload)))))"
    and offer: "written M D (dhtOfferKey sha1 (sp_caller payload) (nn_id q))
      (norm_meta (inline_value (Some (entry_bytes (offer_entry payload ts)))))"
    and fresh: "now_ns - sint ts * nano \<le> 30 * nano" "sp_caller payload \<notin> po_processing ps"
    and key: "unwritten M D (dhtAnswerKey sha1 (sp_caller payload) (nn_id q))"
      "dhtAnswerKey sha1 (sp_caller payload) (nn_id q) \<noteq> dhtDoorbellKey sha1 (nn_id q)"
    and h: "handler payload = Inr answer"
  obtains w' D' where "callee_turn far link sha1 env env' now_ns handler q ps w = Done w'" and "complete sha M D' w'"
    and "written M D' (dhtAnswerKey sha1 (sp_caller payload) (nn_id q)) (norm_meta (inline_value (Some (bytes_of_string answer))))"
proof -
  let ?akey = "dhtAnswerKey sha1 (sp_caller payload) (nn_id q)"
  define ps' where "ps' = ps\<lparr>po_processing := insert (sp_caller payload) (po_processing ps), po_caller := None,
     po_running := po_running ps @ [(sp_caller payload, offer_entry payload ts)]\<rparr>"
  let ?tick = "\<lambda>s. poll_tick sha1 (cluster_env env) True (nn_id q) now_ns (ps, s)"
  have "\<exists>s' D'. ?tick s = Done (ps', s') \<and> busy link sha M D' q s' \<and> D' = D" if "busy link sha M D q s" for s
    using busy_ticks [OF M that bell offer fresh, of env] unfolding ps'_def by metis
  from run_at_busy [where operation = ?tick and P = "\<lambda>D'. D' = D" and far = far, OF M(1,2) w this] obtain w1 where
    1: "run_at far link q ?tick w = Done (ps', w1)" "complete sha M D w1" by blast
  let ?answer = "\<lambda>s. and_then (answer_offer sha1 (cluster_env env') (nn_id q) (sp_caller payload) (Inr answer) s) (\<lambda>s. Done ((), s))"
  have "\<exists>s' D'. ?answer s = Done ((), s') \<and> busy link sha M D' q s'
      \<and> written M D' ?akey (norm_meta (inline_value (Some (bytes_of_string answer))))" if "busy link sha M D q s" for s
    using busy_answers [OF M that key, of env' answer] by (metis and_then.simps(2))
  from run_at_busy [where operation = ?answer and far = far
      and P = "\<lambda>D'. written M D' ?akey (norm_meta (inline_value (Some (bytes_of_string answer))))", OF M(1,2) 1(2) this]
  obtain w2 D2 where
    2: "run_at far link q ?answer w1 = Done ((), w2)" "complete sha M D2 w2"
      "written M D2 ?akey (norm_meta (inline_value (Some (bytes_of_string answer))))" by blast
  have "callee_turn far link sha1 env env' now_ns handler q ps w = Done w2"
    using 1(1) 2(1) h by (simp add: callee_turn_def ps'_def offer_entry_def del: and_then_Done)
  with 2(2,3) show thesis by (intro that)
qed

lemma call_answered:
  assumes M: "members_ok M" "p \<in> M" "q \<in> M" "p \<noteq> q" and w: "complete sha M D w"
    and keys: "distinct [dhtOfferKey sha1 (nn_id p) (nn_id q), dhtDoorbellKey sha1 (nn_id q), dhtAnswerKey sha1 (nn_id p) (nn_id q)]"
      "unwritten M D (dhtOfferKey sha1 (nn_id p) (nn_id q))" "unwritten M D (dhtDoorbellKey sha1 (nn_id q))"
      "unwritten M D (dhtAnswerKey sha1 (nn_id p) (nn_id q))"
    and caller: "sp_caller payload = nn_id p"
    and fresh: "now_ns - sint now * nano \<le> 30 * nano" "nn_id p \<notin> po_processing ps"
    and h: "handler payload = Inr answer" "answer \<noteq> []"
  shows "\<exists>w' D'. call_at far link sha1 env (callee_turn far link sha1 env1 env2 now_ns handler q ps) p (nn_id q) payload now w
      = Some (Done (Inr answer, w')) \<and> complete sha M D' w'"
proof -
  let ?akey = "dhtAnswerKey sha1 (nn_id p) (nn_id q)" and ?turn = "callee_turn far link sha1 env1 env2 now_ns handler q ps"
  have ne: "M \<noteq> {p}" "M \<noteq> {q}" using M by auto
  have neq: "dhtOfferKey sha1 (nn_id p) (nn_id q) \<noteq> dhtDoorbellKey sha1 (nn_id q)" "?akey \<noteq> dhtDoorbellKey sha1 (nn_id q)"
    "?akey \<noteq> dhtOfferKey sha1 (nn_id p) (nn_id q)" using keys(1) by auto
  define s0 where "s0 = (with_transport (cluster_transport link p) (the (cl_nodes w (endpoint p))),
     w\<lparr>cl_nodes := (cl_nodes w)(endpoint p := None)\<rparr>)"
  have "busy link sha M D p s0" unfolding s0_def by (rule take_out_busy(1) [OF M(1,2) w])
  from busy_offers [OF M(1,2) ne(1) this keys(2,3) neq(1), of sha1 payload "nn_id q" env now] caller obtain s1 D1 where
    1: "store_offer sha1 (cluster_env env) (nn_id q) payload now s0 = Done (None, s1)" "busy link sha M D1 p s1"
      "written M D1 (dhtOfferKey sha1 (sp_caller payload) (nn_id q)) (norm_meta (inline_value (Some (entry_bytes (offer_entry payload now)))))"
      "written M D1 (dhtDoorbellKey sha1 (nn_id q)) (norm_meta (inline_value (Some (key_bytes (sp_caller payload)))))"
      "\<forall>k. k \<noteq> dhtOfferKey sha1 (nn_id p) (nn_id q) \<longrightarrow> k \<noteq> dhtDoorbellKey sha1 (nn_id q) \<longrightarrow> unwritten M D1 k = unwritten M D k"
    by metis
  have a: "unwritten M D1 (dhtAnswerKey sha1 (sp_caller payload) (nn_id q))"
    "dhtAnswerKey sha1 (sp_caller payload) (nn_id q) \<noteq> dhtDoorbellKey sha1 (nn_id q)" "sp_caller payload \<notin> po_processing ps"
    using 1(5) neq keys(4) fresh(2) by (simp_all add: caller)
  let ?w1 = "(snd s1)\<lparr>cl_nodes := (cl_nodes (snd s1))(endpoint p \<mapsto> with_transport far (fst s1))\<rparr>"
  from callee_turns [where payload = payload and handler = handler and ps = ps, OF M(1,3) ne(2) put_back_busy [OF M(1,2) 1(2), where far = far] 1(4,3) fresh(1) a(3,1,2) h(1), where far = far and env = env1 and env' = env2] caller obtain w2 D2 where
    2: "?turn ?w1 = Done w2" "complete sha M D2 w2"
      "written M D2 ?akey (norm_meta (inline_value (Some (bytes_of_string answer))))" by metis
  define s2 where "s2 = (with_transport (cluster_transport link p) (the (cl_nodes w2 (endpoint p))),
     w2\<lparr>cl_nodes := (cl_nodes w2)(endpoint p := None)\<rparr>)"
  have m: "meanwhile far link p ?turn s1 = Done (None, s2)" by (simp add: meanwhile_def 2(1) s2_def)
  have "busy link sha M D2 p s2" unfolding s2_def by (rule take_out_busy(1) [OF M(1,2) 2(2)])
  from busy_find [OF M(1,2) ne(1) this 2(3) norm_norm_meta, where env = env] obtain log s3 where
    3: "FindValue (cluster_env env) ?akey s2 = Done ((Some (norm_meta (inline_value (Some (bytes_of_string answer)))), None), log, s3)"
      "busy link sha M D2 p s3" .
  have "answer_of (Some (norm_meta (inline_value (Some (bytes_of_string answer)))), None) = Some answer"
  proof -
    have "bytes_of_string answer \<noteq> []" using h(2) length_bytes_of_string [of answer] by (metis length_0_conv)
    with h(2) show ?thesis by (simp add: answer_of_def norm_meta_def)
  qed
  with 3(1) have "check_answer (cluster_env env) ?akey s2 = Done (Some answer, s3)" by (simp add: check_answer_def)
  with m have "await_answer (cluster_env env) (meanwhile far link p ?turn) ?akey s1 = Some (Done (Inr answer, s3))"
    by (simp add: await_answer.simps)
  with 1(1) have "SendOffer_dht sha1 (cluster_env env) (meanwhile far link p ?turn) True (nn_id q) payload now s0
      = Some (Done (Inr answer, s3))" by (simp add: SendOffer_dht_def caller)
  then show ?thesis using put_back_busy [OF M(1,2) 3(2), where far = far]
    by (cases s3) (auto simp: call_at_def s0_def)
qed

end

end
