(* ===== verification/Cluster_Join.thy ===== *)
theory Cluster_Join
  imports Cluster_Map
begin

text \<open>
  A node joins: it asks the node it was given for its own id, learns every member from the answer,
  and asks the nearest of them, who then know it.
\<close>

section \<open>The first round\<close>

lemma lone_round:
  assumes "run_round env False t [m] [] (round_start s {} []) = Done rd"
  obtains ans where "rd_log rd = [(m, ans)]" and "rd_found rd = None" and "rd_visited rd = {nn_id m}"
    and "\<And>ns. ans = Inr (None, map Some ns) \<Longrightarrow>
      rd_new rd = filter (\<lambda>n. nn_id n \<noteq> nn_id m) (learned (nn_id (node_self (fst s))) (map Some ns))"
proof -
  obtain c w where s: "s = (c, w)" by fastforce
  let ?rd = "snd (draw env (launch_next m (snd (draw env (round_start s {} [])))))"
  have run: "and_then (do_call False t m ?rd) (\<lambda>(ans, rd). absorb ans (snd (draw env rd))) = Done rd"
    using assms by (simp add: run_round_single)
  then obtain ans rd1 where call: "do_call False t m ?rd = Done (ans, rd1)"
    and absorb: "absorb ans (snd (draw env rd1)) = Done rd" by (cases "do_call False t m ?rd") auto
  have rd: "fst (rd_state ?rd) = c" "rd_log ?rd = []" "rd_found ?rd = None" "rd_visited ?rd = {nn_id m}" "rd_new ?rd = []"
    by (simp_all add: draw_def launch_next_def s split: prod.splits)
  with call obtain tr w' where "node_transport c = Some tr" "query False tr m t (snd (rd_state ?rd)) = (ans, w')"
    "rd1 = ?rd\<lparr>rd_state := (c, w'), rd_log := [(m, ans)]\<rparr>"
    by (auto simp: do_call_def split: option.splits prod.splits)
  moreover from this have "\<nexists>v res. ans = Inr (Some v, res)" by (auto simp: query_def split: prod.splits sum.splits)
  moreover have "None \<notin> set (map Some ns)" for ns :: "network_node list" by auto
  ultimately show thesis
    using absorb rd
    by (intro that [of ans]; cases ans)
      (auto simp: absorb_cases draw_def s Let_def split: prod.splits option.splits if_splits)
qed

lemma merge_all:
  assumes "Suc (length new) \<le> K"
  shows "mset (merge_closest ties t [m] new) = add_mset m (mset new)"
  using assms by (simp add: merge_closest_eq)

lemma filter_learned_distinct: "distinct (ids ns) \<Longrightarrow> distinct (filter P (learned self (map Some ns)))"
  by (induction ns) (auto simp: distinct_map)

lemma to_query_all:
  assumes "length (filter (\<lambda>n. nn_id n \<notin> visited) closest) \<le> Alpha"
  shows "set (to_query visited closest) = {n \<in> set closest. nn_id n \<notin> visited}"
  using assms by (auto simp: to_query_def)

lemma merge_then_query:
  assumes new: "set new = X - {m}" "distinct new" and X: "m \<in> X" "finite X" "card X \<le> Suc Alpha" and inj: "inj_on nn_id X"
  shows "set (to_query {nn_id m} (merge_closest ties t [m] new)) = X - {m}"
proof -
  have len: "length new \<le> Alpha" using X new by (simp add: distinct_card [symmetric])
  then have m: "mset (merge_closest ties t [m] new) = add_mset m (mset new)"
    by (intro merge_all) (simp add: Alpha_def K_def)
  let ?P = "\<lambda>n. nn_id n \<notin> {nn_id m}"
  have "mset (filter ?P (merge_closest ties t [m] new)) = filter_mset ?P (mset new)" by (simp add: m)
  then have "length (filter ?P (merge_closest ties t [m] new)) \<le> length new"
    by (metis length_filter_le mset_filter size_mset)
  with len have "set (to_query {nn_id m} (merge_closest ties t [m] new))
      = {n \<in> set (merge_closest ties t [m] new). nn_id n \<notin> {nn_id m}}" by (intro to_query_all) simp
  moreover have "set (merge_closest ties t [m] new) = X" using mset_eq_setD [OF m [folded mset.simps]] new X(1) by auto
  ultimately show ?thesis using inj X(1) by (auto dest: inj_onD)
qed

section \<open>The whole join\<close>

context delivering_link
begin

lemma join_search:
  assumes M: "members_ok (insert p M)" "p \<notin> M" "m \<in> M"
    and c: "member sha (insert p M) p c" "node_transport c = Some (cluster_transport link p)" "contacts (node_rt c) = [m]"
    and w: "served sha (insert p M) M D (\<lambda>q. M - {q}) w"
  obtains nodes log c' w' where "LookupNode (cluster_env env) k (c, w) = Done ((nodes, None), log, c', w')"
    and "searching sha link (insert p M) p (cl_nodes w) D (\<lambda>q. if q = p then {m} else M - {q}) False k [] [] (round_start (c', w') {} log)"
    and "M \<subseteq> set (contacts (node_rt c'))" and "m \<in> asked log" and "card M \<le> Suc Alpha \<longrightarrow> M \<subseteq> asked log"
    and "evolves c c'"
proof -
  let ?N = "insert p M" and ?L = "\<lambda>q. if q = p then {m} else M - {q}"
  have N: "?N - {p} = M" using M(2) by auto
  have pN: "p \<in> ?N" by simp
  have inv: "node_inv sha c" and p: "node_self c = p" using c(1) by (simp_all add: member_def)
  have w': "served sha ?N (?N - {p}) D ?L w" unfolding N by (rule served_mono [OF w]) (use M(2) in auto)
  have Lp: "?L p \<subseteq> set (contacts (node_rt c))" using c(3) by simp
  note start = searching_start [OF M(1) pN c(1,2) Lp w', of False k "{}"]
  have "calls_ok (fst (c, w))" using c(2) cluster_well_behaved by (auto simp: calls_ok_def)
  from search_loop_Done [OF this] obtain nodes val err log c' w' where
    r: "search_loop (cluster_env env) False k [m] {} [] (c, w) = Done ((nodes, val, err), log, c', w')"
    by (metis prod.collapse)
  have i: "iterativeSearch (cluster_env env) k False (c, w) = Done ((nodes, val, err), log, c', w')"
    using r c(3) by (simp add: iterativeSearch_eq [of sha] inv FindClosest_single)
  have ctx: "ctx_err (cluster_env env) w = None" and q: "to_query {} [m] = [m]"
    by (simp_all add: cluster_env_def to_query_def Alpha_def)
  from r obtain rd where run: "run_round (cluster_env env) False k [m] [] (round_start (c, w) {} []) = Done rd"
    and rest: "(case rd_found rd of
           Some v \<Rightarrow> Done (([], Some v, None), rd_log rd, rd_state rd)
         | None \<Rightarrow> search_loop (cluster_env env) False k
             (merge_closest (sort_ties (cluster_env env) (snd (rd_state rd))) k [m] (rd_new rd))
             (rd_visited rd) (rd_log rd) (rd_state rd)) = Done ((nodes, val, err), log, c', w')"
    by (auto simp: search_loop.simps [of "cluster_env env" False k "[m]"] round_start_def ctx q Let_def)
  from lone_round [OF run] obtain ans where ans: "rd_log rd = [(m, ans)]" "rd_found rd = None" "rd_visited rd = {nn_id m}"
    "\<And>ns. ans = Inr (None, map Some ns) \<Longrightarrow> rd_new rd = filter (\<lambda>n. nn_id n \<noteq> nn_id m) (learned (nn_id p) (map Some ns))"
    by (auto simp: p)
  have mp: "m \<noteq> p" using M(2,3) by auto
  have rd: "searching sha link ?N p (cl_nodes w) D ?L False k [] [] rd"
    using searching_round [OF M(1) pN run between_rounds [OF start, of "[m]" "{}", unfolded round_start_simps]] M(3) N by simp
  have told: "\<exists>ns. a = Inr (None, map Some ns) \<and> set ns = ?N - {m} \<and> distinct (ids ns)"
    if "member_answers ?N p D ?L False k m a" for a
  proof -
    from that mp obtain ns where "a = Inr (None, map Some ns)" "insert p (M - {m}) \<subseteq> set ns" "set ns \<subseteq> ?N - {m}"
      "distinct (ids ns)" by (auto simp: member_answers_def)
    with mp show ?thesis by (intro exI [of _ ns]) auto
  qed
  have "member_answers ?N p D ?L False k m ans"
  proof (rule log_okD(2))
    show "log_ok ?N p D ?L False k (set (contacts (node_rt (fst (rd_state rd))))) [] (rd_log rd)"
      using rd by (simp add: searching_def)
  qed (simp add: ans(1))
  from told [OF this] obtain ns where ns: "ans = Inr (None, map Some ns)" "set ns = ?N - {m}" "distinct (ids ns)" by blast
  have new: "set (rd_new rd) = M - {m}" "distinct (rd_new rd)"
  proof -
    have "nn_id x \<noteq> nn_id p" "nn_id x \<noteq> nn_id m \<longleftrightarrow> x \<noteq> m" if "x \<in> M" for x
      using that M(2,3) members_id [OF M(1), of x p] members_id [OF M(1), of x m] by auto
    moreover have "set ns = insert p (M - {m})" using ns(2) mp by blast
    ultimately show "set (rd_new rd) = M - {m}" by (auto simp: ans(4) [OF ns(1)])
    show "distinct (rd_new rd)" using filter_learned_distinct [OF ns(3)] by (simp add: ans(4) [OF ns(1)] distinct_map)
  qed
  let ?c2 = "merge_closest (sort_ties (cluster_env env) (snd (rd_state rd))) k [m] (rd_new rd)"
  have loop: "search_loop (cluster_env env) False k ?c2 {nn_id m} [(m, ans)] (rd_state rd) = Done ((nodes, val, err), log, c', w')"
    using rest ans by simp
  have "set ?c2 \<subseteq> ?N - {p}" using set_merge_closest [of _ k "[m]" "rd_new rd"] new(1) M(3) N by auto
  from searching_loop [OF M(1) pN loop between_rounds [OF rd, of "[]", unfolded ans(1)] this]
  have final: "searching sha link ?N p (cl_nodes w) D ?L False k [] [] (round_start (c', w') {} log)"
    and log: "(m, ans) \<in> set log" "set (to_query {nn_id m} ?c2) \<subseteq> asked log" by auto
  show thesis
  proof (rule that [OF _ final])
    show asked: "m \<in> asked log" using log(1) by (force simp: asked_def)
    have "\<not> told_value log v" for v using told_value_member [OF final, of v] by auto
    with iterativeSearch_ends [of sha "(c, w)", OF _ _ i] inv c(3) have "err = None"
      by (auto simp: search_ends_def cluster_env_def)
    with i show "LookupNode (cluster_env env) k (c, w) = Done ((nodes, None), log, c', w')" by (simp add: LookupNode_def)
    show "evolves c c'" using iterativeSearch_ends [of sha "(c, w)", OF _ _ i] inv c(3) by simp
    have lo: "log_ok ?N p D ?L False k (set (contacts (node_rt c'))) [] log" and "m \<in> set (contacts (node_rt c'))"
      using final by (simp_all add: searching_def)
    moreover have "told_by ans \<subseteq> insert p (set (contacts (node_rt c')))" using log_okD(3) [OF lo log(1)] by simp
    moreover have "told_by ans = ?N - {m}" by (auto simp: told_by_def ns(1,2) inj_map_eq_map)
    ultimately show "M \<subseteq> set (contacts (node_rt c'))" using M(2) by auto
    show "card M \<le> Suc Alpha \<longrightarrow> M \<subseteq> asked log"
    proof
      assume small: "card M \<le> Suc Alpha"
      have "inj_on nn_id M" "finite M" using M(1) by (auto simp: members_ok_def)
      from merge_then_query [OF new M(3) this(2) small this(1)] log(2) asked show "M \<subseteq> asked log" by blast
    qed
  qed
qed

lemma cluster_join:
  assumes M: "members_ok (insert p M)" "p \<notin> M" "m \<in> M"
    and c: "cl_nodes w (endpoint p) = Some c" "member sha (insert p M) p c" "contacts (node_rt c) = []"
    and w: "served sha (insert p M) M D (\<lambda>q. M - {q}) w"
  obtains w' A where "bootstrap_at far link env [m] p w = Done (None, w')" and "m \<in> A" and "card M \<le> Suc Alpha \<longrightarrow> M \<subseteq> A"
    and "cluster sha (insert p M) (D(p := contents sha (node_storage c)))
      (\<lambda>q. if q = p then M else M - {q} \<union> (if q \<in> A then {p} else {})) w'"
    and "\<forall>x \<in> - (endpoint ` insert p M). cl_nodes w' x = cl_nodes w x"
proof -
  let ?N = "insert p M" and ?w0 = "w\<lparr>cl_nodes := (cl_nodes w)(endpoint p := None)\<rparr>"
    and ?L = "\<lambda>q. if q = p then {m} else M - {q}"
  have N: "?N - {p} = M" and pN: "p \<in> ?N" using M(2) by auto
  have p: "node_self c = p" using c(2) by (simp add: member_def)
  let ?c = "with_transport (cluster_transport link p) c"
  have "m \<in> ?N - {p}" using M(3) unfolding N .
  from member_add [OF M(1) pN _ this, of sha ?c] c(2) obtain c1 where c1: "\<And>w. add_contact m (?c, w) = (c1, w)"
    "member sha ?N p c1" "set (contacts (node_rt c1)) = {m}" "node_storage c1 = node_storage c"
    "node_transport c1 = Some (cluster_transport link p)" using c(3) by auto
  have "distinct (ids (contacts (node_rt c1)))"
    using c1(2) by (intro wf_rt_distinct_contacts) (simp add: member_def node_inv_def)
  then have known: "contacts (node_rt c1) = [m]"
    using c1(3) by (cases "contacts (node_rt c1)"; cases "tl (contacts (node_rt c1))") auto
  have "endpoint q \<noteq> endpoint p" if "q \<in> M" for q
    using members_others(5) [OF M(1) pN, of q] that M(2) by auto
  then have w0: "served sha ?N M D (\<lambda>q. M - {q}) ?w0" using w by (simp add: served_def)
  from join_search [OF M c1(2,5) known w0, where env = env and k = "nn_id p"] obtain nodes log c' w' where
    look: "LookupNode (cluster_env env) (nn_id p) (c1, ?w0) = Done ((nodes, None), log, c', w')"
    and s: "searching sha link ?N p (cl_nodes ?w0) D ?L False (nn_id p) [] [] (round_start (c', w') {} log)"
    and all: "M \<subseteq> set (contacts (node_rt c'))" "m \<in> asked log" "card M \<le> Suc Alpha \<longrightarrow> M \<subseteq> asked log"
    and ev: "evolves c1 c'" .
  have "node_self c1 = p" using c1(2) by (simp add: member_def)
  then have r: "bootstrap_at far link env [m] p w
      = Done (None, w'\<lparr>cl_nodes := (cl_nodes w')(endpoint p \<mapsto> with_transport far c')\<rparr>)"
    using look by (simp add: bootstrap_at_def run_at_def Bootstrap_def c(1) p c1(1) Let_def)
  have c': "member sha ?N p c'"
    and w': "served sha ?N (?N - {p}) D (\<lambda>q. ?L q \<union> (if q \<in> asked log then {p} else {})) w'"
    using s by (simp_all add: searching_def)
  have "contents sha (node_storage c') = contents sha (node_storage c)" using evolves_fields(2) [OF ev] c1(4) by simp
  from put_back [OF M(1) pN w' c' this all(1), of far] have
    "cluster sha ?N (D(p := contents sha (node_storage c))) (\<lambda>q. if q = p then M else M - {q} \<union> (if q \<in> asked log then {p} else {}))
      (w'\<lparr>cl_nodes := (cl_nodes w')(endpoint p \<mapsto> with_transport far c')\<rparr>)"
    by (rule served_mono) auto
  moreover have "\<forall>x \<in> - (endpoint ` ?N). cl_nodes w' x = cl_nodes w x" using s by (auto simp: searching_def)
  ultimately show thesis using all(2,3) by (intro that [OF r]) simp_all
qed

end

end
