(* ===== verification/Cluster_Blob.thy ===== *)
theory Cluster_Blob
  imports Cluster_Join
begin

text \<open>Blobs in a cluster: a member keeps the data and stores where it is, any other fetches it.\<close>

section \<open>Blobs of a member\<close>

definition holds_blob :: "contents \<Rightarrow> bytes \<Rightarrow> bool" where
  "holds_blob d data \<longleftrightarrow> (\<exists>f. snd d = Some f \<and> f data = Inr data)"

definition collision_free :: "(bytes \<Rightarrow> bytes) \<Rightarrow> bytes \<Rightarrow> bool" where
  "collision_free sha data \<longleftrightarrow> (\<forall>d. blob_ref sha d = blob_ref sha data \<longrightarrow> d = data)"

lemma holds_with_value [simp]: "holds_blob (with_value k v d) data = holds_blob d data"
  by (simp add: holds_blob_def with_value_def)

lemma holds_OnFetchBlob:
  assumes "holds_blob (contents sha (node_storage n)) data"
  shows "OnFetchBlob p (blob_ref sha data) n = Inr data"
  using assms by (auto simp: holds_blob_def contents_def OnFetchBlob_def blobStore_def split: storage.splits)

lemma local_blob:
  assumes "node_inv sha n" and "collision_free sha data" and "blobStore n = Some bs"
    and "GetBlob bs (blob_ref sha data) = Inr d"
  shows "d = data"
proof -
  have "node_storage n = Disk bs" using assms(3) by (simp add: blobStore_def split: storage.splits)
  with assms(1) have "disk_inv sha bs" by (auto simp: node_inv_def)
  from disk.get_blob_ref [OF this assms(4)] assms(2) show ?thesis by (simp add: collision_free_def)
qed

lemma put_blob_member:
  assumes c: "member sha M p c" and disk: "snd (contents sha (node_storage c)) \<noteq> None" and free: "collision_free sha data"
  obtains bs bs' c' where "blobStore c = Some bs" and "PutBlob sha bs data = (Inr (blob_ref sha data), bs')"
    and "c' = c\<lparr>node_storage := Disk bs'\<rparr>" and "member sha M p c'"
    and "fst (contents sha (node_storage c')) = fst (contents sha (node_storage c))"
    and "holds_blob (contents sha (node_storage c')) data"
    and "\<And>e. holds_blob (contents sha (node_storage c)) e \<Longrightarrow> holds_blob (contents sha (node_storage c')) e"
proof -
  from disk obtain bs where bs: "node_storage c = Disk bs" by (auto simp: contents_def split: storage.splits)
  then have inv: "disk_inv sha bs" "node_inv sha c" using c by (auto simp: member_def node_inv_def)
  obtain bs' where put: "PutBlob sha bs data = (Inr (blob_ref sha data), bs')"
    using disk.put_blob_ref [OF inv(1), of data] by (metis prod.collapse)
  show thesis
  proof (rule that)
    show "blobStore c = Some bs" by (simp add: blobStore_def bs)
    show "member sha M p (c\<lparr>node_storage := Disk bs'\<rparr>)"
      using c node_inv_storage [OF inv(2), of "Disk bs'"] PutBlob_inv [OF inv(1), of data] put by (simp add: member_def)
    show "holds_blob (contents sha (node_storage (c\<lparr>node_storage := Disk bs'\<rparr>))) data"
      using disk.get_blob_put_blob [OF inv(1), of data] put free by (simp add: holds_blob_def contents_def collision_free_def)
    show "holds_blob (contents sha (node_storage (c\<lparr>node_storage := Disk bs'\<rparr>))) e"
      if "holds_blob (contents sha (node_storage c)) e" for e
      using that disk.put_blob_keeps [OF inv(1), of e e data] put by (simp add: holds_blob_def contents_def bs)
  qed (use put PutBlob_view [OF inv(1), of data] in \<open>simp_all add: contents_def bs\<close>)
qed

lemma nearest_is_self:
  assumes M: "members_ok M" "q \<in> M" and c: "member sha M q c" "set (contacts (node_rt c)) = M - {q}" and p: "p \<in> M - {q}"
  obtains rest where "FindClosest (node_rt c) (nn_id p) 1 = p # rest"
proof -
  have "{b \<in> M - {q}. GetKeyDistance (nn_id b) (nn_id p) < GetKeyDistance (nn_id p) (nn_id p)} = {}" by simp
  then have "rank (nn_id p) (M - {q}) p < 1" by (simp only: rank_def card.empty)
  from rank_asked [OF M c p this] have "p \<in> set (take 1 (FindClosest (node_rt c) (nn_id p) K))" .
  then have "p \<in> set (FindClosest (node_rt c) (nn_id p) 1)" by (simp add: FindClosest_def K_def)
  moreover have "length (FindClosest (node_rt c) (nn_id p) 1) \<le> 1" by (simp add: length_FindClosest)
  ultimately show thesis using that by (cases "FindClosest (node_rt c) (nn_id p) 1") auto
qed

context delivering_link
begin

lemma cluster_store_blob:
  assumes M: "members_ok M" "p \<in> M" "M \<noteq> {p}" and w: "complete sha M D w" and disk: "snd (D p) \<noteq> None"
    and free: "collision_free sha data"
  obtains targets d w' where "store_blob_at far link sha env k data mime p w = Done (None, w')" and "set targets \<subseteq> M - {p}"
    and "nearest k (M - {p}) (hd targets)" and "targets \<noteq> []" and "fst d = fst (D p)" and "holds_blob d data"
    and "\<forall>e. holds_blob (D p) e \<longrightarrow> holds_blob d e"
    and "complete sha M (\<lambda>m. if m \<in> set targets
           then with_value k (norm_meta (blob_meta (blob_ref sha data) (nn_id p) data mime)) (D m)
           else (D(p := d)) m) w'"
proof -
  let ?w0 = "w\<lparr>cl_nodes := (cl_nodes w)(endpoint p := None)\<rparr>" and ?v = "blob_meta (blob_ref sha data) (nn_id p) data mime"
  from take_out [OF M(1,2) w] obtain c where c: "cl_nodes w (endpoint p) = Some c" "node_self c = p"
    "member sha M p (with_transport (cluster_transport link p) c)" "contents sha (node_storage c) = D p"
    "M - {p} \<subseteq> set (contacts (node_rt c))" "served sha M (M - {p}) D (\<lambda>m. M - {m}) ?w0" .
  let ?c = "with_transport (cluster_transport link p) c"
  have "snd (contents sha (node_storage ?c)) \<noteq> None" using disk c(4) by simp
  from put_blob_member [OF c(3) this free] obtain bs bs' c1 where
    put: "blobStore ?c = Some bs" "PutBlob sha bs data = (Inr (blob_ref sha data), bs')"
    and c1: "c1 = ?c\<lparr>node_storage := Disk bs'\<rparr>" "member sha M p c1"
    and "fst (contents sha (node_storage c1)) = fst (contents sha (node_storage ?c))"
    and blobs: "holds_blob (contents sha (node_storage c1)) data"
      "\<And>e. holds_blob (contents sha (node_storage ?c)) e \<Longrightarrow> holds_blob (contents sha (node_storage c1)) e"
    by blast
  then have fst: "fst (contents sha (node_storage c1)) = fst (D p)" using c(4) by simp
  have c1': "node_transport c1 = Some (cluster_transport link p)" "M - {p} \<subseteq> set (contacts (node_rt c1))"
    using c(5) by (simp_all add: c1(1))
  from member_stores [OF M c1(2) c1' c(6), where env = env and k = k and v = ?v] obtain targets sent c' w' where
    s: "StoreValue (cluster_env env) k ?v (c1, ?w0) = Done (None, sent, c', w')"
    and t: "set targets \<subseteq> M - {p}" "nearest k (M - {p}) (hd targets)" "targets \<noteq> []"
    and w': "served sha M (M - {p}) (\<lambda>m. if m \<in> set targets then with_value k (norm_meta ?v) (D m) else D m) (\<lambda>m. M - {m}) w'"
    and c': "member sha M p c'" "M - {p} \<subseteq> set (contacts (node_rt c'))" and ev: "evolves c1 c'"
    and "card (M - {p}) \<le> 2 \<longrightarrow> set targets = M - {p}" .
  have "StoreBlob sha (cluster_env env) k data mime (?c, ?w0) = Done (None, sent, c', w')"
    using put s c(2) by (simp add: StoreBlob_def c1(1) Let_def)
  then have r: "store_blob_at far link sha env k data mime p w
      = Done (None, w'\<lparr>cl_nodes := (cl_nodes w')(endpoint p \<mapsto> with_transport far c')\<rparr>)"
    by (simp add: store_blob_at_def run_at_def c(1,2) Let_def)
  have "contents sha (node_storage c') = contents sha (node_storage c1)" using evolves_fields(2) [OF ev] by simp
  from put_back [OF M(1,2) w' c'(1) this c'(2), of far] have
    "complete sha M ((\<lambda>m. if m \<in> set targets then with_value k (norm_meta ?v) (D m) else D m)(p := contents sha (node_storage c1)))
      (w'\<lparr>cl_nodes := (cl_nodes w')(endpoint p \<mapsto> with_transport far c')\<rparr>)" by (simp add: fun_upd_idem)
  moreover have "(\<lambda>m. if m \<in> set targets then with_value k (norm_meta ?v) (D m) else D m)(p := contents sha (node_storage c1))
      = (\<lambda>m. if m \<in> set targets then with_value k (norm_meta ?v) (D m) else (D(p := contents sha (node_storage c1))) m)"
    using t(1) by (auto simp: fun_eq_iff)
  ultimately have "complete sha M (\<lambda>m. if m \<in> set targets then with_value k (norm_meta ?v) (D m)
      else (D(p := contents sha (node_storage c1))) m) (w'\<lparr>cl_nodes := (cl_nodes w')(endpoint p \<mapsto> with_transport far c')\<rparr>)"
    by (simp only:)
  with r t fst blobs c(4) show thesis by (intro that [of _ targets]) simp_all
qed

lemma cluster_fetch:
  assumes M: "members_ok M" "q \<in> M" "p \<in> M" and w: "complete sha M D w" and held: "holds_blob (D p) data"
    and data: "collision_free sha data" "data \<noteq> []" "length data < 2 ^ 64"
    and v: "\<not> Inline v" "BlobRef v = blob_ref sha data" "BlobNode v = nn_id p"
  obtains w' where "fetch_at far link (Some v) q w = Done (Inr (Some data), w')" and "complete sha M D w'"
proof -
  note finish = that
  let ?w0 = "w\<lparr>cl_nodes := (cl_nodes w)(endpoint q := None)\<rparr>"
  from take_out [OF M(1,2) w] obtain c where c: "cl_nodes w (endpoint q) = Some c" "node_self c = q"
    "member sha M q (with_transport (cluster_transport link q) c)" "contents sha (node_storage c) = D q"
    "M - {q} \<subseteq> set (contacts (node_rt c))" "served sha M (M - {q}) D (\<lambda>m. M - {m}) ?w0" .
  let ?c = "with_transport (cluster_transport link q) c"
  have inv: "node_inv sha ?c" using c(3) by (simp add: member_def)
  have ref: "blob_ref sha data \<noteq> []" "length (blob_ref sha data) = 64" by (simp_all add: blob_ref_def flip: length_0_conv)
  have fetched_then: thesis if "FetchBlob (Some v) (?c, ?w0) = Done (Inr (Some data), w1)" "served sha M (M - {q}) D (\<lambda>m. M - {m}) w1" for w1
  proof -
    have "contents sha (node_storage ?c) = D q" "M - {q} \<subseteq> set (contacts (node_rt ?c))" using c(4,5) by simp_all
    from put_back [OF M(1,2) that(2) c(3) this, of far] that(1) show thesis
      by (intro finish) (simp_all add: fetch_at_def run_at_def c(1,2) Let_def fun_upd_idem)
  qed
  show thesis
  proof (cases "\<exists>bs d. blobStore ?c = Some bs \<and> GetBlob bs (blob_ref sha data) = Inr d")
    case True
    then obtain bs d where bs: "blobStore ?c = Some bs" "GetBlob bs (blob_ref sha data) = Inr d" by blast
    with local_blob [OF inv data(1) bs] have "FetchBlob (Some v) (?c, ?w0) = Done (Inr (Some data), ?w0)"
      using v ref by (simp add: FetchBlob_def)
    then show thesis using c(6) by (rule fetched_then)
  next
    case False
    have "p \<noteq> q"
    proof
      assume "p = q"
      then have "holds_blob (contents sha (node_storage ?c)) data" using held c(4) by simp
      with False show False by (auto simp: holds_blob_def contents_def blobStore_def split: storage.splits)
    qed
    with M(3) have p: "p \<in> M - {q}" by simp
    from c(6) p obtain n where n: "cl_nodes ?w0 (endpoint p) = Some n" "member sha M p n"
      "contents sha (node_storage n) = D p" by (rule servedE)
    have "set (contacts (node_rt ?c)) = M - {q}" using c(3,5) by (auto simp: member_def)
    from nearest_is_self [OF M(1,2) c(3) this p] obtain rest where near: "FindClosest (node_rt ?c) (nn_id p) 1 = p # rest" .
    have "OnFetchBlob (Some q) (blob_ref sha data) n = Inr data" using holds_OnFetchBlob held n(3) by metis
    then have fetch: "tr_fetch_blob (link q p) p (blob_ref sha data) (n, cl_env ?w0) = (Inr data, n, cl_env ?w0)"
      using link_fetch [of q "blob_ref sha data" "(n, cl_env ?w0)" data] data ref by simp
    have "node_self n = p" using n(2) by (simp add: member_def)
    let ?w1 = "\<lparr>cl_nodes = (cl_nodes ?w0)(endpoint p \<mapsto> n), cl_env = cl_env ?w0\<rparr>"
    have "tr_fetch_blob (cluster_transport link q) p (blob_ref sha data) ?w0 = (Inr data, ?w1)"
      using fetch n(1) \<open>node_self n = p\<close> by (simp add: cluster_transport_simps deliver_def)
    moreover have "\<forall>bs. blobStore ?c = Some bs \<longrightarrow> (\<exists>e. GetBlob bs (blob_ref sha data) = Inl e)"
      using False by (metis sum.exhaust)
    ultimately have "FetchBlob (Some v) (?c, ?w0) = Done (Inr (Some data), ?w1)"
      using v ref near by (auto simp: FetchBlob_def Let_def split: option.splits)
    moreover have "served sha M (M - {q}) D (\<lambda>m. M - {m}) ?w1"
      using served_cong [OF c(6), of ?w1] n(1) by (simp add: fun_upd_idem)
    ultimately show thesis by (rule fetched_then)
  qed
qed

lemma cluster_fetch_inline:
  assumes M: "members_ok M" "q \<in> M" and w: "complete sha M D w" and v: "Inline v"
  obtains w' where "fetch_at far link (Some v) q w = Done (Inr (Data v), w')" and "complete sha M D w'"
proof -
  from take_out [OF M w] obtain c where c: "cl_nodes w (endpoint q) = Some c" "node_self c = q"
    "member sha M q (with_transport (cluster_transport link q) c)" "contents sha (node_storage c) = D q"
    "M - {q} \<subseteq> set (contacts (node_rt c))"
    "served sha M (M - {q}) D (\<lambda>m. M - {m}) (w\<lparr>cl_nodes := (cl_nodes w)(endpoint q := None)\<rparr>)" .
  from put_back [OF M c(6,3), of "D q" "M - {q}" far] c(4,5) v show thesis
    by (intro that) (simp_all add: fetch_at_def run_at_def FetchBlob_def c(1,2) Let_def fun_upd_idem)
qed

end

end
