(* ===== verification/Cluster_History.thy ===== *)
theory Cluster_History
  imports Cluster_Blob
begin

text \<open>
  Histories of a cluster: joins, stores, finds and fetches one after another, each at any member.
  The abstract cluster is a set of members with a map from keys to what was stored under them.
\<close>

section \<open>Histories\<close>

datatype cluster_op =
    Join network_node network_node storage
  | Put network_node dht_key value_meta
  | PutData network_node dht_key bytes string
  | Find network_node dht_key
  | Fetch network_node dht_key

datatype cluster_reply =
    Replied "go_error option"
  | Found "value_meta option" "go_error option"
  | Fetched "go_error + bytes option"

text \<open>A join is that of a new node, as in the programs under \<open>cmd\<close>; a fetch is a find before it.\<close>

definition new_member :: "'e transport \<Rightarrow> network_node \<Rightarrow> storage \<Rightarrow> 'e cluster \<Rightarrow> 'e cluster" where
  "new_member far p st w =
     w\<lparr>cl_nodes := (cl_nodes w)(endpoint p \<mapsto> NewNodeWithStorage p (Some far) (Some st))\<rparr>"

fun cluster_step ::
  "(bytes \<Rightarrow> bytes) \<Rightarrow> 'e transport \<Rightarrow> 'e link \<Rightarrow> 'e env \<Rightarrow> cluster_op \<Rightarrow> 'e cluster \<Rightarrow>
     (cluster_reply \<times> 'e cluster) outcome"
where
  "cluster_step sha far link env (Join p m st) w =
     and_then (bootstrap_at far link env [m] p (new_member far p st w)) (\<lambda>(err, w). Done (Replied err, w))"
| "cluster_step sha far link env (Put p k v) w =
     and_then (store_at far link env k v p w) (\<lambda>(err, w). Done (Replied err, w))"
| "cluster_step sha far link env (PutData p k data mime) w =
     and_then (store_blob_at far link sha env k data mime p w) (\<lambda>(err, w). Done (Replied err, w))"
| "cluster_step sha far link env (Find q k) w =
     and_then (find_at far link env k q w) (\<lambda>((val, err), w). Done (Found val err, w))"
| "cluster_step sha far link env (Fetch q k) w =
     and_then (find_at far link env k q w)
       (\<lambda>((val, err), w). if err \<noteq> None then Done (Found val err, w)
          else and_then (fetch_at far link val q w) (\<lambda>(r, w). Done (Fetched r, w)))"

primrec cluster_run ::
  "(bytes \<Rightarrow> bytes) \<Rightarrow> 'e transport \<Rightarrow> 'e link \<Rightarrow> 'e env \<Rightarrow> cluster_op list \<Rightarrow> 'e cluster \<Rightarrow>
     (cluster_reply list \<times> 'e cluster) outcome"
where
  "cluster_run sha far link env [] w = Done ([], w)"
| "cluster_run sha far link env (op # ops) w =
     and_then (cluster_step sha far link env op w)
       (\<lambda>(r, w). and_then (cluster_run sha far link env ops w) (\<lambda>(rs, w). Done (r # rs, w)))"

section \<open>The specification\<close>

datatype entry = Value value_meta | Blob network_node bytes string

fun entry_meta :: "(bytes \<Rightarrow> bytes) \<Rightarrow> entry \<Rightarrow> value_meta" where
  "entry_meta sha (Value v) = norm_meta v"
| "entry_meta sha (Blob p data mime) = norm_meta (blob_meta (blob_ref sha data) (nn_id p) data mime)"

text \<open>The members, those of them with a disk, and the map.\<close>

record shared_map =
  sm_members :: "network_node set"
  sm_disks :: "network_node set"
  sm_map :: "dht_key \<rightharpoonup> entry"

fun spec_step :: "(bytes \<Rightarrow> bytes) \<Rightarrow> cluster_op \<Rightarrow> shared_map \<Rightarrow> cluster_reply \<times> shared_map" where
  "spec_step sha (Join p m st) a =
     (Replied None, a\<lparr>sm_members := insert p (sm_members a),
        sm_disks := (case st of Memory x \<Rightarrow> sm_disks a | Disk d \<Rightarrow> insert p (sm_disks a))\<rparr>)"
| "spec_step sha (Put p k v) a = (Replied None, a\<lparr>sm_map := (sm_map a)(k \<mapsto> Value v)\<rparr>)"
| "spec_step sha (PutData p k data mime) a = (Replied None, a\<lparr>sm_map := (sm_map a)(k \<mapsto> Blob p data mime)\<rparr>)"
| "spec_step sha (Find q k) a =
     ((case sm_map a k of None \<Rightarrow> Found None (Some ErrNotFound) | Some e \<Rightarrow> Found (Some (entry_meta sha e)) None), a)"
| "spec_step sha (Fetch q k) a =
     ((case sm_map a k of
         None \<Rightarrow> Found None (Some ErrNotFound)
       | Some (Value v) \<Rightarrow> Fetched (Inr (Data (norm_meta v)))
       | Some (Blob p data mime) \<Rightarrow> Fetched (Inr (Some data))), a)"

primrec spec_run :: "(bytes \<Rightarrow> bytes) \<Rightarrow> cluster_op list \<Rightarrow> shared_map \<Rightarrow> cluster_reply list \<times> shared_map" where
  "spec_run sha [] a = ([], a)"
| "spec_run sha (op # ops) a =
     (let (r, a) = spec_step sha op a; (rs, a) = spec_run sha ops a in (r # rs, a))"

text \<open>
  What a client may do: a key keeps the first value it was given, no member works alone, and new
  members come while there are few; a value that is fetched is inline or a blob.
\<close>

definition writable :: "(bytes \<Rightarrow> bytes) \<Rightarrow> shared_map \<Rightarrow> network_node \<Rightarrow> dht_key \<Rightarrow> entry \<Rightarrow> bool" where
  "writable sha a p k e \<longleftrightarrow> p \<in> sm_members a \<and> sm_members a \<noteq> {p} \<and> (\<forall>e'. sm_map a k = Some e' \<longrightarrow> e' = e)"

definition readable :: "shared_map \<Rightarrow> network_node \<Rightarrow> bool" where
  "readable a q \<longleftrightarrow> q \<in> sm_members a \<and> sm_members a \<noteq> {q}"

fun legal :: "(bytes \<Rightarrow> bytes) \<Rightarrow> cluster_op \<Rightarrow> shared_map \<Rightarrow> bool" where
  "legal sha (Join p m st) a \<longleftrightarrow>
     p \<notin> sm_members a \<and> m \<in> sm_members a \<and> members_ok (insert p (sm_members a)) \<and> card (sm_members a) \<le> Alpha
     \<and> storage_inv sha st \<and> storage_view st = Map.empty"
| "legal sha (Put p k v) a \<longleftrightarrow> writable sha a p k (Value v)"
| "legal sha (PutData p k data mime) a \<longleftrightarrow>
     writable sha a p k (Blob p data mime) \<and> p \<in> sm_disks a
     \<and> collision_free sha data \<and> data \<noteq> [] \<and> length data < 2 ^ 64"
| "legal sha (Find q k) a \<longleftrightarrow> readable a q"
| "legal sha (Fetch q k) a \<longleftrightarrow> readable a q \<and> (\<forall>v. sm_map a k = Some (Value v) \<longrightarrow> Inline v)"

primrec legal_run :: "(bytes \<Rightarrow> bytes) \<Rightarrow> cluster_op list \<Rightarrow> shared_map \<Rightarrow> bool" where
  "legal_run sha [] a \<longleftrightarrow> True"
| "legal_run sha (op # ops) a \<longleftrightarrow> legal sha op a \<and> legal_run sha ops (snd (spec_step sha op a))"

section \<open>The simulation\<close>

text \<open>
  A value is where a search from any member asks first, or at the member itself; no other value
  is stored under its key. A blob is at its member.
\<close>

definition present :: "network_node set \<Rightarrow> (network_node \<Rightarrow> contents) \<Rightarrow> dht_key \<Rightarrow> value_meta \<Rightarrow> bool" where
  "present M D k v \<longleftrightarrow>
     (\<forall>m \<in> M. fst (D m) k \<in> {None, Some v})
     \<and> (\<forall>q \<in> M. fst (D q) k \<noteq> None \<or> (\<exists>a \<in> M - {q}. rank k (M - {q}) a < Alpha \<and> fst (D a) k \<noteq> None))"

definition blob_kept :: "(bytes \<Rightarrow> bytes) \<Rightarrow> network_node set \<Rightarrow> (network_node \<Rightarrow> contents) \<Rightarrow> entry \<Rightarrow> bool" where
  "blob_kept sha M D e \<longleftrightarrow>
     (case e of Value v \<Rightarrow> True
      | Blob p data mime \<Rightarrow> p \<in> M \<and> holds_blob (D p) data \<and> collision_free sha data \<and> data \<noteq> [] \<and> length data < 2 ^ 64)"

definition stands_for :: "(bytes \<Rightarrow> bytes) \<Rightarrow> (network_node \<Rightarrow> contents) \<Rightarrow> shared_map \<Rightarrow> bool" where
  "stands_for sha D a \<longleftrightarrow>
     members_ok (sm_members a) \<and> sm_disks a \<subseteq> {m \<in> sm_members a. snd (D m) \<noteq> None}
     \<and> (\<forall>k. case sm_map a k of
          None \<Rightarrow> \<forall>m \<in> sm_members a. fst (D m) k = None
        | Some e \<Rightarrow> present (sm_members a) D k (entry_meta sha e) \<and> blob_kept sha (sm_members a) D e)"

definition cluster_is :: "(bytes \<Rightarrow> bytes) \<Rightarrow> shared_map \<Rightarrow> 'e cluster \<Rightarrow> bool" where
  "cluster_is sha a w \<longleftrightarrow> (\<exists>D. complete sha (sm_members a) D w \<and> stands_for sha D a)"

lemma with_value_simps [simp]: "fst (with_value k v d) = (fst d)(k \<mapsto> v)" "snd (with_value k v d) = snd d"
  by (simp_all add: with_value_def)

lemma norm_entry_meta [simp]: "norm_meta (entry_meta sha e) = entry_meta sha e"
  by (cases e) simp_all

lemma stands_forI:
  assumes "members_ok (sm_members a)" and "\<And>m. m \<in> sm_disks a \<Longrightarrow> m \<in> sm_members a \<and> snd (D m) \<noteq> None"
    and "\<And>k m. sm_map a k = None \<Longrightarrow> m \<in> sm_members a \<Longrightarrow> fst (D m) k = None"
    and "\<And>k e. sm_map a k = Some e \<Longrightarrow> present (sm_members a) D k (entry_meta sha e)"
    and "\<And>k e. sm_map a k = Some e \<Longrightarrow> blob_kept sha (sm_members a) D e"
  shows "stands_for sha D a"
  using assms unfolding stands_for_def by (auto split: option.split simp del: not_None_eq)

lemma stands_for_members:
  assumes "stands_for sha D a"
  shows "members_ok (sm_members a)" "m \<in> sm_disks a \<Longrightarrow> m \<in> sm_members a" "m \<in> sm_disks a \<Longrightarrow> snd (D m) \<noteq> None"
  using assms unfolding stands_for_def by blast+

lemma stands_for_entry:
  assumes "stands_for sha D a" and "sm_map a k = Some e"
  shows "present (sm_members a) D k (entry_meta sha e)" "blob_kept sha (sm_members a) D e"
  using spec [OF conjunct2 [OF conjunct2 [OF assms(1) [unfolded stands_for_def]]], of k] assms(2) by simp_all

lemma stands_for_none:
  "stands_for sha D a \<Longrightarrow> sm_map a k = None \<Longrightarrow> m \<in> sm_members a \<Longrightarrow> fst (D m) k = None"
  unfolding stands_for_def by (metis (mono_tags, lifting) option.simps(4))

lemma present_cong:
  assumes "present M D k v" and "\<And>m. m \<in> M \<Longrightarrow> fst (D' m) k = fst (D m) k"
  shows "present M D' k v"
proof -
  have "fst (D' a) k = fst (D a) k" if "a \<in> M - {q}" for a q using that assms(2) by blast
  with assms show ?thesis by (simp add: present_def)
qed

lemma blob_kept_mono:
  assumes "blob_kept sha M D e" and "M \<subseteq> M'" and "\<And>m x. m \<in> M \<Longrightarrow> holds_blob (D m) x \<Longrightarrow> holds_blob (D' m) x"
  shows "blob_kept sha M' D' e"
  using assms by (auto simp: blob_kept_def split: entry.splits)

lemma stands_for_store:
  assumes a: "stands_for sha D a" and p: "p \<in> sm_members a"
    and t: "set targets \<subseteq> sm_members a - {p}" "nearest k (sm_members a - {p}) (hd targets)" "targets \<noteq> []"
    and same: "\<forall>e'. sm_map a k = Some e' \<longrightarrow> e' = e"
    and D: "\<And>m. fst (D' m) = fst (D m)" "\<And>m x. holds_blob (D m) x \<Longrightarrow> holds_blob (D' m) x" "\<And>m. snd (D m) \<noteq> None \<Longrightarrow> snd (D' m) \<noteq> None"
    and e: "blob_kept sha (sm_members a) D' e"
  shows "stands_for sha (\<lambda>m. if m \<in> set targets then with_value k (entry_meta sha e) (D' m) else D' m)
           (a\<lparr>sm_map := (sm_map a)(k \<mapsto> e)\<rparr>)"
proof -
  let ?M = "sm_members a" and ?D = "\<lambda>m. if m \<in> set targets then with_value k (entry_meta sha e) (D' m) else D' m"
  have views: "fst (?D m) = (if m \<in> set targets then (fst (D m))(k \<mapsto> entry_meta sha e) else fst (D m))" for m
    using D(1) by simp
  have blobs: "holds_blob (D m) x \<Longrightarrow> holds_blob (?D m) x" "snd (D m) \<noteq> None \<Longrightarrow> snd (?D m) \<noteq> None" for m x
    using D(2,3) by simp_all
  have old: "fst (D m) k \<in> {None, Some (entry_meta sha e)}" if "m \<in> ?M" for m
    using stands_for_entry(1) [OF a] stands_for_none [OF a _ that] same that
    by (cases "sm_map a k") (auto simp: present_def)
  have new: "present ?M ?D k (entry_meta sha e)"
    unfolding present_def
  proof (intro conjI ballI)
    show "fst (?D m) k \<in> {None, Some (entry_meta sha e)}" if "m \<in> ?M" for m
      using old [OF that] by (simp add: views)
    fix q assume q: "q \<in> ?M"
    have hd: "hd targets \<in> set targets" "fst (?D (hd targets)) k \<noteq> None" using t(3) by simp_all
    show "fst (?D q) k \<noteq> None \<or> (\<exists>b \<in> ?M - {q}. rank k (?M - {q}) b < Alpha \<and> fst (?D b) k \<noteq> None)"
    proof (cases "q = hd targets")
      case False
      with hd(1) t(1) have "hd targets \<in> ?M - {q}" by blast
      with rank_nearest [OF t(2)] hd(2) show ?thesis by blast
    qed (use hd in simp)
  qed
  let ?a = "a\<lparr>sm_map := (sm_map a)(k \<mapsto> e)\<rparr>"
  show ?thesis
  proof (rule stands_forI)
    show "m \<in> sm_members ?a \<and> snd (?D m) \<noteq> None" if "m \<in> sm_disks ?a" for m
      using that stands_for_members(2,3) [OF a, of m] blobs(2) [of m] by simp
    show "fst (?D m) k' = None" if "sm_map ?a k' = None" "m \<in> sm_members ?a" for k' m
      using stands_for_none [OF a, of k' m] that by (simp add: views split: if_splits)
    show "present (sm_members ?a) ?D k' (entry_meta sha e')" if e': "sm_map ?a k' = Some e'" for k' e'
    proof (cases "k' = k")
      case False
      then have "present ?M D k' (entry_meta sha e')" using stands_for_entry(1) [OF a, of k'] e' by simp
      then have "present ?M ?D k' (entry_meta sha e')" by (rule present_cong) (use False in \<open>simp add: views\<close>)
      then show ?thesis by simp
    qed (use new e' in simp)
    show "blob_kept sha (sm_members ?a) ?D e'" if "sm_map ?a k' = Some e'" for k' e'
    proof (cases "k' = k")
      case True
      then have "blob_kept sha ?M D' e'" using e that by simp
      then show ?thesis by (rule blob_kept_mono) simp_all
    next
      case False
      then have "blob_kept sha ?M D e'" using stands_for_entry(2) [OF a, of k'] that by simp
      then show ?thesis by (rule blob_kept_mono) (use blobs(1) in simp_all)
    qed
  qed (use stands_for_members(1) [OF a] in simp)
qed

lemma stands_for_join:
  assumes a: "stands_for sha D a" and p: "p \<notin> sm_members a" "sm_members a \<noteq> {}" "members_ok (insert p (sm_members a))"
    and card: "card (sm_members a) \<le> Alpha" and st: "storage_view st = Map.empty"
  shows "stands_for sha (D(p := contents sha st)) (snd (spec_step sha (Join p m st) a))"
proof -
  let ?M = "sm_members a" and ?N = "insert p (sm_members a)" and ?D = "D(p := contents sha st)"
  have empty: "fst (?D p) = Map.empty" using st by (simp add: contents_def)
  have other: "?D q = D q" if "q \<in> ?M" for q using p(1) that by auto
  let ?a = "snd (spec_step sha (Join p m st) a)"
  show ?thesis
  proof (rule stands_forI)
    show "q \<in> sm_members ?a \<and> snd (?D q) \<noteq> None" if "q \<in> sm_disks ?a" for q
      using that stands_for_members(2,3) [OF a, of q] other [of q]
      by (cases st; cases "q = p") (auto simp: contents_def)
    show "fst (?D q) k = None" if "sm_map ?a k = None" "q \<in> sm_members ?a" for k q
      using that stands_for_none [OF a, of k q] empty by (cases "q = p") simp_all
    show "blob_kept sha (sm_members ?a) ?D e" if "sm_map ?a k = Some e" for k e
    proof -
      have "blob_kept sha ?M D e" using stands_for_entry(2) [OF a] that by simp
      then show ?thesis by (rule blob_kept_mono) (use other in auto)
    qed
    show "present (sm_members ?a) ?D k (entry_meta sha e)" if "sm_map ?a k = Some e" for k e
    proof -
      have old: "present ?M D k (entry_meta sha e)" using stands_for_entry(1) [OF a] that by simp
      with p(2) obtain b where b: "b \<in> ?M" "fst (D b) k \<noteq> None" unfolding present_def by blast
      have fin: "finite ?M" using stands_for_members(1) [OF a] by (simp add: members_ok_def)
      have "fst (?D q) k \<noteq> None \<or> (\<exists>c \<in> ?N - {q}. rank k (?N - {q}) c < Alpha \<and> fst (?D c) k \<noteq> None)" if "q \<in> ?N" for q
      proof (cases "q = b")
        case False
        then have "b \<in> ?N - {q}" using b(1) by simp
        moreover have "card (?N - {q}) \<le> Alpha" using that fin p(1) card by simp
        with rank_small [OF _ \<open>b \<in> ?N - {q}\<close>, of k] fin have "rank k (?N - {q}) b < Alpha" by simp
        moreover have "fst (?D b) k \<noteq> None" using b other by metis
        ultimately show ?thesis by blast
      qed (use b other in simp)
      moreover have "fst (?D q) k \<in> {None, Some (entry_meta sha e)}" if "q \<in> ?N" for q
        using that old empty other by (cases "q = p") (simp_all add: present_def)
      ultimately show ?thesis by (simp add: present_def)
    qed
  qed (use p(3) in simp)
qed

end
