(* ===== verification/Cluster_Simulation.thy ===== *)
theory Cluster_Simulation
  imports Cluster_History
begin

text \<open>Every legal operation of a cluster is a step of the abstract one, over any delivering link.\<close>

lemma new_member_node:
  "storage_inv sha st \<Longrightarrow> member sha (insert p M) p (NewNodeWithStorage p tr (Some st))"
  "contacts (node_rt (NewNodeWithStorage p tr (Some st))) = []" "node_storage (NewNodeWithStorage p tr (Some st)) = st"
proof -
  show c: "contacts (node_rt (NewNodeWithStorage p tr (Some st))) = []"
    by (simp add: NewNodeWithStorage_def contacts_def SetPing_def NewRoutingTable_def)
  show "storage_inv sha st \<Longrightarrow> member sha (insert p M) p (NewNodeWithStorage p tr (Some st))"
    using NewNodeWithStorage_inv [of "Some st" sha p tr] c by (simp add: member_def) (simp add: NewNodeWithStorage_def)
qed (simp add: NewNodeWithStorage_def)

lemma served_members: "served sha M X D L w \<Longrightarrow> M \<subseteq> N \<Longrightarrow> served sha N X D L w"
  unfolding served_def member_def by blast

lemma cluster_isI: "complete sha (sm_members a) D w \<Longrightarrow> stands_for sha D a \<Longrightarrow> cluster_is sha a w"
  unfolding cluster_is_def by blast

abbreviation simulated ::
  "(bytes \<Rightarrow> bytes) \<Rightarrow> 'e transport \<Rightarrow> 'e link \<Rightarrow> 'e env \<Rightarrow> cluster_op \<Rightarrow> shared_map \<Rightarrow> 'e cluster \<Rightarrow> bool" where
  "simulated sha far link env op a w \<equiv>
     \<exists>w'. cluster_step sha far link env op w = Done (fst (spec_step sha op a), w')
        \<and> cluster_is sha (snd (spec_step sha op a)) w'"

context delivering_link
begin

lemma find_simulates:
  assumes w: "complete sha (sm_members a) D w" and a: "stands_for sha D a" and q: "readable a q"
  obtains w' where "find_at far link env k q w =
      Done ((map_option (entry_meta sha) (sm_map a k), if sm_map a k = None then Some ErrNotFound else None), w')"
    and "complete sha (sm_members a) D w'"
proof -
  have M: "members_ok (sm_members a)" "q \<in> sm_members a" "sm_members a \<noteq> {q}"
    using stands_for_members(1) [OF a] q by (simp_all add: readable_def)
  from cluster_find [OF M w, of far env k] obtain val err w' where f: "find_at far link env k q w = Done ((val, err), w')"
    and w': "complete sha (sm_members a) D w'"
    and err: "val = None \<longleftrightarrow> err = Some ErrNotFound" "val \<noteq> None \<longleftrightarrow> err = None"
    and src: "\<And>v. val = Some v \<Longrightarrow> fst (D q) k = Some v
       \<or> (\<exists>m \<in> sm_members a. \<exists>v'. fst (D m) k = Some v' \<and> v = norm_meta v')"
    and own: "\<And>v. fst (D q) k = Some v \<Longrightarrow> val = Some v"
    and near: "\<And>b. b \<in> sm_members a - {q} \<Longrightarrow> rank k (sm_members a - {q}) b < Alpha \<Longrightarrow> fst (D b) k \<noteq> None \<Longrightarrow> val \<noteq> None"
    by blast
  have "val = map_option (entry_meta sha) (sm_map a k)"
  proof (cases "sm_map a k")
    case None
    with stands_for_none [OF a this] M(2) src show ?thesis by (cases val) fastforce+
  next
    case (Some e)
    have p: "present (sm_members a) D k (entry_meta sha e)" by (rule stands_for_entry(1) [OF a Some])
    have views: "v = entry_meta sha e" if "fst (D m) k = Some v" "m \<in> sm_members a" for m v
      using p that by (force simp: present_def)
    from p M(2) consider "fst (D q) k \<noteq> None"
      | b where "b \<in> sm_members a - {q}" "rank k (sm_members a - {q}) b < Alpha" "fst (D b) k \<noteq> None"
      unfolding present_def by blast
    then have "val \<noteq> None" using own near by cases auto
    then obtain v where v: "val = Some v" by blast
    from src [OF v] have "v = entry_meta sha e"
    proof (elim disjE bexE exE conjE)
      show "v = entry_meta sha e" if "m \<in> sm_members a" "fst (D m) k = Some v'" "v = norm_meta v'" for m v'
        using views [OF that(2,1)] that(3) by simp
    qed (use views M(2) in blast)
    with v Some show ?thesis by simp
  qed
  with err have "err = (if sm_map a k = None then Some ErrNotFound else None)" by (cases "sm_map a k") simp_all
  with f w' \<open>val = _\<close> that show thesis by simp
qed

lemma join_complete:
  assumes w: "complete sha M D w" and M: "members_ok (insert p M)" "p \<notin> M" "m \<in> M" and card: "card M \<le> Suc Alpha"
    and st: "storage_inv sha st"
  obtains w' where "bootstrap_at far link env [m] p (new_member far p st w) = Done (None, w')"
    and "complete sha (insert p M) (D(p := contents sha st)) w'"
    and "\<forall>x \<in> - (endpoint ` insert p M). cl_nodes w' x = cl_nodes (new_member far p st w) x"
proof -
  let ?c = "NewNodeWithStorage p (Some far) (Some st)" and ?w = "new_member far p st w"
  have c: "cl_nodes ?w (endpoint p) = Some ?c" "member sha (insert p M) p ?c" "contacts (node_rt ?c) = []" "node_storage ?c = st"
    using new_member_node [where p = p and st = st and tr = "Some far"] st by (simp_all add: new_member_def)
  have "endpoint q \<noteq> endpoint p" if "q \<in> M" for q
    using members_others(5) [OF M(1) insertI1, of q] that M(2) by auto
  with w have "served sha M M D (\<lambda>q. M - {q}) ?w" by (simp add: served_def new_member_def)
  then have "served sha (insert p M) M D (\<lambda>q. M - {q}) ?w" by (rule served_members) blast
  from cluster_join [OF M c(1-3) this, where far = far and env = env] obtain w' A where
    r: "bootstrap_at far link env [m] p ?w = Done (None, w')" and "m \<in> A" and A: "card M \<le> Suc Alpha \<longrightarrow> M \<subseteq> A"
    and w': "cluster sha (insert p M) (D(p := contents sha (node_storage ?c)))
      (\<lambda>q. if q = p then M else M - {q} \<union> (if q \<in> A then {p} else {})) w'"
    and same: "\<forall>x \<in> - (endpoint ` insert p M). cl_nodes w' x = cl_nodes ?w x" .
  have "complete sha (insert p M) (D(p := contents sha st)) w'"
    using w' unfolding c(4) by (rule served_mono) (use A card M(2) in auto)
  with r show thesis using same by (rule that)
qed

lemma join_simulates:
  assumes "complete sha (sm_members a) D w" and "legal sha (Join p m st) a"
  obtains w' where "bootstrap_at far link env [m] p (new_member far p st w) = Done (None, w')"
    and "complete sha (insert p (sm_members a)) (D(p := contents sha st)) w'"
    and "\<forall>x \<in> - (endpoint ` insert p (sm_members a)). cl_nodes w' x = cl_nodes (new_member far p st w) x"
  using join_complete [OF assms(1), of p m st far env] assms(2) by auto

text \<open>One operation, and with it every history.\<close>

lemma join_step:
  assumes D: "complete sha (sm_members a) D w" "stands_for sha D a" and legal: "legal sha (Join p m st) a"
  shows "simulated sha far link env (Join p m st) a w"
proof -
  from join_simulates [OF D(1) legal, of far env] obtain w' where
    "bootstrap_at far link env [m] p (new_member far p st w) = Done (None, w')"
    "complete sha (insert p (sm_members a)) (D(p := contents sha st)) w'"
    "\<forall>x \<in> - (endpoint ` insert p (sm_members a)). cl_nodes w' x = cl_nodes (new_member far p st w) x" .
  moreover have "stands_for sha (D(p := contents sha st)) (snd (spec_step sha (Join p m st) a))"
    using stands_for_join [OF D(2)] legal by auto
  ultimately show ?thesis by (auto simp: cluster_is_def)
qed

lemma put_step:
  assumes D: "complete sha (sm_members a) D w" "stands_for sha D a" and legal: "legal sha (Put p k v) a"
  shows "simulated sha far link env (Put p k v) a w"
proof -
  have ok: "members_ok (sm_members a)" by (rule stands_for_members(1) [OF D(2)])
  from legal have p: "p \<in> sm_members a" "sm_members a \<noteq> {p}" "\<forall>e'. sm_map a k = Some e' \<longrightarrow> e' = Value v"
    by (simp_all add: writable_def)
  from cluster_store [OF ok p(1,2) D(1), of far env k v] obtain targets w' where
    r: "store_at far link env k v p w = Done (None, w')"
    and t: "set targets \<subseteq> sm_members a - {p}" "nearest k (sm_members a - {p}) (hd targets)" "targets \<noteq> []"
    and w': "complete sha (sm_members a) (\<lambda>m. if m \<in> set targets then with_value k (norm_meta v) (D m) else D m) w'"
    and "card (sm_members a - {p}) \<le> 2 \<longrightarrow> set targets = sm_members a - {p}" .
  have "stands_for sha (\<lambda>m. if m \<in> set targets then with_value k (entry_meta sha (Value v)) (D m) else D m)
      (a\<lparr>sm_map := (sm_map a)(k \<mapsto> Value v)\<rparr>)"
    by (rule stands_for_store [OF D(2) p(1) t p(3)]) (simp_all add: blob_kept_def)
  from cluster_isI [OF _ this] w' r show ?thesis by (simp cong: if_cong)
qed

lemma put_data_step:
  assumes D: "complete sha (sm_members a) D w" "stands_for sha D a" and legal: "legal sha (PutData p k data mime) a"
  shows "simulated sha far link env (PutData p k data mime) a w"
proof -
  have ok: "members_ok (sm_members a)" by (rule stands_for_members(1) [OF D(2)])
  let ?e = "Blob p data mime"
  from legal have p: "p \<in> sm_members a" "sm_members a \<noteq> {p}" "\<forall>e'. sm_map a k = Some e' \<longrightarrow> e' = ?e"
    and data: "collision_free sha data" "data \<noteq> []" "length data < 2 ^ 64" and disks: "p \<in> sm_disks a"
    by (simp_all add: writable_def)
  have disk: "snd (D p) \<noteq> None" by (rule stands_for_members(3) [OF D(2) disks])
  from cluster_store_blob [OF ok p(1,2) D(1) disk data(1), where far = far and env = env and k = k and mime = mime] obtain targets d w' where
    r: "store_blob_at far link sha env k data mime p w = Done (None, w')"
    and t: "set targets \<subseteq> sm_members a - {p}" "nearest k (sm_members a - {p}) (hd targets)" "targets \<noteq> []"
    and d: "fst d = fst (D p)" "holds_blob d data" "\<forall>x. holds_blob (D p) x \<longrightarrow> holds_blob d x"
    and w': "complete sha (sm_members a) (\<lambda>m. if m \<in> set targets
         then with_value k (norm_meta (blob_meta (blob_ref sha data) (nn_id p) data mime)) (D m)
         else (D(p := d)) m) w'" .
  have eq: "(\<lambda>m. if m \<in> set targets then with_value k (entry_meta sha ?e) ((D(p := d)) m) else (D(p := d)) m)
      = (\<lambda>m. if m \<in> set targets
         then with_value k (norm_meta (blob_meta (blob_ref sha data) (nn_id p) data mime)) (D m) else (D(p := d)) m)"
    using t(1) by (auto simp: fun_eq_iff)
  have "stands_for sha (\<lambda>m. if m \<in> set targets then with_value k (entry_meta sha ?e) ((D(p := d)) m) else (D(p := d)) m)
      (a\<lparr>sm_map := (sm_map a)(k \<mapsto> ?e)\<rparr>)"
  proof (rule stands_for_store [OF D(2) p(1) t p(3)])
    show "blob_kept sha (sm_members a) (D(p := d)) ?e" using p(1) d(2) data by (simp add: blob_kept_def)
    show "snd ((D(p := d)) m) \<noteq> None" if "snd (D m) \<noteq> None" for m
      using d(2) that by (auto simp: holds_blob_def)
  qed (use d in auto)
  from cluster_isI [OF _ this] w' r show ?thesis unfolding eq by simp
qed

lemma find_step:
  assumes D: "complete sha (sm_members a) D w" "stands_for sha D a" and legal: "legal sha (Find q k) a"
  shows "simulated sha far link env (Find q k) a w"
proof -
  from legal have "readable a q" by simp
  from find_simulates [OF D this, of far env k] obtain w' where "find_at far link env k q w =
      Done ((map_option (entry_meta sha) (sm_map a k), if sm_map a k = None then Some ErrNotFound else None), w')"
    "complete sha (sm_members a) D w'" .
  then show ?thesis using cluster_isI [OF _ D(2)] by (cases "sm_map a k") simp_all
qed

lemma fetch_step:
  assumes D: "complete sha (sm_members a) D w" "stands_for sha D a" and legal: "legal sha (Fetch q k) a"
  shows "simulated sha far link env (Fetch q k) a w"
proof -
  have ok: "members_ok (sm_members a)" by (rule stands_for_members(1) [OF D(2)])
  from legal have q: "readable a q" by simp
  from find_simulates [OF D q, of far env k] obtain w1 where f: "find_at far link env k q w =
      Done ((map_option (entry_meta sha) (sm_map a k), if sm_map a k = None then Some ErrNotFound else None), w1)"
    and w1: "complete sha (sm_members a) D w1" .
  show ?thesis
  proof (cases "sm_map a k")
    case None
    with f cluster_isI [OF w1 D(2)] show ?thesis by simp
  next
    case (Some e)
    have qm: "q \<in> sm_members a" using q by (simp add: readable_def)
    show ?thesis
    proof (cases e)
      case (Value v)
      then have "Inline (norm_meta v)" using legal Some by (simp add: norm_meta_def)
      from cluster_fetch_inline [OF ok qm w1 this, of far] obtain w2 where
        "fetch_at far link (Some (norm_meta v)) q w1 = Done (Inr (Data (norm_meta v)), w2)"
        "complete sha (sm_members a) D w2" .
      with f Some Value cluster_isI [OF _ D(2)] show ?thesis by simp
    next
      case (Blob p data mime)
      have kept: "p \<in> sm_members a" "holds_blob (D p) data" "collision_free sha data" "data \<noteq> []" "length data < 2 ^ 64"
        using stands_for_entry(2) [OF D(2) Some] by (simp_all add: Blob blob_kept_def)
      from cluster_fetch [OF ok qm kept(1) w1 kept(2-5), of "entry_meta sha e" far] obtain w2 where
        "fetch_at far link (Some (entry_meta sha e)) q w1 = Done (Inr (Some data), w2)"
        "complete sha (sm_members a) D w2" by (auto simp: Blob norm_meta_def blob_meta_def)
      with f Some Blob cluster_isI [OF _ D(2)] show ?thesis by simp
    qed
  qed
qed

lemma step_simulates:
  assumes "cluster_is sha a w" and "legal sha op a"
  shows "simulated sha far link env op a w"
proof -
  from assms(1) obtain D where D: "complete sha (sm_members a) D w" "stands_for sha D a" unfolding cluster_is_def by blast
  show ?thesis
  proof (cases op)
    case Join
    show ?thesis using assms(2) unfolding Join by (rule join_step [OF D])
  next
    case Put
    show ?thesis using assms(2) unfolding Put by (rule put_step [OF D])
  next
    case PutData
    show ?thesis using assms(2) unfolding PutData by (rule put_data_step [OF D])
  next
    case Find
    show ?thesis using assms(2) unfolding Find by (rule find_step [OF D])
  next
    case Fetch
    show ?thesis using assms(2) unfolding Fetch by (rule fetch_step [OF D])
  qed
qed

lemma run_simulates:
  assumes "cluster_is sha a w" and "legal_run sha ops a"
  shows "\<exists>w'. cluster_run sha far link env ops w = Done (fst (spec_run sha ops a), w')
     \<and> cluster_is sha (snd (spec_run sha ops a)) w'"
  using assms
proof (induction ops arbitrary: a w)
  case (Cons op ops)
  then have legal: "legal sha op a" "legal_run sha ops (snd (spec_step sha op a))" by simp_all
  from step_simulates [OF Cons.prems(1) legal(1), of far env] obtain w1 where
    w1: "cluster_step sha far link env op w = Done (fst (spec_step sha op a), w1)"
    "cluster_is sha (snd (spec_step sha op a)) w1" by blast
  from Cons.IH [OF w1(2) legal(2)] w1(1) show ?case by (auto simp: Let_def split: prod.splits)
qed simp

end

end
