(* ===== verification/Cluster_Demos.thy ===== *)
theory Cluster_Demos
  imports Cluster_Simulation
begin

text \<open>
  \<open>cmd/disk_demo/main.go\<close> and \<open>cmd/webrtc_http_demo/main.go\<close>: three nodes over UDP, of which one
  keeps a blob on its disk and another fetches it, and two nodes over WebRTC. The networks deliver.
\<close>

section \<open>The programs\<close>

text \<open>A node that was started serves; \<open>log.Fatal\<close> ends the program.\<close>

definition start_at :: "'e node \<Rightarrow> 'e cluster \<Rightarrow> go_error option \<times> 'e cluster" where
  "start_at node w =
     (let (err, node, e) = Start (node, cl_env w) in
      (err, \<lparr>cl_nodes = (if err = None then (cl_nodes w)(endpoint (node_self node) \<mapsto> node) else cl_nodes w),
             cl_env = e\<rparr>))"

definition or_fatal ::
  "(go_error option \<times> 'e cluster) outcome \<Rightarrow> ('e cluster \<Rightarrow> demo_end outcome) \<Rightarrow> demo_end outcome" where
  "or_fatal r rest = and_then r (\<lambda>(err, w). if err \<noteq> None then Done Fatal else rest w)"

text \<open>\<open>cmd/disk_demo\<close>, from the start of the nodes on.\<close>

definition disk_demo_blob ::
  "(bytes \<Rightarrow> bytes) \<Rightarrow> 'e transport \<Rightarrow> 'e link \<Rightarrow> 'e env \<Rightarrow> dht_key \<Rightarrow> bytes \<Rightarrow> network_node \<Rightarrow> network_node \<Rightarrow>
     'e cluster \<Rightarrow> demo_end outcome"
where
  "disk_demo_blob sha256 far link env fileKey blobData net1 net3 w =
     or_fatal (store_blob_at far link sha256 env fileKey blobData ''application/octet-stream'' net1 w)
       (\<lambda>w. and_then (find_at far link env fileKey net3 w)
         (\<lambda>((meta, err), w).
            if err \<noteq> None then Done Fatal
            else case meta of
                None \<Rightarrow> Done Fatal
              | Some m \<Rightarrow>
                  if Data m \<noteq> None then Done Fatal
                  else
                    and_then (fetch_at far link meta net3 w)
                      (\<lambda>(r, w). case r of
                          Inl err \<Rightarrow> Done Fatal
                        | Inr received \<Rightarrow>
                            if length (slice_bytes received) \<noteq> length blobData \<or> slice_bytes received \<noteq> blobData
                            then Done Fatal
                            else Done (Retrieved (slice_bytes received)))))"

definition disk_demo_main ::
  "(bytes \<Rightarrow> bytes) \<Rightarrow> (bytes \<Rightarrow> bytes) \<Rightarrow> (string \<Rightarrow> bytes option) \<Rightarrow> bytes \<Rightarrow> bytes \<Rightarrow> bytes \<Rightarrow>
     (string \<Rightarrow> go_error + string) \<Rightarrow> file_system \<Rightarrow> (nat \<Rightarrow> go_error + bytes) \<Rightarrow>
     'e transport \<Rightarrow> 'e link \<Rightarrow> 'e env \<Rightarrow> 'e cluster \<Rightarrow> demo_end outcome"
where
  "disk_demo_main sha1 sha256 parseIP rnd1 rnd2 rnd3 mkdirTemp fsys randRead far link env w =
     (case mkdirTemp ''dht-node1-*'' of Inl err \<Rightarrow> Done Fatal | Inr dir1 \<Rightarrow>
     (case mkdirTemp ''dht-node3-*'' of Inl err \<Rightarrow> Done Fatal | Inr dir3 \<Rightarrow>
        let net1 = NewNetworkNode rnd1 parseIP ''127.0.0.1'' 9101;
            node1 = NewNodeWithStorage net1 (Some far) (Some (Disk (NewDiskStorage dir1 fsys)));
            net2 = NewNetworkNode rnd2 parseIP ''127.0.0.1'' 9102;
            node2 = NewNode net2 (Some far);
            net3 = NewNetworkNode rnd3 parseIP ''127.0.0.1'' 9103;
            node3 = NewNodeWithStorage net3 (Some far) (Some (Disk (NewDiskStorage dir3 fsys)))
        in or_fatal (Done (start_at node1 w)) (\<lambda>w.
           or_fatal (Done (start_at node2 w)) (\<lambda>w.
           or_fatal (Done (start_at node3 w)) (\<lambda>w.
             and_then (bootstrap_at far link env [net1] net2 w) (\<lambda>(err, w).
             and_then (bootstrap_at far link env [net1] net3 w) (\<lambda>(err, w).
               (case randRead (200 * 1024) of
                  Inl err \<Rightarrow> Done Fatal
                | Inr blobData \<Rightarrow>
                    disk_demo_blob sha256 far link env (KeyFromString sha1 ''bigfile.bin'') blobData net1 net3 w))))))))"

text \<open>\<open>cmd/webrtc_http_demo\<close>; a nil value of \<open>FindValue\<close> without an error would be dereferenced.\<close>

definition http_demo_main ::
  "(bytes \<Rightarrow> bytes) \<Rightarrow> (string \<Rightarrow> bytes option) \<Rightarrow> bytes \<Rightarrow> bytes \<Rightarrow>
     'e transport \<Rightarrow> 'e link \<Rightarrow> 'e env \<Rightarrow> 'e cluster \<Rightarrow> demo_end outcome"
where
  "http_demo_main sha1 parseIP rnd1 rnd2 far link env w =
     (let net1 = NewNetworkNode rnd1 parseIP ''127.0.0.1'' 7100;
          node1 = NewNode net1 (Some far);
          net2 = NewNetworkNode rnd2 parseIP ''127.0.0.1'' 7101;
          node2 = NewNode net2 (Some far);
          key = KeyFromString sha1 ''hello''
      in or_fatal (Done (start_at node1 w)) (\<lambda>w.
         or_fatal (Done (start_at node2 w)) (\<lambda>w.
           and_then (bootstrap_at far link env [net1] net2 w) (\<lambda>(err, w).
             or_fatal (store_at far link env key
                 \<lparr>Inline = True, Data = Some (bytes_of_string ''world''), BlobRef = [],
                  BlobNode = key_of_slice [], Size = 0, MimeType = []\<rparr> net1 w) (\<lambda>w.
               and_then (find_at far link env key net2 w)
                 (\<lambda>((val, err), w).
                    if err \<noteq> None then Done Fatal
                    else case val of None \<Rightarrow> Crash | Some v \<Rightarrow> Done (Retrieved (slice_bytes (Data v)))))))))"

section \<open>Their parts\<close>

lemma started:
  assumes "\<And>e. fst (tr_listen far e) = None"
  obtains e where "start_at (NewNodeWithStorage p (Some far) (Some st)) w
    = (None, \<lparr>cl_nodes = (cl_nodes w)(endpoint p \<mapsto> NewNodeWithStorage p (Some far) (Some st)), cl_env = e\<rparr>)"
proof -
  obtain e where "tr_listen far (cl_env w) = (None, e)" using assms by (metis prod.collapse)
  moreover have "node_transport (NewNodeWithStorage p (Some far) (Some st)) = Some far"
    "node_self (NewNodeWithStorage p (Some far) (Some st)) = p" by (simp_all add: NewNodeWithStorage_def)
  ultimately show thesis by (intro that [of e]) (simp add: start_at_def Start_def)
qed

text \<open>The first node is a cluster of its own.\<close>

definition founded :: "network_node \<Rightarrow> storage \<Rightarrow> shared_map" where
  "founded p st = \<lparr>sm_members = {p}, sm_disks = (case st of Memory m \<Rightarrow> {} | Disk d \<Rightarrow> {p}), sm_map = Map.empty\<rparr>"

lemma founded_simps [simp]: "sm_members (founded p st) = {p}" "sm_map (founded p st) = Map.empty"
  by (simp_all add: founded_def)

lemma founder:
  assumes "cl_nodes w (endpoint p) = Some (NewNodeWithStorage p tr (Some st))"
    and st: "storage_inv sha st" "storage_view st = Map.empty"
  shows "cluster_is sha (founded p st) w"
proof -
  let ?D = "\<lambda>m. contents sha st"
  have "complete sha {p} ?D w"
    using assms(1) new_member_node(1) [OF st(1), of p "{}" tr] new_member_node(3) [of p tr st] by (simp add: served_def)
  moreover have "stands_for sha ?D (founded p st)"
    using st(2) by (intro stands_forI) (auto simp: founded_def members_ok_def contents_def split: storage.splits)
  ultimately show ?thesis by (intro cluster_isI) simp_all
qed

lemma and_then_eq_Done: "and_then r f = Done y \<longleftrightarrow> (\<exists>x. r = Done x \<and> f x = Done y)"
  by (cases r) simp_all

context delivering_link
begin

lemma join_known:
  assumes w: "cluster_is sha a w" and legal: "legal sha (Join p m st) a"
    and p: "cl_nodes w (endpoint p) = Some (NewNodeWithStorage p (Some far) (Some st))"
  obtains w' where "bootstrap_at far link env [m] p w = Done (None, w')"
    and "cluster_is sha (snd (spec_step sha (Join p m st) a)) w'"
    and "\<forall>x \<in> - (endpoint ` insert p (sm_members a)). cl_nodes w' x = cl_nodes w x"
proof -
  from w obtain D where D: "complete sha (sm_members a) D w" "stands_for sha D a" unfolding cluster_is_def by blast
  have new: "new_member far p st w = w" using p by (simp add: new_member_def fun_upd_idem)
  from join_simulates [OF D(1) legal, of far env] obtain w' where
    "bootstrap_at far link env [m] p w = Done (None, w')"
    "complete sha (insert p (sm_members a)) (D(p := contents sha st)) w'"
    "\<forall>x \<in> - (endpoint ` insert p (sm_members a)). cl_nodes w' x = cl_nodes w x" unfolding new .
  moreover have "stands_for sha (D(p := contents sha st)) (snd (spec_step sha (Join p m st) a))"
    using stands_for_join [OF D(2)] legal by auto
  ultimately show thesis by (intro that) (auto intro: cluster_isI)
qed

lemma put_known:
  assumes "cluster_is sha a w" and "legal sha (Put p k v) a"
  obtains w' where "store_at far link env k v p w = Done (None, w')"
    and "cluster_is sha (a\<lparr>sm_map := (sm_map a)(k \<mapsto> Value v)\<rparr>) w'"
  using step_simulates [OF assms, of far env] by (auto simp: and_then_eq_Done)

lemma put_data_known:
  assumes "cluster_is sha a w" and "legal sha (PutData p k data mime) a"
  obtains w' where "store_blob_at far link sha env k data mime p w = Done (None, w')"
    and "cluster_is sha (a\<lparr>sm_map := (sm_map a)(k \<mapsto> Blob p data mime)\<rparr>) w'"
  using step_simulates [OF assms, of far env] by (auto simp: and_then_eq_Done)

lemma find_known:
  assumes "cluster_is sha a w" and "readable a q" and "sm_map a k = Some e"
  obtains w' where "find_at far link env k q w = Done ((Some (entry_meta sha e), None), w')" and "cluster_is sha a w'"
  using step_simulates [OF assms(1), of "Find q k" far env] assms(2,3) by (auto simp: and_then_eq_Done)

lemma fetch_known:
  assumes "cluster_is sha a w" and "readable a q" and "sm_map a k = Some (Blob p data mime)"
    and "find_at far link env k q w = Done ((Some v, None), w1)"
  obtains w' where "fetch_at far link (Some v) q w1 = Done (Inr (Some data), w')"
  using step_simulates [OF assms(1), of "Fetch q k" far env] assms(2-4) by (auto simp: and_then_eq_Done)

lemma disk_demo_blob_fetched:
  assumes w: "cluster_is sha a w" and legal: "legal sha (PutData net1 key data ''application/octet-stream'') a"
    and q: "readable a net3"
  shows "disk_demo_blob sha far link env key data net1 net3 w = Done (Retrieved data)"
proof -
  let ?e = "Blob net1 data ''application/octet-stream''" and ?a = "a\<lparr>sm_map := (sm_map a)(key \<mapsto> Blob net1 data ''application/octet-stream'')\<rparr>"
  from put_data_known [OF w legal, of far env] obtain w1 where
    1: "store_blob_at far link sha env key data ''application/octet-stream'' net1 w = Done (None, w1)" "cluster_is sha ?a w1" .
  have q': "readable ?a net3" and k: "sm_map ?a key = Some ?e" using q by (simp_all add: readable_def)
  from find_known [OF 1(2) q' k, of far env] obtain w2 where
    2: "find_at far link env key net3 w1 = Done ((Some (entry_meta sha ?e), None), w2)" .
  from fetch_known [OF 1(2) q' k 2] obtain w3 where
    3: "fetch_at far link (Some (entry_meta sha ?e)) net3 w2 = Done (Inr (Some data), w3)" .
  have "Data (entry_meta sha ?e) = None" by (simp add: blob_meta_def norm_meta_def)
  with 1(1) 2 3 show ?thesis by (simp add: disk_demo_blob_def or_fatal_def del: entry_meta.simps)
qed

text \<open>The two programs: the ids that the nodes drew differ, and every node can listen.\<close>

lemma disk_demo_run:
  assumes ids: "distinct [copy_into 20 rnd1, copy_into 20 rnd2, copy_into 20 rnd3]"
    and listens: "\<And>e. fst (tr_listen far e) = None"
    and dirs: "mkdirTemp ''dht-node1-*'' = Inr dir1" "mkdirTemp ''dht-node3-*'' = Inr dir3"
    and fsys: "faults fsys = []" "files fsys = Map.empty"
    and rand: "randRead (200 * 1024) = Inr blob" "length blob = 200 * 1024" and free: "collision_free sha256 blob"
  shows "disk_demo_main sha1 sha256 parseIP rnd1 rnd2 rnd3 mkdirTemp fsys randRead far link env w = Done (Retrieved blob)"
proof -
  define net1 where "net1 = NewNetworkNode rnd1 parseIP ''127.0.0.1'' 9101"
  define net2 where "net2 = NewNetworkNode rnd2 parseIP ''127.0.0.1'' 9102"
  define net3 where "net3 = NewNetworkNode rnd3 parseIP ''127.0.0.1'' 9103"
  note nets = net1_def net2_def net3_def NewNetworkNode_def GenerateKey_def
  have port: "nn_port net1 = 9101" "nn_port net2 = 9102" "nn_port net3 = 9103" by (simp_all add: nets)
  have id: "nn_id net1 \<noteq> nn_id net2" "nn_id net1 \<noteq> nn_id net3" "nn_id net2 \<noteq> nn_id net3"
    using ids by (simp_all add: nets key_of_slice_eq_iff)
  then have ne: "net1 \<noteq> net2" "net1 \<noteq> net3" "net2 \<noteq> net3" by auto
  have ep: "endpoint net1 \<noteq> endpoint net2" "endpoint net1 \<noteq> endpoint net3" "endpoint net2 \<noteq> endpoint net3"
    by (simp_all add: endpoint_def port)
  have ok: "members_ok {net2, net1}" "members_ok {net3, net2, net1}"
    using members_ok_list [of "[net2, net1]"] members_ok_list [of "[net3, net2, net1]"] id [symmetric] ep [symmetric]
    by (simp_all add: K_def)
  let ?st = "\<lambda>dir. Disk (NewDiskStorage dir fsys)"
  have st: "storage_inv sha256 (?st dir)" "storage_view (?st dir) = Map.empty" for dir
    using NewDiskStorage_inv [OF fsys] fsys by (simp_all add: fun_eq_iff DiskGet_decode NewDiskStorage_def)
  let ?n1 = "NewNodeWithStorage net1 (Some far) (Some (?st dir1))" and ?n2 = "NewNodeWithStorage net2 (Some far) (Some new_memory)"
    and ?n3 = "NewNodeWithStorage net3 (Some far) (Some (?st dir3))"
  obtain e1 where 1: "start_at ?n1 w = (None, \<lparr>cl_nodes = (cl_nodes w)(endpoint net1 \<mapsto> ?n1), cl_env = e1\<rparr>)"
    using started [OF listens] by blast
  let ?w1 = "\<lparr>cl_nodes = (cl_nodes w)(endpoint net1 \<mapsto> ?n1), cl_env = e1\<rparr>"
  obtain e2 where 2: "start_at ?n2 ?w1 = (None, \<lparr>cl_nodes = (cl_nodes ?w1)(endpoint net2 \<mapsto> ?n2), cl_env = e2\<rparr>)"
    using started [OF listens] by blast
  let ?w2 = "\<lparr>cl_nodes = (cl_nodes ?w1)(endpoint net2 \<mapsto> ?n2), cl_env = e2\<rparr>"
  obtain e3 where 3: "start_at ?n3 ?w2 = (None, \<lparr>cl_nodes = (cl_nodes ?w2)(endpoint net3 \<mapsto> ?n3), cl_env = e3\<rparr>)"
    using started [OF listens] by blast
  let ?w3 = "\<lparr>cl_nodes = (cl_nodes ?w2)(endpoint net3 \<mapsto> ?n3), cl_env = e3\<rparr>"
  have a1: "cluster_is sha256 (founded net1 (?st dir1)) ?w3"
    using ep by (intro founder [OF _ st(1,2)]) simp
  let ?a2 = "snd (spec_step sha256 (Join net2 net1 new_memory) (founded net1 (?st dir1)))"
  obtain w4 where 4: "bootstrap_at far link env [net1] net2 ?w3 = Done (None, w4)" "cluster_is sha256 ?a2 w4"
    "\<forall>x \<in> - (endpoint ` {net2, net1}). cl_nodes w4 x = cl_nodes ?w3 x"
    using join_known [OF a1, of net2 net1 new_memory far env] ne ep ok(1) by (auto simp: Alpha_def)
  let ?a3 = "snd (spec_step sha256 (Join net3 net1 (?st dir3)) ?a2)"
  have "cl_nodes w4 (endpoint net3) = Some ?n3" using 4(3) ep by simp
  moreover have "legal sha256 (Join net3 net1 (?st dir3)) ?a2"
    using ne(2,3) [symmetric] ne(1) ok(2) st by (simp add: Alpha_def)
  ultimately obtain w5 where 5: "bootstrap_at far link env [net1] net3 w4 = Done (None, w5)" "cluster_is sha256 ?a3 w5"
    using join_known [OF 4(2)] by metis
  have "legal sha256 (PutData net1 (KeyFromString sha1 ''bigfile.bin'') blob ''application/octet-stream'') ?a3"
    using ne free rand(2) by (auto simp: writable_def founded_def new_memory_def)
  moreover have "readable ?a3 net3" using ne by (auto simp: readable_def)
  ultimately have "disk_demo_blob sha256 far link env (KeyFromString sha1 ''bigfile.bin'') blob net1 net3 w5 = Done (Retrieved blob)"
    using disk_demo_blob_fetched [OF 5(2)] by blast
  with 1 2 3 4(1) 5(1) show ?thesis
    by (simp add: disk_demo_main_def dirs rand(1) [simplified] or_fatal_def NewNode_def Let_def
        net1_def [symmetric] net2_def [symmetric] net3_def [symmetric])
qed

lemma http_demo_run:
  assumes ids: "copy_into 20 rnd1 \<noteq> copy_into 20 rnd2" and listens: "\<And>e. fst (tr_listen far e) = None"
  shows "http_demo_main sha1 parseIP rnd1 rnd2 far link env w = Done (Retrieved (bytes_of_string ''world''))"
proof -
  define net1 where "net1 = NewNetworkNode rnd1 parseIP ''127.0.0.1'' 7100"
  define net2 where "net2 = NewNetworkNode rnd2 parseIP ''127.0.0.1'' 7101"
  note nets = net1_def net2_def NewNetworkNode_def GenerateKey_def
  have id: "nn_id net1 \<noteq> nn_id net2" using ids by (simp add: nets key_of_slice_eq_iff)
  then have ne: "net1 \<noteq> net2" by auto
  have ep: "endpoint net1 \<noteq> endpoint net2" by (simp add: endpoint_def nets)
  have ok: "members_ok {net2, net1}"
    using members_ok_list [of "[net2, net1]"] id [symmetric] ep [symmetric] by (simp add: K_def)
  let ?n1 = "NewNodeWithStorage net1 (Some far) (Some new_memory)" and ?n2 = "NewNodeWithStorage net2 (Some far) (Some new_memory)"
  obtain e1 where 1: "start_at ?n1 w = (None, \<lparr>cl_nodes = (cl_nodes w)(endpoint net1 \<mapsto> ?n1), cl_env = e1\<rparr>)"
    using started [OF listens] by blast
  let ?w1 = "\<lparr>cl_nodes = (cl_nodes w)(endpoint net1 \<mapsto> ?n1), cl_env = e1\<rparr>"
  obtain e2 where 2: "start_at ?n2 ?w1 = (None, \<lparr>cl_nodes = (cl_nodes ?w1)(endpoint net2 \<mapsto> ?n2), cl_env = e2\<rparr>)"
    using started [OF listens] by blast
  let ?w2 = "\<lparr>cl_nodes = (cl_nodes ?w1)(endpoint net2 \<mapsto> ?n2), cl_env = e2\<rparr>" and ?sha = "\<lambda>b :: bytes. b"
  have a1: "cluster_is ?sha (founded net1 new_memory) ?w2" using ep by (intro founder) simp_all
  let ?a2 = "snd (spec_step ?sha (Join net2 net1 new_memory) (founded net1 new_memory))"
  obtain w3 where 3: "bootstrap_at far link env [net1] net2 ?w2 = Done (None, w3)" "cluster_is ?sha ?a2 w3"
    using join_known [OF a1, of net2 net1 new_memory far env] ne ep ok by (auto simp: Alpha_def)
  let ?v = "\<lparr>Inline = True, Data = Some (bytes_of_string ''world''), BlobRef = [], BlobNode = key_of_slice [], Size = 0, MimeType = []\<rparr>"
  let ?k = "KeyFromString sha1 ''hello''"
  have "legal ?sha (Put net1 ?k ?v) ?a2" using ne by (auto simp: writable_def)
  from put_known [OF 3(2) this, of far env] obtain w4 where
    4: "store_at far link env ?k ?v net1 w3 = Done (None, w4)"
      "cluster_is ?sha (?a2\<lparr>sm_map := (sm_map ?a2)(?k \<mapsto> Value ?v)\<rparr>) w4" .
  have "readable (?a2\<lparr>sm_map := (sm_map ?a2)(?k \<mapsto> Value ?v)\<rparr>) net2" using ne by (auto simp: readable_def)
  from find_known [OF 4(2) this, of ?k "Value ?v" far env] obtain w5 where
    5: "find_at far link env ?k net2 w4 = Done ((Some (norm_meta ?v), None), w5)" by auto
  have "slice_bytes (Data (norm_meta ?v)) = bytes_of_string ''world''" by simp
  with 1 2 3(1) 4(1) 5 show ?thesis
    by (simp add: http_demo_main_def or_fatal_def NewNode_def Let_def net1_def [symmetric] net2_def [symmetric] del: norm_meta_slice)
qed

end

end
