(* ===== verification/Demo_Dht.thy ===== *)
theory Demo_Dht
  imports Cluster_Demos Direct_Signal
begin

text \<open>
  \<open>cmd/webrtc_dht_demo/main.go\<close>: three nodes over WebRTC with the hybrid signaler. The program
  deletes the port of the direct signaler from the first node's metadata, so that the third one would
  have to signal over the DHT. Contacts are pointers there: who shares the first one's is arbitrary here.
\<close>

section \<open>The program\<close>

text \<open>\<open>Start\<close> of a node whose transport listens with the hybrid signaler, which sets a port in the
  metadata of the node's own contact.\<close>

definition start_hybrid :: "int \<Rightarrow> 'e node \<Rightarrow> 'e cluster \<Rightarrow> go_error option \<times> network_node \<times> 'e cluster" where
  "start_hybrid port node w =
     (let (err, sig, net) = Listen_rtc True None None (Hybrid (NewHybridSignaler port)) (node_self node) in
      (err, net, if err = None then w\<lparr>cl_nodes := (cl_nodes w)(endpoint net \<mapsto> node\<lparr>node_self := net\<rparr>)\<rparr> else w))"

text \<open>\<open>delete(net1.Meta, "sig_port")\<close>, which every holder of the pointer sees: the node itself, and
  the tables of the nodes in \<open>shared\<close>.\<close>

definition forget_port :: "network_node \<Rightarrow> network_node" where
  "forget_port n = n\<lparr>nn_meta := map_option (\<lambda>m. m(''sig_port'' := None)) (nn_meta n)\<rparr>"

definition delete_port :: "endpoint set \<Rightarrow> network_node \<Rightarrow> 'e cluster \<Rightarrow> 'e cluster" where
  "delete_port shared net w =
     w\<lparr>cl_nodes := (\<lambda>x. map_option (\<lambda>n.
        n\<lparr>node_self := (if node_self n = net then forget_port net else node_self n),
          node_rt := (node_rt n)\<lparr>buckets :=
            map (map (\<lambda>c. if x \<in> shared \<and> c = net then forget_port c else c)) (buckets (node_rt n))\<rparr>\<rparr>) (cl_nodes w x))\<rparr>"

text \<open>\<open>link'\<close> are the connections after the deletion.\<close>

definition dht_demo_main ::
  "(bytes \<Rightarrow> bytes) \<Rightarrow> (string \<Rightarrow> bytes option) \<Rightarrow> bytes \<Rightarrow> bytes \<Rightarrow> bytes \<Rightarrow>
     'e transport \<Rightarrow> 'e link \<Rightarrow> 'e env \<Rightarrow> endpoint set \<Rightarrow> 'e link \<Rightarrow> 'e cluster \<Rightarrow> demo_end outcome"
where
  "dht_demo_main sha1 parseIP rnd1 rnd2 rnd3 far link env shared link' w =
     (let (err, net1, w) = start_hybrid 17300 (NewNode (NewNetworkNode rnd1 parseIP ''127.0.0.1'' 7300) (Some far)) w in
      if err \<noteq> None then Done Fatal
      else
        let (err, net2, w) = start_hybrid 17301 (NewNode (NewNetworkNode rnd2 parseIP ''127.0.0.1'' 7301) (Some far)) w in
        if err \<noteq> None then Done Fatal
        else
          let (err, net3, w) = start_hybrid 17302 (NewNode (NewNetworkNode rnd3 parseIP ''127.0.0.1'' 7302) (Some far)) w in
          if err \<noteq> None then Done Fatal
          else
            or_fatal (bootstrap_at far link env [net1] net2 w) (\<lambda>w.
            or_fatal (bootstrap_at far link env [net2] net3 w) (\<lambda>w.
              let key = KeyFromString sha1 ''hello'' in
              or_fatal (store_at far link env key
                  (zero_meta\<lparr>Inline := True, Data := Some (bytes_of_string ''world via DHT signaling'')\<rparr>) net1 w) (\<lambda>w.
                and_then (find_at far link' env key net3 (delete_port shared net1 w))
                  (\<lambda>((val, err), w).
                     if err \<noteq> None then Done Fatal
                     else case val of None \<Rightarrow> Crash | Some v \<Rightarrow> Done (Retrieved (slice_bytes (Data v))))))))"

section \<open>Its parts\<close>

lemma started_hybrid:
  "start_hybrid port (NewNode net (Some far)) w =
     (None, set_sig_port port net,
      w\<lparr>cl_nodes := (cl_nodes w)(endpoint net \<mapsto> NewNodeWithStorage (set_sig_port port net) (Some far) (Some new_memory))\<rparr>)"
  by (simp add: start_hybrid_def Listen_rtc_def attach_node_def ListenOffers_hybrid_def ListenOffers_direct_def
      NewHybridSignaler_def NewDirectSignaler_def NewNode_def NewNodeWithStorage_def set_sig_port_def endpoint_def Let_def)

text \<open>A node that holds a value finds it without a call, whoever can be reached.\<close>

lemma find_own:
  assumes "cl_nodes w (endpoint q) = Some c" and "storage_inv sha (node_storage c)"
    and "storage_view (node_storage c) k = Some v"
  obtains w' where "find_at far link env k q w = Done ((Some v, None), w')"
proof -
  obtain st where "storage_get (node_storage c) k = (Some v, st)"
    using storage_get_spec(1) [OF assms(2), of k] assms(3) by (metis prod.collapse)
  then show thesis
    by (intro that) (simp add: find_at_def run_at_def FindValue_def assms(1) Let_def)
qed

text \<open>The deletion leaves the storages alone.\<close>

lemma delete_port_storage:
  "map_option node_storage (cl_nodes (delete_port shared net w) x) = map_option node_storage (cl_nodes w x)"
  by (cases "cl_nodes w x") (simp_all add: delete_port_def)

context delivering_link
begin

text \<open>Three members: a value stored at one is at both others.\<close>

lemma store_at_both:
  assumes M: "members_ok M" "p \<in> M" "M \<noteq> {p}" "card M \<le> 3" and w: "complete sha M D w" and q: "q \<in> M" "q \<noteq> p"
  obtains w' c where "store_at far link env k v p w = Done (None, w')" and "cl_nodes w' (endpoint q) = Some c"
    and "storage_inv sha (node_storage c)" and "storage_view (node_storage c) k = Some (norm_meta v)"
proof -
  from cluster_store [OF M(1-3) w, of far env k v] obtain targets w' where s: "store_at far link env k v p w = Done (None, w')"
    and "set targets \<subseteq> M - {p}" "nearest k (M - {p}) (hd targets)" "targets \<noteq> []"
    and w': "complete sha M (\<lambda>m. if m \<in> set targets then with_value k (norm_meta v) (D m) else D m) w'"
    and t: "card (M - {p}) \<le> 2 \<longrightarrow> set targets = M - {p}" .
  have "card (M - {p}) \<le> 2" using M(1,2,4) by (simp add: members_ok_def)
  with t q have "q \<in> set targets" by blast
  moreover from w' q(1) obtain c where c: "cl_nodes w' (endpoint q) = Some c" "member sha M q c"
    "contents sha (node_storage c) = (if q \<in> set targets then with_value k (norm_meta v) (D q) else D q)" by (rule servedE)
  ultimately have "fst (contents sha (node_storage c)) k = Some (norm_meta v)" by simp
  then have "storage_view (node_storage c) k = Some (norm_meta v)" by (simp add: contents_def)
  with s c show thesis by (intro that) (simp_all add: member_def node_inv_def)
qed

lemma dht_demo_run:
  assumes ids: "distinct [copy_into 20 rnd1, copy_into 20 rnd2, copy_into 20 rnd3]"
  shows "dht_demo_main sha1 parseIP rnd1 rnd2 rnd3 far link env shared link' w
    = Done (Retrieved (bytes_of_string ''world via DHT signaling''))"
proof -
  let ?net = "\<lambda>rnd port. NewNetworkNode rnd parseIP ''127.0.0.1'' port"
  define net1 where "net1 = set_sig_port 17300 (?net rnd1 7300)"
  define net2 where "net2 = set_sig_port 17301 (?net rnd2 7301)"
  define net3 where "net3 = set_sig_port 17302 (?net rnd3 7302)"
  have ep: "endpoint (set_sig_port q n) = endpoint n" for q n by (simp add: endpoint_def set_sig_port_def)
  note nets = net1_def net2_def net3_def NewNetworkNode_def GenerateKey_def
  have started: "start_hybrid 17300 (NewNode (?net rnd1 7300) (Some far)) w
      = (None, net1, w\<lparr>cl_nodes := (cl_nodes w)(endpoint net1 \<mapsto> NewNodeWithStorage net1 (Some far) (Some new_memory))\<rparr>)"
    "start_hybrid 17301 (NewNode (?net rnd2 7301) (Some far)) w
      = (None, net2, w\<lparr>cl_nodes := (cl_nodes w)(endpoint net2 \<mapsto> NewNodeWithStorage net2 (Some far) (Some new_memory))\<rparr>)"
    "start_hybrid 17302 (NewNode (?net rnd3 7302) (Some far)) w
      = (None, net3, w\<lparr>cl_nodes := (cl_nodes w)(endpoint net3 \<mapsto> NewNodeWithStorage net3 (Some far) (Some new_memory))\<rparr>)" for w
    by (simp_all add: started_hybrid ep net1_def net2_def net3_def)
  have id: "nn_id net1 \<noteq> nn_id net2" "nn_id net1 \<noteq> nn_id net3" "nn_id net2 \<noteq> nn_id net3"
    using ids by (simp_all add: nets key_of_slice_eq_iff)
  then have ne: "net1 \<noteq> net2" "net1 \<noteq> net3" "net2 \<noteq> net3" by auto
  have eps: "endpoint net1 \<noteq> endpoint net2" "endpoint net1 \<noteq> endpoint net3" "endpoint net2 \<noteq> endpoint net3"
    by (simp_all add: nets endpoint_def set_sig_port_def)
  have ok: "members_ok {net2, net1}" "members_ok {net3, net2, net1}"
    using members_ok_list [of "[net2, net1]"] members_ok_list [of "[net3, net2, net1]"] id [symmetric] eps [symmetric]
    by (simp_all add: K_def)
  let ?n = "\<lambda>net. NewNodeWithStorage net (Some far) (Some new_memory)" and ?sha = "\<lambda>b :: bytes. b"
  let ?w3 = "w\<lparr>cl_nodes := (cl_nodes w)(endpoint net1 \<mapsto> ?n net1, endpoint net2 \<mapsto> ?n net2, endpoint net3 \<mapsto> ?n net3)\<rparr>"
  have a1: "cluster_is ?sha (founded net1 new_memory) ?w3" using eps by (intro founder) simp_all
  let ?a2 = "snd (spec_step ?sha (Join net2 net1 new_memory) (founded net1 new_memory))"
  obtain w4 where 4: "bootstrap_at far link env [net1] net2 ?w3 = Done (None, w4)" "cluster_is ?sha ?a2 w4"
    "\<forall>x \<in> - (endpoint ` {net2, net1}). cl_nodes w4 x = cl_nodes ?w3 x"
    using join_known [OF a1, of net2 net1 new_memory far env] ne eps ok(1) by (auto simp: Alpha_def)
  let ?a3 = "snd (spec_step ?sha (Join net3 net2 new_memory) ?a2)"
  have "cl_nodes w4 (endpoint net3) = Some (?n net3)" using 4(3) eps by simp
  moreover have "legal ?sha (Join net3 net2 new_memory) ?a2"
    using ne(2,3) [symmetric] ne(1) ok(2) by (simp add: Alpha_def)
  ultimately obtain w5 where 5: "bootstrap_at far link env [net2] net3 w4 = Done (None, w5)" "cluster_is ?sha ?a3 w5"
    using join_known [OF 4(2)] by metis
  let ?M = "{net3, net2, net1}" and ?k = "KeyFromString sha1 ''hello''"
    and ?v = "zero_meta\<lparr>Inline := True, Data := Some (bytes_of_string ''world via DHT signaling'')\<rparr>"
  obtain D where D: "complete ?sha ?M D w5" using 5(2) by (auto simp: cluster_is_def)
  have "card ?M \<le> 3" by (simp add: card_insert_if)
  moreover have "?M \<noteq> {net1}" using ne(1) by auto
  ultimately obtain w6 c where 6: "store_at far link env ?k ?v net1 w5 = Done (None, w6)" "cl_nodes w6 (endpoint net3) = Some c"
    "storage_inv ?sha (node_storage c)" "storage_view (node_storage c) ?k = Some (norm_meta ?v)"
    using store_at_both [OF ok(2) _ _ _ D, of net1 net3] ne(2) by blast
  obtain c' where c': "cl_nodes (delete_port shared net1 w6) (endpoint net3) = Some c'" "node_storage c' = node_storage c"
    using delete_port_storage [of shared net1 w6 "endpoint net3"] 6(2) by (cases "cl_nodes (delete_port shared net1 w6) (endpoint net3)") auto
  from find_own [OF c'(1), of ?sha ?k "norm_meta ?v" far link' env] 6(3,4) c'(2) obtain w7 where
    7: "find_at far link' env ?k net3 (delete_port shared net1 w6) = Done ((Some (norm_meta ?v), None), w7)" by auto
  have "slice_bytes (Data (norm_meta ?v)) = bytes_of_string ''world via DHT signaling''" by simp
  with 4(1) 5(1) 6(1) 7 show ?thesis
    by (simp add: dht_demo_main_def started or_fatal_def Let_def del: norm_meta_slice)
qed

end

end
