(* ===== verification/Cluster_Faults.thy ===== *)
theory Cluster_Faults
  imports Cluster_Map
begin

text \<open>
  Nodes that are gone: a value is still found as long as one node that holds it is up and among
  the first the finder asks, whatever the tables say and whichever other nodes are left.
\<close>

section \<open>Failures\<close>

text \<open>Only the nodes of some members are left; requests to the others time out.\<close>

definition crashed_but :: "network_node set \<Rightarrow> 'e cluster \<Rightarrow> 'e cluster" where
  "crashed_but S w = w\<lparr>cl_nodes := cl_nodes w |` (endpoint ` S)\<rparr>"

text \<open>Every node that is up is well formed and has the value or none under the key; one of them, at \<open>x\<close>, has it.\<close>

definition value_at :: "(bytes \<Rightarrow> bytes) \<Rightarrow> dht_key \<Rightarrow> value_meta \<Rightarrow> endpoint \<Rightarrow> 'e cluster \<Rightarrow> bool" where
  "value_at sha k v x w \<longleftrightarrow>
     (\<forall>y n. cl_nodes w y = Some n \<longrightarrow> node_inv sha n \<and> storage_view (node_storage n) k \<in> {None, Some v})
     \<and> (\<exists>n. cl_nodes w x = Some n \<and> storage_view (node_storage n) k = Some v)"

lemma value_at_nodes: "value_at sha k v x w \<Longrightarrow> cl_nodes w' = cl_nodes w \<Longrightarrow> value_at sha k v x w'"
  by (simp add: value_at_def)

lemma value_atD:
  assumes "value_at sha k v x w" and "cl_nodes w y = Some n"
  shows "node_inv sha n" "storage_view (node_storage n) k \<in> {None, Some v}" "y = x \<Longrightarrow> storage_view (node_storage n) k = Some v"
  using assms unfolding value_at_def by (blast, blast, fastforce)

lemma value_at_update:
  assumes w: "value_at sha k v x w" and n: "cl_nodes w y = Some n"
    and n': "node_inv sha n'" "storage_view (node_storage n') k = storage_view (node_storage n) k"
  shows "value_at sha k v x \<lparr>cl_nodes = (cl_nodes w)(y \<mapsto> n'), cl_env = e\<rparr>"
proof -
  have "node_inv sha m \<and> storage_view (node_storage m) k \<in> {None, Some v}" if "((cl_nodes w)(y \<mapsto> n')) z = Some m" for z m
    using that value_atD [OF w] n n' by (cases "z = y") auto
  moreover obtain m where "cl_nodes w x = Some m" "storage_view (node_storage m) k = Some v"
    using w unfolding value_at_def by blast
  ultimately show ?thesis using n n'(2) unfolding value_at_def by (cases "x = y") auto
qed

text \<open>No answer is another value, and the node at \<open>x\<close> answers with the value.\<close>

definition truthful_answer :: "endpoint \<Rightarrow> value_meta \<Rightarrow> network_node \<times> answer \<Rightarrow> bool" where
  "truthful_answer x v ma \<longleftrightarrow> (case snd ma of Inr (Some u, res) \<Rightarrow> u = v | _ \<Rightarrow> endpoint (fst ma) \<noteq> x)"

definition truthful :: "endpoint \<Rightarrow> value_meta \<Rightarrow> query_log \<Rightarrow> bool" where
  "truthful x v log \<longleftrightarrow> list_all (truthful_answer x v) log"

lemma truthful_simps [simp]:
  "truthful x v []"
  "truthful x v (log @ [ma]) \<longleftrightarrow> truthful x v log \<and> truthful_answer x v ma"
  by (simp_all add: truthful_def)

lemma truthful_asked:
  assumes "truthful x v log" and "(m, ans) \<in> set log" and "endpoint m = x"
  obtains res where "ans = Inr (Some v, res)"
proof -
  have "truthful_answer x v (m, ans)" using assms(1,2) by (simp add: truthful_def list_all_iff)
  with assms(3) that show thesis by (auto simp: truthful_answer_def split: sum.splits option.splits)
qed

lemma truthful_told: "truthful x v log \<Longrightarrow> told_value log u \<Longrightarrow> u = v"
  by (auto simp: truthful_def list_all_iff told_value_def truthful_answer_def)

text \<open>During a search: what the asked nodes said, and the pings of the searching node's table.\<close>

definition seeking ::
  "(bytes \<Rightarrow> bytes) \<Rightarrow> 'e link \<Rightarrow> dht_key \<Rightarrow> value_meta \<Rightarrow> endpoint \<Rightarrow> network_node \<Rightarrow> 'e cluster round \<Rightarrow> bool"
where
  "seeking sha link k v x p rd \<longleftrightarrow>
     node_transport (fst (rd_state rd)) = Some (cluster_transport link p)
     \<and> ping (node_rt (fst (rd_state rd))) = Some (ping_peer (Some (cluster_transport link p)))
     \<and> value_at sha k v x (snd (rd_state rd))
     \<and> truthful x v (rd_log rd)"

context delivering_link
begin

lemma ping_keeps_value:
  assumes "value_at sha k v x w" and "tr_ping (cluster_transport link p) t w = (e, w')"
  shows "value_at sha k v x w'"
proof (cases "cl_nodes w (endpoint t)")
  case None
  with assms show ?thesis by (simp add: cluster_transport_simps deliver_def)
next
  case (Some n)
  obtain n' e' where o: "observePeer (Some p) (n, cl_env w) = (n', e')" by fastforce
  have inv: "node_inv sha n" by (rule value_atD [OF assms(1) Some])
  have "node_inv sha n'" "node_storage n' = node_storage n"
    using observePeer_inv [of sha "(n, cl_env w)" "Some p"] observePeer_simps(2) [of "Some p" "(n, cl_env w)"] inv o by simp_all
  with value_at_update [OF assms(1) Some] assms(2) o Some show ?thesis
    by (auto simp: cluster_transport_simps deliver_def link_ping)
qed

lemma query_keeps_value:
  assumes w: "value_at sha k v x w" and v: "norm_meta v = v" and q: "query True (cluster_transport link p) t k w = (ans, w')"
  shows "value_at sha k v x w'" and "truthful_answer x v (t, ans)"
proof -
  have "value_at sha k v x w' \<and> truthful_answer x v (t, ans)"
  proof (cases "cl_nodes w (endpoint t)")
    case None
    moreover have "endpoint t \<noteq> x" using w None by (auto simp: value_at_def)
    ultimately show ?thesis using w q by (auto simp: query_def cluster_transport_simps deliver_def truthful_answer_def)
  next
    case (Some n)
    note n = value_atD [OF w Some]
    obtain r n' e' where f: "OnFindValue (Some p) k (n, cl_env w) = (r, n', e')" by (metis prod.collapse)
    have n': "node_inv sha n'" "storage_view (node_storage n') k = storage_view (node_storage n) k"
      using OnFindValue_ok [of sha "(n, cl_env w)" "Some p" k] n(1) f by simp_all
    have "value_at sha k v x \<lparr>cl_nodes = (cl_nodes w)(endpoint t \<mapsto> n'), cl_env = e'\<rparr>"
      by (rule value_at_update [OF w Some n'])
    then show ?thesis
      using q Some f n v link_find_value [of sha "(n, cl_env w)"]
      by (auto simp: query_def cluster_transport_simps deliver_def truthful_answer_def Let_def split: option.splits)
  qed
  then show "value_at sha k v x w'" "truthful_answer x v (t, ans)" by blast+
qed

lemma add_keeps_value:
  assumes "value_at sha k v x w" and "ping (node_rt c) = Some (ping_peer (Some (cluster_transport link p)))"
    and "add_contact r (c, w) = (c', w')"
  shows "value_at sha k v x w'" and "ping (node_rt c') = ping (node_rt c)"
proof -
  obtain rt' where a: "Add (node_rt c) r w = (rt', w')" and c': "c' = c\<lparr>node_rt := rt'\<rparr>"
    using assms(3) by (auto simp: add_contact_def split: prod.splits)
  show "ping (node_rt c') = ping (node_rt c)" using Add_frame(2) [of "node_rt c" r w] a c' by simp
  show "value_at sha k v x w'"
  proof (cases "add_begin (node_rt c) r")
    case (AddDone rt)
    with a assms(1) show ?thesis by (simp add: Add_def)
  next
    case (AddPing idx lrs)
    obtain e w1 where "tr_ping (cluster_transport link p) lrs w = (e, w1)" by fastforce
    with AddPing a ping_keeps_value [OF assms(1) this] show ?thesis by (simp add: Add_def assms(2) ping_peer_def)
  qed
qed

lemma add_all_keeps_value:
  "value_at sha k v x (snd s) \<Longrightarrow> ping (node_rt (fst s)) = Some (ping_peer (Some (cluster_transport link p))) \<Longrightarrow>
     value_at sha k v x (snd (fold add_contact rs s)) \<and> ping (node_rt (fst (fold add_contact rs s))) = ping (node_rt (fst s))"
proof (induction rs arbitrary: s)
  case (Cons r rs)
  obtain c w where s: "s = (c, w)" by fastforce
  obtain c' w' where a: "add_contact r (c, w) = (c', w')" by fastforce
  from add_keeps_value [OF _ _ a, of sha k v x p] Cons.prems Cons.IH [of "(c', w')"] show ?case by (simp add: s a)
qed simp

lemma seeking_round:
  assumes v: "norm_meta v = v" and run: "run_round (cluster_env env) True k todo [] rd = Done rd'"
    and start: "seeking sha link k v x p rd"
  shows "seeking sha link k v x p rd'"
  using run start
proof (rule run_round_invariant [where P = "\<lambda>_ _. seeking sha link k v x p"], goal_cases draw launch call absorb)
  case (draw todo fl rd)
  have "cl_nodes (snd (rd_state (snd (draw (cluster_env env) rd)))) = cl_nodes (snd (rd_state rd))"
    by (simp add: draw_def cluster_env_def split: prod.splits)
  with draw show ?case by (auto simp: seeking_def intro: value_at_nodes)
next
  case (launch n todo fl rd)
  then show ?case by (simp add: seeking_def)
next
  case (call todo fl rd j n ans rd')
  obtain c w where s: "rd_state rd = (c, w)" by fastforce
  have tr: "node_transport c = Some (cluster_transport link p)" using call(1) s by (simp add: seeking_def)
  obtain w' where q: "query True (cluster_transport link p) n k w = (ans, w')"
    and rd': "rd' = rd\<lparr>rd_state := (c, w'), rd_log := rd_log rd @ [(n, ans)]\<rparr>"
    using call(4) by (auto simp: do_call_def s tr Let_def split: prod.splits)
  have w: "value_at sha k v x w" using call(1) s by (simp add: seeking_def)
  from call(1) query_keeps_value [OF w v q] s show ?case by (simp add: seeking_def rd')
next
  case (absorb todo fl rd j ans rd')
  from absorb(1) have keeps: "value_at sha k v x (snd (fold add_contact rs (rd_state rd)))"
    "ping (node_rt (fst (fold add_contact rs (rd_state rd)))) = Some (ping_peer (Some (cluster_transport link p)))" for rs
    using add_all_keeps_value [of sha k v x "rd_state rd" p rs] by (simp_all add: seeking_def)
  have tr: "node_transport (fst (rd_state rd')) = node_transport (fst (rd_state rd))"
    using evolves_fields(3) [OF absorb_Done(1) [OF absorb(4)]] .
  from absorb(4) have "rd_state rd' = rd_state rd \<or> (\<exists>rs. rd_state rd' = fold add_contact rs (rd_state rd))"
    by (auto simp: absorb_cases Let_def split: sum.splits option.splits prod.splits if_splits)
  with keeps absorb(1) tr absorb_Done(3) [OF absorb(4)] show ?case by (auto simp: seeking_def)
qed

section \<open>Finding\<close>

lemma find_value_at:
  assumes v: "norm_meta v = v" and w: "value_at sha k v x w" and c: "cl_nodes w (endpoint q) = Some c"
    and a: "a \<in> set (take Alpha (FindClosest (node_rt c) k K))" "endpoint a = x" "x \<noteq> endpoint q"
  shows "\<exists>w'. find_at far link env k q w = Done ((Some v, None), w')"
proof -
  note inv = value_atD(1) [OF w c] and view = value_atD(2) [OF w c]
  have st: "storage_inv sha (node_storage c)" using inv by (simp add: node_inv_def)
  obtain val st' where get: "storage_get (node_storage c) k = (val, st')" by fastforce
  then have val: "val = storage_view (node_storage c) k" using storage_get_spec(1) [OF st, of k] by simp
  let ?w0 = "w\<lparr>cl_nodes := (cl_nodes w)(endpoint q := None)\<rparr>"
  let ?c = "(with_transport (cluster_transport link (node_self c)) c)\<lparr>node_storage := st'\<rparr>"
  show ?thesis
  proof (cases "storage_view (node_storage c) k")
    case (Some u)
    with view get val show ?thesis by (simp add: find_at_def run_at_def FindValue_def c Let_def)
  next
    case None
    let ?todo = "take Alpha (FindClosest (node_rt c) k K)"
    have ne: "?todo \<noteq> []" using a(1) by (metis empty_iff empty_set)
    have inv': "node_inv sha ?c"
      using node_inv_storage [of sha "with_transport (cluster_transport link (node_self c)) c" st']
        storage_get_spec(3) [OF st, of k] get inv by simp
    have closest: "FindClosest (node_rt ?c) k K = FindClosest (node_rt c) k K"
      by (simp add: FindClosest_def contacts_def with_transport_def)
    let ?s = "(?c, ?w0)"
    let ?rd = "round_start ?s {} []"
    have "seeking sha link k v x (node_self c) ?rd"
      using w a(3) by (auto simp: seeking_def value_at_def with_transport_def)
    moreover have "calls_ok (fst ?s)" using cluster_well_behaved by (auto simp: calls_ok_def with_transport_def)
    then obtain rd where run: "run_round (cluster_env env) True k ?todo [] ?rd = Done rd"
      using run_round_Done [of ?rd "[]" "cluster_env env" True k ?todo] by auto
    ultimately have rd: "seeking sha link k v x (node_self c) rd" by (intro seeking_round [OF v run])
    have "mset (map fst (rd_log rd)) = mset ?todo" using run_round_log [OF run] by simp
    then have "a \<in> fst ` set (rd_log rd)" using a(1) by (metis list.set_map set_mset_mset)
    then obtain ans where ans: "(a, ans) \<in> set (rd_log rd)" by auto
    have log: "truthful x v (rd_log rd)" using rd by (simp add: seeking_def)
    obtain res where "ans = Inr (Some v, res)" using truthful_asked [OF log ans a(2)] .
    then have "rd_found rd \<noteq> None" using run_round_absorbed [OF run ans] by (simp add: absorbed_def)
    then obtain u where u: "rd_found rd = Some u" by blast
    then have "told_value (rd_log rd) u" using run_round_sources(2) [OF run u] by simp
    then have "u = v" by (rule truthful_told [OF log])
    have ctx: "ctx_err (cluster_env env) (snd ?s) = None" by (simp add: cluster_env_def)
    have "to_query {} (FindClosest (node_rt c) k K) = ?todo" by (simp add: to_query_def)
    then have "search_loop (cluster_env env) True k (FindClosest (node_rt c) k K) {} [] ?s = Done (([], Some v, None), rd_log rd, rd_state rd)"
      using run u ne \<open>u = v\<close> ctx by (simp add: search_loop.simps [of "cluster_env env"] round_start_def Let_def)
    moreover have "contacts (node_rt ?c) \<noteq> []" using ne FindClosest_Nil [of "node_rt ?c" k] closest by auto
    ultimately have "iterativeSearch (cluster_env env) k True ?s = Done (([], Some v, None), rd_log rd, rd_state rd)"
      using iterativeSearch_eq [of sha ?s "cluster_env env" k True] inv' closest by simp
    then show ?thesis using get val None
      by (cases "rd_state rd") (simp add: find_at_def run_at_def FindValue_def c Let_def)
  qed
qed

text \<open>After a store, whoever is left finds the value if the nearest target is.\<close>

lemma stored_survives:
  assumes M: "members_ok M" "p \<in> M" "M \<noteq> {p}" and w: "complete sha M D w" and new: "\<And>m. m \<in> M \<Longrightarrow> fst (D m) k = None"
  obtains w1 a where "store_at far link env k v p w = Done (None, w1)" and "nearest k (M - {p}) a"
    and "\<forall>S q env'. S \<subseteq> M \<and> a \<in> S \<and> q \<in> S \<longrightarrow>
      (\<exists>w2. find_at far link env' k q (crashed_but S w1) = Done ((Some (norm_meta v), None), w2))"
proof -
  from cluster_store [OF M w, of far env k v] obtain targets w1 where s: "store_at far link env k v p w = Done (None, w1)"
    and t: "set targets \<subseteq> M - {p}" "nearest k (M - {p}) (hd targets)" "targets \<noteq> []"
    and w1: "complete sha M (\<lambda>m. if m \<in> set targets then with_value k (norm_meta v) (D m) else D m) w1"
    and "card (M - {p}) \<le> 2 \<longrightarrow> set targets = M - {p}" .
  define a where "a = hd targets"
  have "a \<in> set targets" using t(3) by (simp add: a_def)
  with t(1) have a: "a \<in> set targets" "a \<in> M" by blast+
  have found: "\<exists>w2. find_at far link env' k q (crashed_but S w1) = Done ((Some (norm_meta v), None), w2)"
    if S: "S \<subseteq> M" "a \<in> S" "q \<in> S" for S q env'
  proof -
    have up: "cl_nodes (crashed_but S w1) (endpoint m) = cl_nodes w1 (endpoint m)" if "m \<in> S" for m
      using that by (simp add: crashed_but_def)
    have "node_inv sha n \<and> storage_view (node_storage n) k \<in> {None, Some (norm_meta v)}"
      if "cl_nodes (crashed_but S w1) y = Some n" for y n
    proof -
      from that obtain m where m: "m \<in> S" "y = endpoint m" "cl_nodes w1 (endpoint m) = Some n"
        by (auto simp: crashed_but_def restrict_map_def split: if_splits)
      then have "m \<in> M" using S(1) by blast
      with w1 obtain n' where n': "cl_nodes w1 (endpoint m) = Some n'" "member sha M m n'"
        "contents sha (node_storage n') = (if m \<in> set targets then with_value k (norm_meta v) (D m) else D m)" by (rule servedE)
      have "storage_view (node_storage n') k \<in> {None, Some (norm_meta v)}"
        using arg_cong [OF n'(3), of "\<lambda>d. fst d k"] new [OF \<open>m \<in> M\<close>] by (simp add: contents_def with_value_def split: if_splits)
      with n'(1,2) m(3) show ?thesis by (simp add: member_def)
    qed
    moreover from w1 a(2) obtain na where na: "cl_nodes w1 (endpoint a) = Some na"
      "contents sha (node_storage na) = (if a \<in> set targets then with_value k (norm_meta v) (D a) else D a)" by (rule servedE)
    then have "storage_view (node_storage na) k = Some (norm_meta v)"
      using arg_cong [OF na(2), of "\<lambda>d. fst d k"] a(1) by (simp add: contents_def with_value_def)
    ultimately have at: "value_at sha k (norm_meta v) (endpoint a) (crashed_but S w1)"
      using na(1) up [OF S(2)] by (auto simp: value_at_def)
    have q: "q \<in> M" using S by blast
    with w1 obtain c where c: "cl_nodes w1 (endpoint q) = Some c" "member sha M q c" "M - {q} \<subseteq> set (contacts (node_rt c))"
      by (rule servedE)
    show ?thesis
    proof (cases "q = a")
      case True
      have "storage_inv sha (node_storage na)" using na(1) c(1,2) True by (simp add: member_def node_inv_def)
      from storage_get_spec(1) [OF this, of k] have "fst (storage_get (node_storage na) k) = Some (norm_meta v)"
        using \<open>storage_view (node_storage na) k = Some (norm_meta v)\<close> by simp
      then show ?thesis using up [OF S(2)] na(1) True
        by (cases "storage_get (node_storage na) k") (simp add: find_at_def run_at_def FindValue_def Let_def)
    next
      case False
      have "set (contacts (node_rt c)) = M - {q}" using c(2,3) by (auto simp: member_def)
      from rank_asked [OF M(1) q c(2) this _ rank_nearest] t(2) a(2) False
      have "a \<in> set (take Alpha (FindClosest (node_rt c) k K))" by (simp add: a_def)
      moreover have "endpoint a \<noteq> endpoint q" using members_others(5) [OF M(1) q, of a] a(2) False by metis
      moreover have "cl_nodes (crashed_but S w1) (endpoint q) = Some c" using up [OF S(3)] c(1) by simp
      ultimately show ?thesis using find_value_at [OF _ at] by simp
    qed
  qed
  with s t(2) show thesis by (intro that [of w1 a]) (auto simp: a_def)
qed

end

end
