(* ===== verification/Cluster_Guarantees.thy ===== *)
theory Cluster_Guarantees
  imports Cluster_Signal Demo_Dht Cluster_Faults Component_Guarantees
begin

text \<open>What a cluster promises, over both transports, and a history on which it is tried.\<close>

section \<open>A small cluster\<close>

definition node_at :: "byte \<Rightarrow> int \<Rightarrow> network_node" where
  "node_at b port = NewNetworkNode [b] (\<lambda>s. Some [127, 0, 0, 1]) ''127.0.0.1'' port"

lemma node_at_simps [simp]:
  "nn_id (node_at b port) = key_of_slice [b]" "endpoint (node_at b port) = (Some [127, 0, 0, 1], port)"
  "node_at b port = node_at c port' \<longleftrightarrow> b = c \<and> port = port'"
  by (auto simp: node_at_def NewNetworkNode_def GenerateKey_def endpoint_def key_of_slice_eq_iff copy_into_def)

abbreviation "node_1 \<equiv> node_at 1 9001"
abbreviation "node_2 \<equiv> node_at 2 9002"
abbreviation "node_3 \<equiv> node_at 3 9003"

definition one_node :: "nat cluster" where
  "one_node = \<lparr>cl_nodes = [endpoint node_1 \<mapsto> NewNodeWithStorage node_1 (Some demo_transport) (Some new_memory)], cl_env = 0\<rparr>"

lemma one_node_is: "cluster_is sha (founded node_1 new_memory) one_node"
  by (rule founder [where tr = "Some demo_transport"]) (simp_all add: one_node_def)

lemma nodes_ok: "members_ok {node_2, node_1}" "members_ok {node_3, node_2, node_1}"
  using members_ok_list [of "[node_2, node_1]"] members_ok_list [of "[node_3, node_2, node_1]"]
  by (simp_all add: K_def key_of_slice_eq_iff copy_into_def)

lemma founded_memory [simp]: "sm_disks (founded p new_memory) = {}"
  by (simp add: founded_def new_memory_def)

section \<open>Histories\<close>

text \<open>C2: a cluster over UDP or over WebRTC is a shared write-once map: for every schedule, any legal
  history of joins, stores, finds, blob stores and fetches at its members returns, gives exactly
  the replies of the abstract map, and leaves a cluster that stands for the map it ends in.\<close>

theorem cluster_refines_map:
  assumes "link = udp_link rnd \<or> link = rtc_link rnd" and "cluster_is sha a w" and "legal_run sha ops a"
  shows "\<exists>w'. cluster_run sha far link env ops w = Done (fst (spec_run sha ops a), w')
     \<and> cluster_is sha (snd (spec_run sha ops a)) w'"
  using assms udp_link.run_simulates rtc_link.run_simulates by blast

definition sample_value :: value_meta where
  "sample_value = zero_meta\<lparr>Inline := True, Data := Some [42]\<rparr>"

definition sample_history :: "cluster_op list" where
  "sample_history =
     [Join node_2 node_1 (Disk new_disk), Join node_3 node_2 new_memory, Put node_1 zero_key sample_value,
      Find node_3 zero_key, PutData node_2 (key_of_slice [5]) [1] ''text/plain'', Fetch node_3 (key_of_slice [5]),
      Find node_2 (key_of_slice [6])]"

lemma sample_storages [simp]:
  "(case new_memory of Memory m \<Rightarrow> x | Disk d \<Rightarrow> y d) = x" "DiskGet new_disk = Map.empty"
  by (simp_all add: new_memory_def new_disk_def NewDiskStorage_def DiskGet_decode fun_eq_iff)

lemma sample_keys [simp]:
  "key_of_slice [a] = zero_key \<longleftrightarrow> a = 0" "zero_key = key_of_slice [a] \<longleftrightarrow> a = 0"
  "key_of_slice [a] = key_of_slice [b] \<longleftrightarrow> a = b"
  by (auto simp: key_of_slice_eq_iff copy_into_def zero_key_def numeral_eq_Suc)

lemma sample_legal: "legal_run toy_hash sample_history (founded node_1 new_memory)"
  using new_disk_inv [of toy_hash] toy_hash_one nodes_ok
  by (simp add: sample_history_def writable_def readable_def collision_free_def Alpha_def)

lemma sample_replies:
  "fst (spec_run toy_hash sample_history (founded node_1 new_memory)) =
     [Replied None, Replied None, Replied None, Found (Some sample_value) None, Replied None,
      Fetched (Inr (Some [1])), Found None (Some ErrNotFound)]"
  by (simp add: sample_history_def sample_value_def norm_meta_def)

lemma cluster_refines_map_witness:
  "\<exists>w'. cluster_run toy_hash demo_transport (udp_link []) demo_env sample_history one_node = Done
     ([Replied None, Replied None, Replied None, Found (Some sample_value) None, Replied None,
       Fetched (Inr (Some [1])), Found None (Some ErrNotFound)], w')"
  using cluster_refines_map [OF disjI1 [OF refl] one_node_is sample_legal] unfolding sample_replies by blast

text \<open>C5: a new node that joins through any member of a cluster of up to \<open>Alpha + 1\<close> nodes that know
  each other comes to know all of them, and each of them comes to know it: \<open>Bootstrap\<close> returns
  without an error and every member of the larger cluster knows every other.\<close>

theorem join_makes_complete:
  assumes "link = udp_link rnd \<or> link = rtc_link rnd" and "complete sha M D w"
    and "members_ok (insert p M)" and "p \<notin> M" and "m \<in> M" and "card M \<le> Suc Alpha" and "storage_inv sha st"
  shows "\<exists>w'. bootstrap_at far link env [m] p (new_member far p st w) = Done (None, w')
     \<and> complete sha (insert p M) (D(p := contents sha st)) w'"
  using assms(1) udp_link.join_complete [OF assms(2-7)] rtc_link.join_complete [OF assms(2-7)] by metis

lemma join_makes_complete_witness:
  "\<exists>w'. bootstrap_at demo_transport (rtc_link []) demo_env [node_1] node_2 (new_member demo_transport node_2 new_memory one_node)
     = Done (None, w')"
proof -
  obtain D where "complete toy_hash {node_1} D one_node"
    using one_node_is [of toy_hash] by (auto simp: cluster_is_def)
  from join_makes_complete [OF disjI2 [OF refl] this nodes_ok(1), of node_1 new_memory demo_transport] show ?thesis
    by auto
qed

text \<open>Why a key is written once: a node that holds a value keeps reading it after it stored another
  one under the same key, which \<open>StoreValue\<close> writes to other nodes only.\<close>

theorem own_copy_stays:
  assumes "link = udp_link rnd \<or> link = rtc_link rnd" and "complete sha M D w" and "members_ok M" and "p \<in> M" and "M \<noteq> {p}"
    and "fst (D p) k = Some old"
  shows "\<exists>w' w''. store_at far link env k v p w = Done (None, w') \<and> find_at far link env k p w' = Done ((Some old, None), w'')"
  using assms(1) udp_link.own_copy [OF assms(3,4,5,2,6)] rtc_link.own_copy [OF assms(3,4,5,2,6)] by metis

section \<open>Failures\<close>

text \<open>C6: a stored value survives the loss of other nodes: once \<open>StoreValue\<close> has returned at a member of a
  cluster, for a key without a value, there is a member that was written, the nearest of the
  others to the key, such that after the crash of any set of nodes without it every member
  that is left still finds the value, for every schedule, although it asks crashed nodes too.\<close>

theorem value_survives:
  assumes "link = udp_link rnd \<or> link = rtc_link rnd" and "cluster_is sha a w"
    and "p \<in> sm_members a" and "sm_members a \<noteq> {p}" and "sm_map a k = None"
  shows "\<exists>w1 t. store_at far link env k v p w = Done (None, w1) \<and> nearest k (sm_members a - {p}) t
     \<and> (\<forall>S q env'. S \<subseteq> sm_members a \<and> t \<in> S \<and> q \<in> S \<longrightarrow>
          (\<exists>w2. find_at far link env' k q (crashed_but S w1) = Done ((Some (norm_meta v), None), w2)))"
proof -
  from assms(2) obtain D where D: "complete sha (sm_members a) D w" "stands_for sha D a" unfolding cluster_is_def by blast
  note M = stands_for_members(1) [OF D(2)] assms(3,4)
  have new: "fst (D m) k = None" if "m \<in> sm_members a" for m using stands_for_none [OF D(2) assms(5) that] .
  have "delivering_link link" using assms(1) udp_link.delivering_link_axioms rtc_link.delivering_link_axioms by metis
  from delivering_link.stored_survives [OF this M D(1) new] show ?thesis by metis
qed

definition three_joined :: "cluster_op list" where
  "three_joined = [Join node_2 node_1 new_memory, Join node_3 node_2 new_memory]"

lemma value_survives_witness:
  "\<exists>w w1 t w2. store_at demo_transport (udp_link []) demo_env zero_key sample_value node_1 w = Done (None, w1)
     \<and> t \<in> {node_2, node_3}
     \<and> find_at demo_transport (udp_link []) demo_env zero_key node_1 (crashed_but {node_1, t} w1) = Done ((Some sample_value, None), w2)"
proof -
  have legal: "legal_run toy_hash three_joined (founded node_1 new_memory)"
    using nodes_ok by (simp add: three_joined_def Alpha_def)
  let ?a = "snd (spec_run toy_hash three_joined (founded node_1 new_memory))"
  obtain w :: "nat cluster" where w: "cluster_is toy_hash ?a w"
    using udp_link.run_simulates [OF one_node_is legal, of demo_transport "[]" demo_env] by blast
  have a: "sm_members ?a = {node_3, node_2, node_1}" "sm_map ?a = Map.empty" by (simp_all add: three_joined_def founded_def)
  obtain w1 t where s: "store_at demo_transport (udp_link []) demo_env zero_key sample_value node_1 w = Done (None, w1)"
    and t: "nearest zero_key (sm_members ?a - {node_1}) t"
    and f: "\<forall>S q env'. S \<subseteq> sm_members ?a \<and> t \<in> S \<and> q \<in> S \<longrightarrow>
          (\<exists>w2. find_at demo_transport (udp_link []) env' zero_key q (crashed_but S w1) = Done ((Some (norm_meta sample_value), None), w2))"
    using value_survives [OF disjI1 [OF refl] w, of node_1 zero_key demo_transport "[]" demo_env sample_value] a by auto
  have t': "t \<in> {node_2, node_3}" using t a(1) by (auto simp: nearest_def)
  then have "{node_1, t} \<subseteq> sm_members ?a" using a(1) by auto
  with spec [OF spec [OF spec [OF f]], of "{node_1, t}" node_1 demo_env] obtain w2 where
    "find_at demo_transport (udp_link []) demo_env zero_key node_1 (crashed_but {node_1, t} w1)
      = Done ((Some (norm_meta sample_value), None), w2)" by blast
  moreover have "norm_meta sample_value = sample_value" by (simp add: sample_value_def norm_meta_def)
  ultimately show ?thesis using s t' by metis
qed

section \<open>Calls over the DHT\<close>

text \<open>C36: signaling over the DHT between two members of a cluster: when the three keys of the pair differ
  and hold no value, \<open>SendOffer\<close> of the caller returns exactly what the handler of the callee answers to the
  caller's payload, not empty, for every schedule of the two, if while it waits for the first time a
  tick of the callee's loop comes, not more than 30 seconds after the offer's time and while the caller is
  not being processed, and the goroutine that the tick starts ends. So the offer and the doorbell
  are stored, found at the callee, read and handed over, and the answer is stored where the
  caller looks for it; and the cluster is complete after the call.\<close>

theorem dht_offer_received:
  assumes "link = udp_link rnd \<or> link = rtc_link rnd" and "members_ok M" and "p \<in> M" and "q \<in> M" and "p \<noteq> q"
    and "complete sha M D w"
    and "distinct [dhtOfferKey sha1 (nn_id p) (nn_id q), dhtDoorbellKey sha1 (nn_id q), dhtAnswerKey sha1 (nn_id p) (nn_id q)]"
    and "unwritten M D (dhtOfferKey sha1 (nn_id p) (nn_id q))" and "unwritten M D (dhtDoorbellKey sha1 (nn_id q))"
    and "unwritten M D (dhtAnswerKey sha1 (nn_id p) (nn_id q))"
    and "sp_caller payload = nn_id p" and "now_ns - sint now * nano \<le> 30 * nano" and "nn_id p \<notin> po_processing ps"
    and "handler payload = Inr answer" and "answer \<noteq> []"
  shows "\<exists>w' D'. call_at far link sha1 env (callee_turn far link sha1 env1 env2 now_ns handler q ps) p (nn_id q) payload now w
      = Some (Done (Inr answer, w')) \<and> complete sha M D' w'"
proof -
  have "delivering_link link" using assms(1) udp_link.delivering_link_axioms rtc_link.delivering_link_axioms by metis
  from delivering_link.call_answered [where handler = handler and payload = payload, OF this assms(2-15)] show ?thesis .
qed

lemma dht_offer_received_witness:
  "\<exists>w w'. call_at demo_transport (rtc_link []) (\<lambda>b. b) demo_env
       (callee_turn demo_transport (rtc_link []) (\<lambda>b. b) demo_env demo_env 0
          (\<lambda>p. if sp_sdp p = ''o'' then Inr ''a'' else Inl ErrNotFound) node_2 poll_start)
       node_1 (nn_id node_2) \<lparr>sp_caller = nn_id node_1, sp_sdp = ''o''\<rparr> 0 w = Some (Done (Inr ''a'', w'))"
proof -
  have legal: "legal_run toy_hash [Join node_2 node_1 new_memory] (founded node_1 new_memory)"
    using nodes_ok by (simp add: Alpha_def)
  let ?a = "snd (spec_run toy_hash [Join node_2 node_1 new_memory] (founded node_1 new_memory))"
  obtain w :: "nat cluster" where "cluster_is toy_hash ?a w"
    using rtc_link.run_simulates [OF one_node_is legal, of demo_transport "[]" demo_env] by blast
  then obtain D where D: "complete toy_hash (sm_members ?a) D w" "stands_for toy_hash D ?a" unfolding cluster_is_def by blast
  have a: "sm_members ?a = {node_2, node_1}" "sm_map ?a = Map.empty" by (simp_all add: founded_def)
  have M: "members_ok {node_2, node_1}" using stands_for_members(1) [OF D(2)] a(1) by simp
  have c: "complete toy_hash {node_2, node_1} D w" using D(1) a(1) by simp
  have new: "unwritten {node_2, node_1} D k" for k
    using stands_for_none [OF D(2)] a unfolding unwritten_def by simp
  have keys: "distinct [dhtOfferKey (\<lambda>b. b) (nn_id node_1) (nn_id node_2), dhtDoorbellKey (\<lambda>b. b) (nn_id node_2),
      dhtAnswerKey (\<lambda>b. b) (nn_id node_1) (nn_id node_2)]"
    by (auto simp: dhtOfferKey_def dhtDoorbellKey_def dhtAnswerKey_def KeyFromBytes_def key_of_slice_eq_iff copy_into_def
        bytes_of_string_def)
  let ?h = "\<lambda>p. if sp_sdp p = ''o'' then Inr ''a'' else Inl ErrNotFound" and ?p = "\<lparr>sp_caller = nn_id node_1, sp_sdp = ''o''\<rparr>"
  have "node_1 \<noteq> node_2" using nodes_ok by auto
  then have "\<exists>w' D'. call_at demo_transport (rtc_link []) (\<lambda>b. b) demo_env
       (callee_turn demo_transport (rtc_link []) (\<lambda>b. b) demo_env demo_env 0 ?h node_2 poll_start)
       node_1 (nn_id node_2) ?p 0 w = Some (Done (Inr ''a'', w')) \<and> complete toy_hash {node_2, node_1} D' w'"
    by (intro dht_offer_received [OF disjI2 [OF refl] M _ _ _ c keys new new new]) (simp_all add: nano_def poll_start_def)
  then show ?thesis by blast
qed

section \<open>The demo programs\<close>

text \<open>C21: \<open>cmd/disk_demo\<close> ends with the blob it stored, of 200 KB: with three nodes whose ids differ
  over a UDP network that delivers, for every schedule, the third node finds the metadata that the
  first one stored and fetches the first one's blob; no step of the program is fatal.\<close>

theorem disk_demo_receives:
  assumes "distinct [copy_into 20 rnd1, copy_into 20 rnd2, copy_into 20 rnd3]"
    and "\<And>e. fst (tr_listen far e) = None"
    and "mkdirTemp ''dht-node1-*'' = Inr dir" and "mkdirTemp ''dht-node3-*'' = Inr dir'"
    and "faults fsys = []" and "files fsys = Map.empty"
    and "randRead (200 * 1024) = Inr blob" and "length blob = 200 * 1024" and "collision_free sha256 blob"
  shows "disk_demo_main sha1 sha256 parseIP rnd1 rnd2 rnd3 mkdirTemp fsys randRead far (udp_link rnd) env w
     = Done (Retrieved blob)"
  by (rule udp_link.disk_demo_run) (rule assms)+

definition blob_hash :: "bytes \<Rightarrow> bytes" where
  "blob_hash d = (if d = replicate (200 * 1024) 7 then [1] else [])"

lemma blob_hash_free: "collision_free blob_hash (replicate (200 * 1024) 7)"
proof -
  have "copy_into 32 [] \<noteq> copy_into 32 [1 :: byte]" by (auto simp: copy_into_def dest: arg_cong [of _ _ hd])
  then show ?thesis by (simp add: collision_free_def blob_ref_def hex_encode_inject blob_hash_def)
qed

lemma disk_demo_receives_witness:
  "disk_demo_main (\<lambda>b. b) blob_hash (\<lambda>s. Some [127, 0, 0, 1]) [1] [2] [3] Inr \<lparr>files = Map.empty, faults = []\<rparr>
     (\<lambda>n. Inr (replicate n 7)) demo_transport (udp_link []) demo_env \<lparr>cl_nodes = Map.empty, cl_env = 0\<rparr>
   = Done (Retrieved (replicate (200 * 1024) 7))"
  by (rule disk_demo_receives [where dir = "''dht-node1-*''" and dir' = "''dht-node3-*''"])
    (simp_all add: copy_into_def demo_transport_def blob_hash_free [simplified])

text \<open>\<open>cmd/demo\<close> over UDP and \<open>cmd/webrtc_http_demo\<close> over WebRTC print the value that one node
  stored and the other found, for every schedule, when the two ids differ and both nodes can
  listen.\<close>

lemma demos_retrieve:
  assumes "copy_into 20 rnd1 \<noteq> copy_into 20 rnd2" and "\<And>e. fst (tr_listen far e) = None"
  shows "demo_main sha1 parseIP rnd1 rnd2 rnd far env e = Done (Retrieved (bytes_of_string ''Hello world''))
     \<and> http_demo_main sha1 parseIP rnd1 rnd2 far (rtc_link rnd) env w = Done (Retrieved (bytes_of_string ''world''))"
  using demo_retrieves [OF assms] rtc_link.http_demo_run [OF assms] by blast

lemma demos_retrieve_witness:
  "http_demo_main (\<lambda>b. b) (\<lambda>s. None) [1] [2] demo_transport (rtc_link []) demo_env \<lparr>cl_nodes = Map.empty, cl_env = 0\<rparr>
     = Done (Retrieved (bytes_of_string ''world''))"
  by (rule demos_retrieve [THEN conjunct2]) (simp_all add: copy_into_def demo_transport_def)

text \<open>\<open>cmd/webrtc_dht_demo\<close> prints the text that the first node stored, for every schedule, whoever shares
  the contact it changes, and whatever the connections do after that: the third node has a copy
  of its own, so the signaling over the DHT that the program is about never runs.\<close>

theorem dht_demo_finds_own_copy:
  assumes "distinct [copy_into 20 rnd1, copy_into 20 rnd2, copy_into 20 rnd3]"
  shows "dht_demo_main sha1 parseIP rnd1 rnd2 rnd3 far (rtc_link rnd) env shared link' w
     = Done (Retrieved (bytes_of_string ''world via DHT signaling''))"
  by (rule rtc_link.dht_demo_run [OF assms])

lemma dht_demo_finds_own_copy_witness:
  "dht_demo_main (\<lambda>b. b) (\<lambda>s. None) [1] [2] [3] demo_transport (rtc_link []) demo_env {} (rtc_link [1])
     \<lparr>cl_nodes = Map.empty, cl_env = 0 :: nat\<rparr>
   = Done (Retrieved (bytes_of_string ''world via DHT signaling''))"
  by (rule dht_demo_finds_own_copy) (simp add: copy_into_def)

end
