(* ===== verification/Rpc_Types.thy ===== *)
theory Rpc_Types
  imports Rpc_Json Udp Webrtc
begin

text \<open>
  The types that the JSON of messages can carry are kept: what a node decodes, whoever sent it, has
  them, so the node's contacts have them, and so have its own messages.
\<close>

section \<open>Decoding gives typed contacts\<close>

text \<open>What \<open>net.IP\<close> documents: the text of a parsed address parses to it again.\<close>

definition ip_law :: "(bytes \<Rightarrow> string) \<Rightarrow> (string \<Rightarrow> bytes option) \<Rightarrow> bool" where
  "ip_law ipText parseIP \<longleftrightarrow>
     (\<forall>s ip. parseIP s = Some ip \<longrightarrow> ipText ip \<noteq> [] \<and> parseIP (ipText ip) = Some ip)"

lemma or_else_Inr: "or_else r f = Inr y \<longleftrightarrow> (\<exists>x. r = Inr x \<and> f x = Inr y)"
  by (cases r) simp_all

lemma map_sum_Inr: "map_sum id f r = Inr y \<longleftrightarrow> (\<exists>x. r = Inr x \<and> y = f x)"
  by (cases r) auto

lemma get_address_typed:
  "ip_law ipText parseIP \<Longrightarrow> get_address parseIP j = Inr (Some ip) \<Longrightarrow> ipText ip \<noteq> [] \<and> parseIP (ipText ip) = Some ip"
  by (auto simp: get_address_def ip_law_def split: json.splits if_splits option.splits)

lemma get_int_typed: "get_int j = Inr p \<Longrightarrow> - (2 ^ 63) \<le> p \<and> p < 2 ^ 63"
  using sint_greater_eq [where 'a = 64] sint_less [where 'a = 64] by (auto simp: get_int_def map_sum_Inr)

lemma get_entries_finite: "get_entries kvs m = Inr m' \<Longrightarrow> finite (dom m) \<Longrightarrow> finite (dom m')"
  by (induction kvs m rule: get_entries.induct) (auto simp: or_else_Inr)

lemma get_map_typed: "get_map j = Inr (Some m) \<Longrightarrow> finite (dom m)"
  by (auto simp: get_map_def map_sum_Inr dest: get_entries_finite split: json.splits)

lemma node_of_json_typed:
  "ip_law ipText parseIP \<Longrightarrow> node_of_json parseIP j = Inr (Some n) \<Longrightarrow> typed_node ipText parseIP n"
  by (auto simp: node_of_json_def typed_node_def or_else_Inr dest: get_address_typed get_int_typed get_map_typed
      split: json.splits)

lemma get_all_typed: "get_all f js = Inr ns \<Longrightarrow> n \<in> set ns \<Longrightarrow> \<exists>j. f j = Inr n"
  by (induction js arbitrary: ns) (auto simp: or_else_Inr map_sum_Inr)

lemma get_nodes_typed:
  "ip_law ipText parseIP \<Longrightarrow> get_nodes parseIP j = Inr ns \<Longrightarrow> Some n \<in> set ns \<Longrightarrow> typed_node ipText parseIP n"
  by (auto simp: get_nodes_def dest!: get_all_typed intro: node_of_json_typed split: json.splits)

lemma message_of_fields_typed:
  assumes "ip_law ipText parseIP" and "message_of_fields parseIP kvs rest = Inr r"
  obtains m where "rest m = Inr r" and "message_typed ipText parseIP m"
  using assms(2) get_nodes_typed [OF assms(1)] node_of_json_typed [OF assms(1)]
  by (fastforce simp: message_of_fields_def or_else_Inr message_typed_def)

lemma message_typed_with_ref [simp]: "message_typed ipText parseIP (with_ref ref m) = message_typed ipText parseIP m"
  by (simp add: message_typed_def with_ref_def message.defs)

lemma message_typed_new [simp]: "message_typed ipText parseIP (new_message ty)"
  by (simp add: message_typed_def new_message_def)

lemma read_message_typed:
  assumes "ip_law ipText parseIP" and "read_message parseIP text = Inr m"
  shows "message_typed ipText parseIP m"
  using assms(2) message_of_fields_typed [OF assms(1)]
  by (fastforce simp: read_message_def message_of_json_def split: option.splits json.splits)

lemma read_rpc_message_typed:
  assumes "ip_law ipText parseIP" and "read_rpc_message parseIP text = Inr m"
  shows "message_typed ipText parseIP m"
  using assms(2) message_of_fields_typed [OF assms(1)]
  by (fastforce simp: read_rpc_message_def rpc_message_of_json_def or_else_Inr split: option.splits json.splits)

section \<open>Nodes keep typed contacts\<close>

definition node_typed :: "(bytes \<Rightarrow> string) \<Rightarrow> (string \<Rightarrow> bytes option) \<Rightarrow> 'w node \<Rightarrow> bool" where
  "node_typed ipText parseIP n \<longleftrightarrow>
     typed_node ipText parseIP (node_self n) \<and> (\<forall>c \<in> set (contacts (node_rt n)). typed_node ipText parseIP c)"

lemma node_typed_storage [simp]: "node_typed ipText parseIP (n\<lparr>node_storage := st\<rparr>) = node_typed ipText parseIP n"
  by (simp add: node_typed_def)

lemma observePeer_typed:
  assumes "node_inv sha (fst s)" and "node_typed ipText parseIP (fst s)"
    and "\<And>n. p = Some n \<Longrightarrow> typed_node ipText parseIP n"
  shows "node_typed ipText parseIP (fst (observePeer p s))"
proof (cases p)
  case (Some n)
  have "wf_rt (node_rt (fst s))" using assms(1) by (simp add: node_inv_def)
  with contacts_Add [OF this, of n "snd s"] assms(2,3) Some show ?thesis
    by (auto simp: observePeer_def add_contact_def node_typed_def split: prod.splits)
qed (use assms(2) in \<open>simp add: observePeer_def\<close>)

lemma FindClosest_typed:
  "node_typed ipText parseIP n \<Longrightarrow> c \<in> set (FindClosest (node_rt n) k cnt) \<Longrightarrow> typed_node ipText parseIP c"
  using set_FindClosest by (fastforce simp: node_typed_def)

text \<open>The outcome of a request: a typed response of a node that stays typed.\<close>

abbreviation response_typed ::
  "(bytes \<Rightarrow> string) \<Rightarrow> (string \<Rightarrow> bytes option) \<Rightarrow> 'a message_scheme \<times> 'w node \<times> 'w \<Rightarrow> bool" where
  "response_typed ipText parseIP r \<equiv>
     message_typed ipText parseIP (fst r) \<and> node_typed ipText parseIP (fst (snd r))"

lemma udp_respond_typed:
  assumes "node_inv sha (fst s)" and "node_typed ipText parseIP (fst s)" and "message_typed ipText parseIP m"
  shows "response_typed ipText parseIP (udp_respond (Some node_handler) (node_self (fst s)) m s)"
proof -
  have self: "typed_node ipText parseIP (node_self (fst s))" using assms(2) by (simp add: node_typed_def)
  have obs: "node_typed ipText parseIP (fst (observePeer (m_sender m) s))"
    by (rule observePeer_typed [OF assms(1,2)]) (use assms(3) in \<open>simp add: message_typed_def\<close>)
  note near = FindClosest_typed [OF obs]
  show ?thesis
    using self obs near assms(2)
    by (auto simp: udp_respond_def message_typed_def new_message_def OnPing_def OnStore_eq OnFindNode_def OnFindValue_eq
        Let_def split: prod.splits option.splits)
qed

lemma rtc_respond_typed:
  assumes "node_inv sha (fst s)" and "node_typed ipText parseIP (fst s)" and "message_typed ipText parseIP m"
    and "rtc_respond (Some node_handler) (node_self (fst s)) ready tape m s = ((resp, frames), s')"
  shows "node_typed ipText parseIP (fst s') \<and> (\<forall>r. resp = Some r \<longrightarrow> message_typed ipText parseIP r)"
proof -
  have self: "typed_node ipText parseIP (node_self (fst s))" using assms(2) by (simp add: node_typed_def)
  have obs: "node_typed ipText parseIP (fst (observePeer (m_sender m) s))"
    by (rule observePeer_typed [OF assms(1,2)]) (use assms(3) in \<open>simp add: message_typed_def\<close>)
  obtain n w where o: "observePeer (m_sender m) s = (n, w)" by (cases "observePeer (m_sender m) s")
  note near = FindClosest_typed [OF obs]
  show ?thesis
    using self obs near assms(2,4) unfolding o
    by (auto simp: o rtc_respond_def message_typed_def new_message_def rpc_of_def with_ref_def OnPing_def OnStore_eq OnFindNode_def OnFindValue_eq
        Let_def message.defs rpc_message.defs split: prod.splits option.splits if_splits sum.splits)
qed

text \<open>C23: the data on the wire keep their types, whoever sends: a message that a transport decodes
  has contacts whose addresses read back and whose ports are machine integers, so the node that
  answers it keeps only such contacts, and its answer is one that \<open>json.Unmarshal\<close> reads back, up to
  the normal form of its maps and data. No check of the sender is behind this: the decoder is.\<close>

theorem messages_stay_typed:
  assumes "ip_law ipText parseIP"
    and "node_inv sha (fst s)" and "node_typed ipText parseIP (fst s)"
    and "read_message parseIP text = Inr m" and "read_rpc_message parseIP rpc_text = Inr r"
  shows "(case udp_respond (Some node_handler) (node_self (fst s)) m s of (answer, s') \<Rightarrow>
        node_typed ipText parseIP (fst s')
        \<and> read_message parseIP (message_text ipText answer) = Inr (wire (norm_contacts answer)))
     \<and> (case rtc_respond (Some node_handler) (node_self (fst s)) ready tape r s of ((answer, frames), s') \<Rightarrow>
        node_typed ipText parseIP (fst s')
        \<and> (case answer of None \<Rightarrow> True
            | Some a \<Rightarrow> read_rpc_message parseIP (rpc_message_text ipText a) = Inr (wire (norm_contacts a))))"
  using udp_respond_typed [OF assms(2,3) read_message_typed [OF assms(1,4)]]
    rtc_respond_typed [OF assms(2,3) read_rpc_message_typed [OF assms(1,5)]]
  by (auto intro: message_json rpc_message_json split: prod.splits option.splits)

text \<open>A fresh node answers a find-node request of \<open>sample_contact\<close>: the sender is in its table and in
  the answer, and all of them read back.\<close>

definition demo_ip :: "string \<Rightarrow> bytes option" where
  "demo_ip t = (if t = ''127.0.0.1'' then Some [127, 0, 0, 1] else None)"

definition sample_request :: message where
  "sample_request = (new_message RPCFindNode)\<lparr>m_is_req := True, m_sender := Some sample_contact\<rparr>"

lemma messages_stay_typed_witness:
  "case udp_respond (Some node_handler) sample_contact sample_request (NewNode sample_contact None, ()) of (answer, s') \<Rightarrow>
     read_message demo_ip (message_text (\<lambda>ip. ''127.0.0.1'') answer) = Inr (wire (norm_contacts answer))"
proof -
  let ?ip = "\<lambda>ip. ''127.0.0.1''" and ?s = "(NewNode sample_contact None :: unit node, ())"
  have law: "ip_law ?ip demo_ip" by (auto simp: ip_law_def demo_ip_def)
  have contact: "typed_node ?ip demo_ip sample_contact" by (simp add: typed_node_def sample_contact_def demo_ip_def)
  have fresh: "node_typed ?ip demo_ip (fst ?s)"
    using contact by (simp add: node_typed_def NewNode_def NewNodeWithStorage_def contacts_def NewRoutingTable_def SetPing_def)
  have "message_typed ?ip demo_ip sample_request" "message_typed ?ip demo_ip (rpc_of sample_request [])"
    using contact by (simp_all add: message_typed_def sample_request_def new_message_def)
  note texts = message_json [OF this(1)] rpc_message_json [OF this(2)]
  have "wire (norm_contacts sample_request) = sample_request"
    by (simp add: wire_def norm_contacts_def sample_request_def new_message_def norm_node_def sample_contact_def)
  moreover have inv: "node_inv (\<lambda>_. []) (fst ?s)" using NewNode_inv by simp
  note messages_stay_typed [OF law inv fresh texts, THEN conjunct1]
  moreover have "node_self (fst ?s) = sample_contact" by (simp add: NewNode_def NewNodeWithStorage_def)
  ultimately show ?thesis by (simp add: case_prod_beta)
qed

end
