(* ===== verification/Spec2Isabelle.thy ===== *)
theory Spec2Isabelle
  imports Webrtc_Guarantees Central_Guarantees Signal_Guarantees Bench_Guarantees Cluster_Guarantees Rpc_Types
begin

text \<open>
  A Kademlia-style distributed hash table over UDP or WebRTC, with the signaling that WebRTC needs.

  \<^bold>\<open>The program and its theories.\<close>
  A node (\<open>src/dht\<close>) has a 160-bit id, a routing table of contacts, a storage and a transport. Its
  operations look up the nodes nearest to a key and store or find values there; its handlers
  answer the same requests of others. A transport (\<open>src/transport/udp\<close>, \<open>src/transport/webrtc\<close>)
  carries the requests; the WebRTC one connects to a peer by an offer and an answer, which a
  signaler carries: through the server \<open>src/cmd/signal_server\<close>, as values of the table itself,
  or by HTTP. The other programs of \<open>src/cmd\<close> measure or demonstrate.

  \<^item> \<open>Prelude\<close>: bytes, errors, slices, \<open>sort.Slice\<close> (any order of equal elements), the locales
    \<open>state_machine\<close> of step relations with an invariant and \<open>stopping_machine\<close> of those that stop.
  \<^item> \<open>Key\<close>, \<open>Network_Node\<close>: \<open>dht/key.go\<close> and the contact of \<open>dht/node.go\<close>. \<open>Json\<close>, \<open>Codec\<close>: what
    \<open>encoding/json\<close> makes of keys and of \<open>ValueMeta\<close>; \<open>norm_meta\<close> is what a value is after it
    travelled as JSON (an empty inline slice becomes nil).
  \<^item> \<open>Routing_Table\<close>, \<open>Routing_Race\<close>: \<open>dht/routing_table.go\<close>; \<open>Add\<close> is two critical sections around a
    ping, \<open>radd_step\<close> interleaves any number of calls.
  \<^item> \<open>Storage\<close> (locales \<open>kv_store\<close>, \<open>blob_store\<close>), \<open>Memory_Storage\<close> over a heap of byte arrays,
    \<open>File_Path\<close> and \<open>Disk_Storage\<close> over a file system whose writes may fail.
  \<^item> \<open>Transport\<close> (record \<open>transport\<close>, locale \<open>rpc_handler\<close>), \<open>Node\<close>: state and handlers of \<open>dht/node.go\<close>.
  \<^item> \<open>Lookup\<close>, \<open>Search\<close>, \<open>Operations\<close>: \<open>dht/logic.go\<close>. The goroutines of a round (\<open>run_round\<close>) are moved by
    an environment that chooses each step; \<open>Search\<close> has the invariant of the search.
  \<^item> \<open>Rpc_Message\<close>: the message and the calls both transports share. \<open>Udp\<close>: requests, retries and the
    table of pending requests (\<open>udp_step\<close>), blobs over TCP, \<open>Listen\<close> and \<open>Close\<close>.
  \<^item> \<open>Webrtc_Blob\<close> (frames), \<open>Webrtc\<close> (requests, pending calls of a connection), \<open>Webrtc_Peers\<close> (the
    peer table), \<open>Webrtc_Flow\<close> (the pace of blob transfers up to and after the end of their connection, the
    data channels).
  \<^item> \<open>Signal_Message\<close>, \<open>Central\<close>, \<open>Signal_Server\<close>: the central signaler and its server, which is a
    function of what any clients do (\<open>server_do\<close>), and for clients that keep to a condition
    (\<open>polite_event\<close>) a machine with an exact registry;
    \<open>Central_Network\<close> and \<open>Central_Invariant\<close>: all nodes and the server as one step relation, with
    the offers and answers so far as ghosts. \<open>Dht_Signal\<close>, \<open>Direct_Signal\<close>: the other signalers. The
    caller over the DHT waits in a loop of its own (\<open>await_answer\<close>), whose \<open>select\<close> is an argument.
  \<^item> The benchmarks, part by part and as programs: \<open>Bench_Transport\<close> and \<open>Bench_Measure\<close>
    (\<open>cmd/bench_transport\<close>), \<open>Bench_Local\<close> and \<open>Bench_Local_Main\<close> (\<open>cmd/webrtc_blob_local_test\<close>),
    \<open>Bench_Raw\<close> (\<open>cmd/pion_raw_bench\<close>), \<open>Bench_Dht\<close> and \<open>Bench_Dht_Run\<close> (\<open>cmd/bench_dht\<close>),
    \<open>Bench_Signaling\<close>, \<open>Bench_Agent\<close> and \<open>Bench_Coordinator\<close> (\<open>cmd/bench_signaling\<close>, with its
    goroutines and agents as the machine \<open>coord_step\<close>). \<open>Udp_Demo\<close>: the program \<open>cmd/demo\<close>, two whole nodes over UDP.
  \<^item> \<open>Rpc_Json\<close>: the JSON of contacts and of the messages of both transports; \<open>Rpc_Types\<close>: the
    types that the decoder gives to what comes from the network.
  \<^item> \<open>Cluster\<close>: any number of whole nodes, one of which runs an operation while the others serve its
    requests through the locale \<open>delivering_link\<close>. \<open>Cluster_Search\<close>: lookups among nodes that know only
    each other; \<open>Cluster_Map\<close>, \<open>Cluster_Join\<close>, \<open>Cluster_Blob\<close>: the operations of \<open>dht/logic.go\<close> there;
    \<open>Cluster_History\<close>: histories and the abstract map; \<open>Cluster_Simulation\<close>: the simulation;
    \<open>Cluster_Signal\<close>: one member calls another over the DHT while the callee's poll loop runs;
    \<open>Cluster_Demos\<close>: \<open>cmd/disk_demo\<close> and \<open>cmd/webrtc_http_demo\<close>; \<open>Cluster_Faults\<close>: finding a value
    when nodes have crashed; \<open>Cluster_Replicas\<close>, \<open>Demo_Dht\<close>: where the copies of a value are among
    three nodes, and \<open>cmd/webrtc_dht_demo\<close>.
  \<^item> \<open>Samples\<close>, \<open>Demo_Network\<close>: concrete contacts and networks for the witnesses.
  \<^item> The properties are in the \<open>_Guarantees\<close> theories, \<open>Rpc_Json\<close> and \<open>Rpc_Types\<close>.

  \<^bold>\<open>State and calls.\<close> A component keeps the code's fields in a record, and an operation maps the
  state before to the result and the state after. The type \<open>'w\<close> is everything outside a node; a
  transport acts on it, so that a peer may do anything between two calls. An error is a value of
  \<open>go_error\<close>; a panic is \<open>Crash\<close>, or \<open>None\<close> where a size is allocated. A select between an event
  and a timer gets the outcome from the environment.

  \<^bold>\<open>Interfaces.\<close> \<open>kv_store\<close> is interpreted by the memory storage (\<open>mem\<close>), \<open>blob_store\<close>, which extends
  it, by the disk storage (\<open>disk\<close>); \<open>peer_table\<close> by the routing table (\<open>rt\<close>), on which the lookup
  rests; \<open>rpc_handler\<close> by the node (\<open>node\<close>), on which the transports rest; \<open>delivering_link\<close> by both
  transports (\<open>udp_link\<close>, \<open>rtc_link\<close>), on which the clusters rest; \<open>state_machine\<close> by
  concurrent \<open>Add\<close>s (\<open>race\<close>), the pending table (\<open>udp\<close>), the peer table (\<open>rtc\<close>), the server's
  registry with polite clients (\<open>registry\<close>), the central network (\<open>central\<close>), the polling callee (\<open>poll\<close>) and the coordinator of
  the signaling benchmark (\<open>coord\<close>); \<open>stopping_machine\<close>, which extends it, by the blob transfers of a
  connection (\<open>flow\<close>) and a round of the DHT benchmark (\<open>round\<close>).

  \<^bold>\<open>What is shown.\<close> Of the lookup: every contact it returns was asked and it returns the nearest it
  heard of; it returns for every schedule, and leaves the node well formed. Of the table: \<open>Add\<close>
  refines the queue of least recently seen contacts, \<open>FindClosest\<close> the sorted contacts, and
  concurrent \<open>Add\<close>s keep contacts in place (though one contact may enter twice). Of the
  storages: they refine a map, whatever the clients do to their slices. Of the transports: a
  call is a call of the handler at the other end, responses match requests, blobs arrive whole
  among other traffic, with a bounded number of bytes waiting to be sent, and a transfer alone on
  its connection returns while the connection is open (two of them may lose the signal that one waits for,
  and one that waits when the connection ends waits for ever, \<open>blocked_after_end\<close>). Of signaling: an
  answer was given by the callee's handler to an offer of this caller, each caller has one handler at
  a time, the server forwards to the connection that registered last, which is the open one that is
  registered if every connection registers once under an id that no open connection has; over the DHT a call
  returns by its deadline, and between members of a cluster with the answer of the callee's handler. Of the whole: a cluster of nodes that joined one another is a
  shared write-once map, with blobs, for every schedule (\<open>cluster_refines_map\<close>); a node that joins
  comes to know all and to be known by all; a stored value is found after crashes as long as the
  nearest node it was written to is left (\<open>value_survives\<close>); so the demo programs end with what they stored. What
  the wire does to a message (\<open>wire\<close>) is what its JSON does, and whatever a peer sends, a node
  keeps contacts that its own messages can carry. Of the benchmarks: the signaling one has at
  most one result per pair and lost answer more, so one per pair if no answer to a post is lost, the transport one a result only for a blob of
  the measured size, the raw one as many durations as iterations, and the nodes of the DHT one
  stay up until it has measured.

  \<^bold>\<open>Bounds and fuel.\<close> The loop of the lookup terminates as the visited set grows within what \<open>K\<close>
  contacts can hold; a round by the work left of its goroutines; \<open>store_all\<close> by the targets left.
  Retries count down from \<open>maxRetries\<close>. The loop of a caller over the DHT has no fuel: it is a
  partial function, and returns because its context ends (\<open>select_ok\<close>); it goes on for ever with a
  context that never does (\<open>await_answer_forever\<close>). In the signaling benchmark \<open>ticks\<close> is the number
  of polls before a context ends, which the code bounds too: running out is the timeout of the code. The work of a blob transfer is
  counted by the bytes and frames left (\<open>flow_work\<close>), that of a round by its phases (\<open>round_work\<close>). The
  parser of JSON texts has the length of the text as fuel, which each step consumes. A cluster
  has at most \<open>K + 1\<close> members, so that no bucket is ever full; it grows by joins while every member
  can still ask all others in one round (\<open>Alpha\<close>), as the answers of a round may repeat contacts and
  so crowd others out of the list of \<open>K\<close>.

  \<^bold>\<open>Not modelled.\<close> The libraries (sockets, TLS, STUN, WebRTC, WebSocket, HTTP, hashes, random
  bytes, the text of IP addresses) are arguments or given by their outcomes; text is taken as valid
  UTF-8. The networks that deliver, and so the clusters and demos, carry messages of any size: the limit
  of a UDP datagram (and the read buffer of 65535 bytes) and that of a message of a data channel are left
  out, as is the wait of the WebRTC \<open>FetchBlob\<close> for its peer and its channel. While a node runs a lookup its own handlers do not run in between (the
  routing table with concurrent calls is \<open>Routing_Race\<close>). In a cluster one operation runs at a time, a
  request reaches the other node at once, and one id serves all requests; a key is written once, as
  replicas that were not written keep an older value (\<open>own_copy_stays\<close>). A signaler listens once. \<open>nodeAddr\<close> and
  \<open>DHTNode\<close> in \<open>dht/node.go\<close> only format and return a field. Crashes are
  between operations (\<open>crashed_but\<close>), and a value is then found at the nearest target: the other
  targets need not be different nodes (\<open>store_value_duplicates\<close>). Of the
  benchmarks the flags, the clocks, floating-point numbers (milliseconds, throughput) and the
  output are left out; what the agents, requests and transfers do, and in which order, is arbitrary
  there. Contacts are values; where a program changes one through a pointer
  (\<open>cmd/webrtc_dht_demo\<close>), who shares it is arbitrary.
\<close>

end
